(* ===== verification/Eio_Prelude.thy ===== *)
theory Eio_Prelude
  imports Main "HOL-Library.Word" "HOL-Library.Multiset" "HOL-Library.Monad_Syntax"
begin

unbundle bit_operations_syntax

text \<open>
  What the components share. A C program point with no defined successor (a null or dangling
  dereference, an index out of its array, signed overflow, \<open>abort ()\<close>, a failed \<open>assert\<close>) is
  \<^term>\<open>None\<close>; operations that can reach such a point return an \<open>option\<close> and are composed with
  the \<open>do\<close> notation of \<open>Monad_Syntax\<close>. Errors the C code reports (a result of \<open>-1\<close>, an
  \<open>errno\<close>) are ordinary values.

  Integers follow the LP64 C ABI: an unsigned or bit-twiddled value is a word of its width, a
  value of a signed type is an \<^typ>\<open>int\<close> whose additions are checked where the code adds.
\<close>

section \<open>Automation collections\<close>

named_theorems eio_defs "definitions of the straight-line operations, for unfolding"
named_theorems rep_intros "representation facts of the pointer structures"

section \<open>Checked C integers\<close>

definition INT_MAX :: int where "INT_MAX = 2147483647"
definition INT_MIN :: int where "INT_MIN = - 2147483648"

text \<open>\<open>int_chk\<close> is the result of an \<open>int\<close> expression: undefined when it overflows.\<close>

definition int_chk :: "int \<Rightarrow> int option" where
  "int_chk i = (if INT_MIN \<le> i \<and> i \<le> INT_MAX then Some i else None)"

lemma int_chk_Some [simp]: "int_chk i = Some j \<longleftrightarrow> j = i \<and> INT_MIN \<le> i \<and> i \<le> INT_MAX"
  by (auto simp: int_chk_def)

lemma int_chk_ok [simp]: "INT_MIN \<le> i \<Longrightarrow> i \<le> INT_MAX \<Longrightarrow> int_chk i = Some i"
  by simp

text \<open>Conversion of an \<open>int\<close> to \<open>signed char\<close> (two's complement, as gcc and clang define it).\<close>

definition to_schar :: "int \<Rightarrow> 8 word" where
  "to_schar i = word_of_int i"

lemma sint_to_schar: "- 128 \<le> i \<Longrightarrow> i \<le> 127 \<Longrightarrow> sint (to_schar i) = i"
  by (simp add: to_schar_def sint_sbintrunc' signed_take_bit_int_eq_self)

section \<open>Pointers and chains\<close>

type_synonym addr = "64 word"
type_synonym ptr = "addr option"

text \<open>
  \<open>chain nxt p xs\<close>: following the link field \<open>nxt\<close> from the pointer \<open>p\<close> visits exactly the
  cells \<open>xs\<close> and ends in a null pointer. \<open>nxt x = None\<close> is a cell that is not allocated.
\<close>

fun chain :: "(addr \<Rightarrow> ptr option) \<Rightarrow> ptr \<Rightarrow> addr list \<Rightarrow> bool" where
  "chain nxt p [] \<longleftrightarrow> p = None"
| "chain nxt p (x # xs) \<longleftrightarrow>
     p = Some x \<and> (case nxt x of None \<Rightarrow> False | Some q \<Rightarrow> chain nxt q xs)"

lemma chain_None [simp]: "chain nxt None xs \<longleftrightarrow> xs = []"
  by (cases xs) auto

lemma chain_Some:
  "chain nxt (Some x) xs \<longleftrightarrow> (\<exists>q ys. xs = x # ys \<and> nxt x = Some q \<and> chain nxt q ys)"
  by (cases xs) (auto split: option.splits)

lemma chain_cong:
  "(\<And>x. x \<in> set xs \<Longrightarrow> nxt' x = nxt x) \<Longrightarrow> chain nxt' p xs = chain nxt p xs"
  by (induction xs arbitrary: p) (auto split: option.splits)

lemma chain_upd_other [simp]: "a \<notin> set xs \<Longrightarrow> chain (nxt(a := v)) p xs = chain nxt p xs"
  by (rule chain_cong) auto

lemma chain_unique: "chain nxt p xs \<Longrightarrow> chain nxt p ys \<Longrightarrow> xs = ys"
proof (induction xs arbitrary: p ys)
  case Nil
  then show ?case by simp
next
  case (Cons x xs)
  then show ?case by (cases ys) (auto split: option.splits)
qed

text \<open>Linking a fresh cell behind the last one.\<close>

lemma chain_snoc:
  assumes "chain nxt p (xs @ [e])" and "distinct (xs @ [e])" and "r \<notin> set (xs @ [e])"
  shows "chain (nxt(r := Some None, e := Some (Some r))) p ((xs @ [e]) @ [r])"
  using assms
proof (induction xs arbitrary: p)
  case Nil
  then show ?case by (auto split: option.splits)
next
  case (Cons x xs)
  then show ?case by (auto split: option.splits)
qed

definition last_ptr :: "addr list \<Rightarrow> ptr" where
  "last_ptr xs = (if xs = [] then None else Some (last xs))"

lemma last_ptr_simps [simp]:
  "last_ptr [] = None" "last_ptr (xs @ [x]) = Some x" "last_ptr xs = None \<longleftrightarrow> xs = []"
  by (auto simp: last_ptr_def)

lemma last_ptr_Some: "last_ptr xs = Some e \<longleftrightarrow> (\<exists>ys. xs = ys @ [e])"
  by (auto simp: last_ptr_def intro: append_butlast_last_id [symmetric])

lemma last_ptr_Cons: "ys \<noteq> [] \<Longrightarrow> last_ptr (y # ys) = last_ptr ys"
  by (simp add: last_ptr_def)

section \<open>Lists updated by index\<close>

definition swap :: "'a list \<Rightarrow> nat \<Rightarrow> nat \<Rightarrow> 'a list" where
  "swap xs i j = xs[i := xs ! j, j := xs ! i]"

lemma length_swap [simp]: "length (swap xs i j) = length xs"
  by (simp add: swap_def)

lemma mset_swap_idx [simp]: "i < length xs \<Longrightarrow> j < length xs \<Longrightarrow> mset (swap xs i j) = mset xs"
  unfolding swap_def by (rule mset_swap)

lemma nth_swap:
  "i < length xs \<Longrightarrow> j < length xs \<Longrightarrow> k < length xs \<Longrightarrow>
   swap xs i j ! k = (if k = i then xs ! j else if k = j then xs ! i else xs ! k)"
  by (auto simp: swap_def nth_list_update)

lemma set_swap_idx [simp]: "i < length xs \<Longrightarrow> j < length xs \<Longrightarrow> set (swap xs i j) = set xs"
  by (metis mset_swap_idx set_mset_mset)

lemma in_concat_nth: "p < length xss \<Longrightarrow> x \<in> set (xss ! p) \<Longrightarrow> x \<in> set (concat xss)"
  by (auto intro!: bexI [of _ "xss ! p"])

lemma in_concatE:
  assumes "x \<in> set (concat xss)"
  obtains p where "p < length xss" "x \<in> set (xss ! p)"
proof -
  from assms obtain xs where "xs \<in> set xss" "x \<in> set xs" by auto
  with that show thesis by (auto simp: in_set_conv_nth)
qed

lemma distinct_concat_nthD:
  assumes "distinct (concat xss)" and "i < length xss" and "j < length xss" and "i \<noteq> j"
  shows "set (xss ! i) \<inter> set (xss ! j) = {}"
  using assms
proof (induction xss arbitrary: i j)
  case Nil
  then show ?case by simp
next
  case (Cons xs xss)
  have "set xs \<inter> set (xss ! k) = {}" if "k < length xss" for k
    using Cons.prems(1) in_concat_nth [OF that] by auto
  then have tl: "set xs \<inter> set (xss ! k) = {}" if "k < length xss" for k using that .
  show ?case
  proof (cases i; cases j)
    fix i' j' assume "i = Suc i'" "j = Suc j'"
    with Cons show ?thesis by simp
  qed (use Cons.prems tl in \<open>auto simp: Int_commute\<close>)
qed

lemma distinct_concat_nth: "distinct (concat xss) \<Longrightarrow> i < length xss \<Longrightarrow> distinct (xss ! i)"
  by (induction xss arbitrary: i) (auto simp: nth_Cons' split: if_splits)

lemma concat_update_mset:
  "p < length xss \<Longrightarrow> mset (concat (xss[p := ys])) + mset (xss ! p) = mset (concat xss) + mset ys"
proof (induction xss arbitrary: p)
  case Nil
  then show ?case by simp
next
  case (Cons xs xss)
  then show ?case by (cases p) (simp_all add: ac_simps)
qed

lemma mset_concat_snoc:
  "p < length xss \<Longrightarrow> mset (concat (xss[p := xss ! p @ [x]])) = mset (x # concat xss)"
  using concat_update_mset [of p xss "xss ! p @ [x]"] by simp

lemma mset_concat_tl:
  "p < length xss \<Longrightarrow> xss ! p = x # xs \<Longrightarrow> mset (x # concat (xss[p := xs])) = mset (concat xss)"
  using concat_update_mset [of p xss xs] by simp

end
