(* ===== verification/Dent_Radix.thy ===== *)
theory Dent_Radix
  imports Eio_Prelude
begin

text \<open>
  Directory entries and the radix pre-pass of \<open>eio_dent_sort\<close> in \<open>src/libeio/eio.c\<close>: the entry
  structure with its bytes in memory, the comparison \<open>eio_dent_cmp\<close>, and \<open>eio_dent_radix_sort\<close>
  with its array of bit numbers, its in-place bit partition and its explicit stack.

  The array is a list; \<open>base\<close>, \<open>end\<close>, \<open>a\<close>, \<open>b\<close> are indices into it and \<open>bit\<close> is an index into
  the array of bit numbers. Reading before that array, and a stack index past the stack arrays,
  are undefined.
\<close>

section \<open>Directory entries\<close>

record eio_dirent =
  nameofs :: "32 word"
  namelen :: "16 word"
  dtype :: "8 word"      \<comment> \<open>\<open>type\<close>, an \<open>unsigned char\<close>\<close>
  score :: "8 word"      \<comment> \<open>\<open>signed char\<close>\<close>
  inode :: "64 word"     \<comment> \<open>\<open>ino_t\<close>\<close>

datatype endian = Little | Big

text \<open>\<open>byte_order en n i\<close>: the place in memory of byte \<open>i\<close>, counted from the low end, of an
  \<open>n\<close>-byte integer. The structure's layout is that of the LP64 ABI.\<close>

definition byte_order :: "endian \<Rightarrow> nat \<Rightarrow> nat \<Rightarrow> nat" where
  "byte_order en n i = (case en of Little \<Rightarrow> i | Big \<Rightarrow> n - 1 - i)"

definition offsetof_inode :: nat where "offsetof_inode = 8"
definition offsetof_score :: nat where "offsetof_score = 7"
definition sizeof_dirent :: nat where "sizeof_dirent = 16"

text \<open>\<open>((unsigned char * )d)[k]\<close>.\<close>

definition dent_byte :: "endian \<Rightarrow> eio_dirent \<Rightarrow> nat \<Rightarrow> 8 word" where
  "dent_byte en d k =
     (if k < 4 then ucast (drop_bit (8 * byte_order en 4 k) (nameofs d))
      else if k < 6 then ucast (drop_bit (8 * byte_order en 2 (k - 4)) (namelen d))
      else if k = 6 then dtype d
      else if k = offsetof_score then score d
      else ucast (drop_bit (8 * byte_order en 8 (k - offsetof_inode)) (inode d)))"

text \<open>\<open>eio_dent_cmp\<close>, with its result converted to \<open>signed char\<close>, and the uses of it.\<close>

definition eio_dent_cmp :: "eio_dirent \<Rightarrow> eio_dirent \<Rightarrow> 8 word" where
  "eio_dent_cmp a b =
     (if sint (score a) - sint (score b) \<noteq> 0 then to_schar (sint (score a) - sint (score b))
      else if inode a < inode b then to_schar (- 1)
      else if inode a > inode b then to_schar 1
      else to_schar 0)"

definition dent_less :: "eio_dirent \<Rightarrow> eio_dirent \<Rightarrow> bool" where
  "dent_less i j \<longleftrightarrow> sint (eio_dent_cmp i j) < 0"

definition dent_greater :: "eio_dirent \<Rightarrow> eio_dirent \<Rightarrow> bool" where
  "dent_greater i j \<longleftrightarrow> sint (eio_dent_cmp i j) > 0"

definition EIO_SORT_CUTOFF :: nat where "EIO_SORT_CUTOFF = 30"
definition EIO_SORT_FAST :: nat where "EIO_SORT_FAST = 60"

section \<open>The radix pre-pass\<close>

text \<open>\<open>((unsigned char * )&endianness)[i] = i\<close> read back as an \<open>ino_t\<close>.\<close>

definition endianness :: "endian \<Rightarrow> 64 word" where
  "endianness en = (case en of Little \<Rightarrow> 0x0706050403020100 | Big \<Rightarrow> 0x0001020304050607)"

text \<open>The array \<open>bits\<close>: a zero sentinel, the numbers of the inode bits to test, the score bits.\<close>

definition inode_bit_offs :: "endian \<Rightarrow> nat \<Rightarrow> nat" where
  "inode_bit_offs en i =
     (offsetof_inode + unat (drop_bit (8 * i) (endianness en) AND 0xff)) * 8"

definition radix_bits :: "endian \<Rightarrow> 8 word \<Rightarrow> 64 word \<Rightarrow> 8 word list" where
  "radix_bits en score_bits inode_bits =
     0 # concat (map (\<lambda>i. map (\<lambda>j. word_of_nat (inode_bit_offs en i + j))
             (filter (\<lambda>j. inode_bits AND push_bit (i * 8 + j) 1 \<noteq> 0) [0..<8])) [0..<8])
       @ map (\<lambda>j. word_of_nat (offsetof_score * 8 + j))
             (filter (\<lambda>j. score_bits AND push_bit j 1 \<noteq> 0) [0..<8])"

text \<open>The length of the arrays \<open>bits\<close>, \<open>base_stk\<close>, \<open>end_stk\<close> and \<open>bit_stk\<close>.\<close>

definition radix_array_size :: nat where "radix_array_size = 9 + 8 * 8"

text \<open>The test \<open>((unsigned char * )d)[O] & M\<close> with \<open>O = *bit >> 3\<close> and \<open>M = 1 << ( *bit & 7)\<close>.\<close>

definition radix_test :: "endian \<Rightarrow> 8 word \<Rightarrow> eio_dirent \<Rightarrow> bool" where
  "radix_test en b d \<longleftrightarrow>
     dent_byte en d (unat (drop_bit 3 b)) AND push_bit (unat (b AND 7)) 1 \<noteq> 0"

text \<open>
  The bit partition. The code's \<open>do ... while (b > a)\<close> is entered with at least
  \<open>EIO_SORT_CUTOFF\<close> entries, so testing \<open>b > a\<close> first makes no difference.
\<close>

function radix_part :: "('a \<Rightarrow> bool) \<Rightarrow> 'a list \<Rightarrow> nat \<Rightarrow> nat \<Rightarrow> 'a list \<times> nat" where
  "radix_part t xs a b =
     (if a < b then
        if \<not> t (xs ! a) then radix_part t xs (Suc a) b
        else if \<not> t (xs ! (b - 1)) then radix_part t (swap xs a (b - 1)) (Suc a) (b - 1)
        else radix_part t xs a (b - 1)
      else (xs, a))"
  by pat_completeness auto
termination
  by (relation "measure (\<lambda>(t, xs, a, b). b - a)") auto

declare radix_part.simps [simp del]

type_synonym radix_frame = "nat \<times> nat \<times> nat"

text \<open>
  The \<open>for (;;)\<close> loop: \<open>stk\<close> holds the frames below \<open>stk_idx\<close>, the newest first, so
  \<open>stk_idx = length stk\<close>.
\<close>

fun radix_descend ::
  "('b \<Rightarrow> 'a \<Rightarrow> bool) \<Rightarrow> 'b::zero list \<Rightarrow> 'a list \<Rightarrow> nat \<Rightarrow> nat \<Rightarrow> nat \<Rightarrow> radix_frame list \<Rightarrow>
     ('a list \<times> radix_frame list) option" where
  "radix_descend t bits xs base end k stk =
     (if end - base < EIO_SORT_CUTOFF then Some (xs, stk)
      else case radix_part (t (bits ! k)) xs base end of
        (xs, a) \<Rightarrow>
          (case k of
             0 \<Rightarrow> None
           | Suc k \<Rightarrow>
               if bits ! k = 0 then Some (xs, stk)
               else if radix_array_size \<le> length stk then None
               else radix_descend t bits xs base a k ((a, end, k) # stk)))"

declare radix_descend.simps [simp del]

text \<open>The weight of a stack: the \<open>do ... while (stk_idx--)\<close> loop lowers it.\<close>

definition stk_weight :: "radix_frame list \<Rightarrow> nat" where
  "stk_weight stk = sum_list (map (\<lambda>(base, end, k). 2 ^ k) stk)"

lemma stk_weight_simps [simp]:
  "stk_weight [] = 0" "stk_weight ((b, e, k) # stk) = 2 ^ k + stk_weight stk"
  by (simp_all add: stk_weight_def)

lemma radix_descend_weight:
  "radix_descend t bits xs base end k stk = Some (xs', stk') \<Longrightarrow>
   stk_weight stk' < 2 ^ k + stk_weight stk"
proof (induction k arbitrary: xs base "end" stk)
  case 0
  then show ?case by (subst (asm) radix_descend.simps) (simp split: if_splits prod.splits)
next
  case (Suc k)
  show ?case
  proof (cases "end - base < EIO_SORT_CUTOFF")
    case True
    with Suc.prems show ?thesis by (simp add: radix_descend.simps)
  next
    case False
    obtain ys a where part: "radix_part (t (bits ! Suc k)) xs base end = (ys, a)" by force
    show ?thesis
    proof (cases "bits ! k = 0")
      case True
      with Suc.prems False part show ?thesis by (simp add: radix_descend.simps [of _ _ _ _ _ "Suc k"])
    next
      case nz: False
      with Suc.prems False part
      have "radix_descend t bits ys base a k ((a, end, k) # stk) = Some (xs', stk')"
        by (simp add: radix_descend.simps [of _ _ _ _ _ "Suc k"] split: if_splits)
      from Suc.IH [OF this] show ?thesis by simp
    qed
  qed
qed

function radix_loop ::
  "('b \<Rightarrow> 'a \<Rightarrow> bool) \<Rightarrow> 'b::zero list \<Rightarrow> 'a list \<Rightarrow> radix_frame list \<Rightarrow> 'a list option" where
  "radix_loop t bits xs stk =
     (case stk of
        [] \<Rightarrow> Some xs
      | (base, end, k) # stk \<Rightarrow>
          (case radix_descend t bits xs base end k stk of
             None \<Rightarrow> None
           | Some (xs, stk) \<Rightarrow> radix_loop t bits xs stk))"
  by pat_completeness auto
termination
  by (relation "measure (\<lambda>(t, bits, xs, stk). stk_weight stk)") (auto dest: radix_descend_weight)

declare radix_loop.simps [simp del]

definition eio_dent_radix_sort ::
  "endian \<Rightarrow> eio_dirent list \<Rightarrow> 8 word \<Rightarrow> 64 word \<Rightarrow> eio_dirent list option" where
  "eio_dent_radix_sort en dents score_bits inode_bits =
     (if length dents \<le> EIO_SORT_FAST then Some dents
      else let bits = radix_bits en score_bits inode_bits
           in radix_loop (radix_test en) bits dents [(0, length dents, length bits - 1)])"

end
