(* ===== verification/Dent_Radix_Correct.thy ===== *)
theory Dent_Radix_Correct
  imports Dent_Radix
begin

text \<open>
  Correctness of the radix pre-pass, in three steps: the loop over the explicit stack equals a
  recursive function as long as the stack has room, which the bit numbers guarantee; the bit
  partition splits a range in place; and the recursion leaves every inversion within
  \<open>EIO_SORT_CUTOFF\<close> places. The locale \<open>bit_tests\<close> is the interface between the sort and the
  tested bits: the tests read the bits of a numeric key, highest last.
\<close>

section \<open>The explicit stack as a recursion\<close>

fun radix_rec ::
  "('b \<Rightarrow> 'a \<Rightarrow> bool) \<Rightarrow> 'b::zero list \<Rightarrow> 'a list \<Rightarrow> nat \<Rightarrow> nat \<Rightarrow> nat \<Rightarrow> 'a list option" where
  "radix_rec t bits xs base end k =
     (if end - base < EIO_SORT_CUTOFF then Some xs
      else case radix_part (t (bits ! k)) xs base end of
        (xs, a) \<Rightarrow>
          (case k of
             0 \<Rightarrow> None
           | Suc k \<Rightarrow>
               if bits ! k = 0 then Some xs
               else do { xs \<leftarrow> radix_rec t bits xs base a k; radix_rec t bits xs a end k }))"

declare radix_rec.simps [simp del]

lemma radix_loop_Nil: "radix_loop t bits xs [] = Some xs"
  by (simp add: radix_loop.simps)

lemma radix_loop_Cons:
  "radix_loop t bits xs ((base, end, k) # stk) =
     do { (xs, stk) \<leftarrow> radix_descend t bits xs base end k stk; radix_loop t bits xs stk }"
  by (subst radix_loop.simps) (simp add: Option.bind_def split: option.split)

lemma radix_loop_rec:
  assumes "length stk + k \<le> radix_array_size"
  shows "radix_loop t bits xs ((base, end, k) # stk) =
     do { xs \<leftarrow> radix_rec t bits xs base end k; radix_loop t bits xs stk }"
  using assms
proof (induction k arbitrary: xs base "end" stk)
  case 0
  then show ?case
    by (simp add: radix_loop_Cons radix_descend.simps [of _ _ _ _ _ 0] radix_rec.simps [of _ _ _ _ _ 0]
        split: prod.split)
next
  case (Suc k)
  obtain ys a where part: "radix_part (t (bits ! Suc k)) xs base end = (ys, a)" by force
  show ?case
  proof (cases "end - base < EIO_SORT_CUTOFF \<or> bits ! k = 0")
    case True
    with part show ?thesis
      by (auto simp: radix_loop_Cons radix_descend.simps [of _ _ _ _ _ "Suc k"]
          radix_rec.simps [of _ _ _ _ _ "Suc k"])
  next
    case False
    with part Suc.prems
    have "radix_descend t bits xs base end (Suc k) stk =
        radix_descend t bits ys base a k ((a, end, k) # stk)"
      by (simp add: radix_descend.simps [of _ _ _ _ _ "Suc k"])
    then have "radix_loop t bits xs ((base, end, Suc k) # stk) =
        radix_loop t bits ys ((base, a, k) # (a, end, k) # stk)"
      by (simp add: radix_loop_Cons [of _ _ _ base])
    also have "\<dots> = do { zs \<leftarrow> radix_rec t bits ys base a k;
        zs \<leftarrow> radix_rec t bits zs a end k; radix_loop t bits zs stk }"
      using Suc.prems by (simp add: Suc.IH)
    also have "\<dots> = do { xs \<leftarrow> radix_rec t bits xs base end (Suc k); radix_loop t bits xs stk }"
      using False part by (simp add: radix_rec.simps [of _ _ _ _ _ "Suc k"])
    finally show ?thesis .
  qed
qed

section \<open>Permuting a range in place\<close>

definition perm_in :: "nat \<Rightarrow> nat \<Rightarrow> 'a list \<Rightarrow> 'a list \<Rightarrow> bool" where
  "perm_in a b xs ys \<longleftrightarrow>
     length ys = length xs \<and> mset ys = mset xs \<and>
     (\<forall>i < length xs. i < a \<or> b \<le> i \<longrightarrow> ys ! i = xs ! i)"

lemma perm_in_refl [simp]: "perm_in a b xs xs"
  by (simp add: perm_in_def)

lemma perm_in_trans: "perm_in a b xs ys \<Longrightarrow> perm_in a b ys zs \<Longrightarrow> perm_in a b xs zs"
  by (auto simp: perm_in_def)

lemma perm_in_mono: "perm_in a b xs ys \<Longrightarrow> a' \<le> a \<Longrightarrow> b \<le> b' \<Longrightarrow> perm_in a' b' xs ys"
  by (auto simp: perm_in_def)

lemma perm_in_swap:
  "a \<le> i \<Longrightarrow> i < b \<Longrightarrow> a \<le> j \<Longrightarrow> j < b \<Longrightarrow> b \<le> length xs \<Longrightarrow> perm_in a b xs (swap xs i j)"
  by (auto simp: perm_in_def nth_swap)

lemma perm_in_slice:
  assumes "perm_in a b xs ys" and "a \<le> b" and "b \<le> length xs"
  shows "mset (take (b - a) (drop a ys)) = mset (take (b - a) (drop a xs))"
proof -
  have split: "mset zs = mset (take a zs) + mset (take (b - a) (drop a zs)) + mset (drop b zs)"
    for zs :: "'a list"
    using assms(2) by (metis append.assoc append_take_drop_id drop_drop le_add_diff_inverse2 mset_append)
  have "take a ys = take a xs" "drop b ys = drop b xs"
    using assms by (auto simp: perm_in_def intro!: nth_equalityI)
  with split [of xs] split [of ys] assms(1) show ?thesis by (simp add: perm_in_def)
qed

text \<open>What held for all entries of the range still holds for all of them.\<close>

lemma perm_in_all:
  assumes "perm_in a b xs ys" and "b \<le> length xs" and "\<And>i. a \<le> i \<Longrightarrow> i < b \<Longrightarrow> P (xs ! i)"
    and "a \<le> i" and "i < b"
  shows "P (ys ! i)"
proof -
  have len: "length ys = length xs" using assms(1) by (simp add: perm_in_def)
  have "ys ! i = take (b - a) (drop a ys) ! (i - a)" using assms len by simp
  moreover have "i - a < length (take (b - a) (drop a ys))" using assms len by simp
  ultimately have "ys ! i \<in> set (take (b - a) (drop a ys))" by (metis nth_mem)
  also have "\<dots> = set (take (b - a) (drop a xs))"
  proof -
    have "a \<le> b" using assms(4,5) by simp
    from perm_in_slice [OF assms(1) this assms(2)] show ?thesis by (metis set_mset_mset)
  qed
  finally obtain k where "k < b - a" "ys ! i = xs ! (a + k)"
    using assms(2) by (auto simp: in_set_conv_nth)
  with assms(3) [of "a + k"] show ?thesis by simp
qed

section \<open>The bit partition\<close>

lemma radix_part_spec:
  assumes "a \<le> b" and "b \<le> length xs" and "radix_part t xs a b = (ys, m)"
  shows "a \<le> m \<and> m \<le> b \<and> perm_in a b xs ys \<and>
    (\<forall>i. a \<le> i \<and> i < m \<longrightarrow> \<not> t (ys ! i)) \<and> (\<forall>i. m \<le> i \<and> i < b \<longrightarrow> t (ys ! i))"
  using assms
proof (induction t xs a b arbitrary: ys m rule: radix_part.induct)
  case (1 t xs a b)
  consider "\<not> a < b" | "a < b" "\<not> t (xs ! a)" | "a < b" "t (xs ! a)" "\<not> t (xs ! (b - 1))"
    | "a < b" "t (xs ! a)" "t (xs ! (b - 1))" by blast
  then show ?case
  proof cases
    case 1
    then have "a = b" using "1.prems"(1) by simp
    moreover from 1 have "radix_part t xs a b = (xs, a)" by (simp add: radix_part.simps [of t xs a b])
    ultimately show ?thesis using "1.prems"(3) by (auto simp: radix_part.simps [of t xs a b])
  next
    case 2
    with "1.prems" have *: "radix_part t xs (Suc a) b = (ys, m)" by (simp add: radix_part.simps [of t xs a b])
    with "1.IH"(1) [OF 2 _ _ *] 2 "1.prems" have IH: "Suc a \<le> m" "m \<le> b" "perm_in (Suc a) b xs ys"
      "\<forall>i. Suc a \<le> i \<and> i < m \<longrightarrow> \<not> t (ys ! i)" "\<forall>i. m \<le> i \<and> i < b \<longrightarrow> t (ys ! i)" by auto
    then have "ys ! a = xs ! a" using 2 "1.prems" by (simp add: perm_in_def)
    with IH 2 show ?thesis
      by (metis Suc_leD Suc_leI le_neq_implies_less le_refl perm_in_mono)
  next
    case 3
    let ?xs = "swap xs a (b - 1)"
    from 3 have ne: "a < b - 1" by (metis One_nat_def Suc_leI Suc_pred le_neq_implies_less less_Suc_eq_le less_zeroE neq0_conv)
    from 3 "1.prems" have *: "radix_part t ?xs (Suc a) (b - 1) = (ys, m)" by (simp add: radix_part.simps [of t xs a b])
    with "1.IH"(2) [OF 3(1) _ 3(3) _ _ *] 3 ne "1.prems" have IH: "Suc a \<le> m" "m \<le> b - 1"
      "perm_in (Suc a) (b - 1) ?xs ys"
      "\<forall>i. Suc a \<le> i \<and> i < m \<longrightarrow> \<not> t (ys ! i)" "\<forall>i. m \<le> i \<and> i < b - 1 \<longrightarrow> t (ys ! i)" by auto
    then have ends: "ys ! a = xs ! (b - 1)" "ys ! (b - 1) = xs ! a"
      using 3 ne "1.prems" by (auto simp: perm_in_def nth_swap)
    have "perm_in a b xs ?xs" using 3 "1.prems" by (intro perm_in_swap) auto
    moreover have "perm_in a b ?xs ys" by (rule perm_in_mono [OF IH(3)]) auto
    ultimately have "perm_in a b xs ys" by (rule perm_in_trans)
    moreover have "\<not> t (ys ! i)" if "a \<le> i" "i < m" for i
      using that IH(4) ends 3 by (cases "i = a") auto
    moreover have "t (ys ! i)" if "m \<le> i" "i < b" for i
      using that IH(5) ends 3 by (cases "i = b - 1") auto
    ultimately show ?thesis using IH by auto
  next
    case 4
    with "1.prems" have *: "radix_part t xs a (b - 1) = (ys, m)" by (simp add: radix_part.simps [of t xs a b])
    with "1.IH"(3) [OF 4(1) _ _ _ _ *] 4 "1.prems" have IH: "a \<le> m" "m \<le> b - 1" "perm_in a (b - 1) xs ys"
      "\<forall>i. a \<le> i \<and> i < m \<longrightarrow> \<not> t (ys ! i)" "\<forall>i. m \<le> i \<and> i < b - 1 \<longrightarrow> t (ys ! i)" by auto
    then have "ys ! (b - 1) = xs ! (b - 1)" using 4 "1.prems" by (simp add: perm_in_def)
    then have "t (ys ! i)" if "m \<le> i" "i < b" for i
      using that IH(5) 4 by (cases "i = b - 1") auto
    moreover have "perm_in a b xs ys" by (rule perm_in_mono [OF IH(3)]) auto
    ultimately show ?thesis using IH by auto
  qed
qed

section \<open>Tests that read the bits of a key\<close>

lemma bit_less:
  fixes x y :: nat
  assumes above: "\<And>m. n < m \<Longrightarrow> bit x m = bit y m" and "\<not> bit x n" and "bit y n"
  shows "x < y"
proof -
  have split: "z = 2 ^ Suc n * drop_bit (Suc n) z + (of_bool (bit z n) * 2 ^ n + take_bit n z)" for z :: nat
  proof -
    have "z = push_bit (Suc n) (drop_bit (Suc n) z) + take_bit (Suc n) z"
      by (metis bits_ident)
    moreover have "take_bit (Suc n) z = of_bool (bit z n) * 2 ^ n + take_bit n z"
      by (simp add: take_bit_Suc_from_most)
    ultimately show ?thesis by (simp add: push_bit_eq_mult mult.commute)
  qed
  have "drop_bit (Suc n) x = drop_bit (Suc n) y"
    by (rule bit_eqI) (use above in \<open>simp add: bit_drop_bit_eq\<close>)
  then have "x = 2 ^ Suc n * drop_bit (Suc n) y + take_bit n x"
    using split [of x] assms(2) by (metis of_bool_eq(1) mult_zero_left add_0)
  moreover have "y = 2 ^ Suc n * drop_bit (Suc n) y + (2 ^ n + take_bit n y)"
    using split [of y] assms(3) by (metis of_bool_eq(2) mult_1)
  moreover have "take_bit n x < 2 ^ n" by simp
  ultimately show ?thesis by linarith
qed

text \<open>\<open>near_sorted key a b xs\<close>: inversions of the range \<open>[a, b)\<close> are shorter than the cutoff.\<close>

definition near_sorted :: "('a \<Rightarrow> nat) \<Rightarrow> nat \<Rightarrow> nat \<Rightarrow> 'a list \<Rightarrow> bool" where
  "near_sorted key a b xs \<longleftrightarrow>
     (\<forall>i j. a \<le> i \<and> i < j \<and> j < b \<and> key (xs ! j) < key (xs ! i) \<longrightarrow> j - i < EIO_SORT_CUTOFF)"

lemma near_sorted_short: "b - a < EIO_SORT_CUTOFF \<Longrightarrow> near_sorted key a b xs"
  by (auto simp: near_sorted_def)

lemma near_sorted_join:
  assumes "near_sorted key a m xs" and "near_sorted key m b xs"
    and "\<And>i j. a \<le> i \<Longrightarrow> i < m \<Longrightarrow> m \<le> j \<Longrightarrow> j < b \<Longrightarrow> key (xs ! i) \<le> key (xs ! j)"
  shows "near_sorted key a b xs"
  unfolding near_sorted_def
proof (intro allI impI)
  fix i j
  assume ij: "a \<le> i \<and> i < j \<and> j < b \<and> key (xs ! j) < key (xs ! i)"
  then consider "j < m" | "m \<le> i" | "i < m" "m \<le> j" by linarith
  then show "j - i < EIO_SORT_CUTOFF"
  proof cases
    case 3
    with ij assms(3) [of i j] show ?thesis by simp
  qed (use ij assms(1,2) in \<open>auto simp: near_sorted_def\<close>)
qed

lemma near_sorted_cong:
  assumes "near_sorted key a b xs" and "\<And>i. a \<le> i \<Longrightarrow> i < b \<Longrightarrow> ys ! i = xs ! i"
  shows "near_sorted key a b ys"
proof -
  have "ys ! i = xs ! i" "ys ! j = xs ! j" if "a \<le> i \<and> i < j \<and> j < b" for i j
    using that assms(2) by auto
  with assms(1) show ?thesis unfolding near_sorted_def by metis
qed

text \<open>
  \<open>bits ! 0\<close> is the sentinel; test \<open>k > 0\<close> reads bit \<open>pos k\<close> of the key, the positions grow
  with \<open>k\<close>, and the keys of the entries to be sorted (\<open>ok\<close>) agree on all bits not tested.
\<close>

locale bit_tests =
  fixes test :: "'b::zero \<Rightarrow> 'a \<Rightarrow> bool" and bits :: "'b list"
    and key :: "'a \<Rightarrow> nat" and pos :: "nat \<Rightarrow> nat" and ok :: "'a \<Rightarrow> bool"
  assumes sentinel: "bits ! 0 = 0"
    and bits_nonzero: "0 < k \<Longrightarrow> k < length bits \<Longrightarrow> bits ! k \<noteq> 0"
    and test_bit: "0 < k \<Longrightarrow> k < length bits \<Longrightarrow> test (bits ! k) d \<longleftrightarrow> bit (key d) (pos k)"
    and pos_mono: "0 < j \<Longrightarrow> j < k \<Longrightarrow> k < length bits \<Longrightarrow> pos j < pos k"
    and untested: "ok d \<Longrightarrow> ok e \<Longrightarrow> (\<And>k. 0 < k \<Longrightarrow> k < length bits \<Longrightarrow> pos k \<noteq> n) \<Longrightarrow>
          bit (key d) n = bit (key e) n"
begin

definition agree :: "nat \<Rightarrow> 'a \<Rightarrow> 'a \<Rightarrow> bool" where
  "agree k d e \<longleftrightarrow> (\<forall>j. k < j \<and> j < length bits \<longrightarrow> bit (key d) (pos j) = bit (key e) (pos j))"

lemma agree_last: "agree (length bits - 1) d e"
  by (auto simp: agree_def)

lemma agree_above:
  assumes "agree k d e" and "ok d" and "ok e" and "0 < k" and "k < length bits" and "pos k < n"
  shows "bit (key d) n = bit (key e) n"
proof (cases "\<exists>j. 0 < j \<and> j < length bits \<and> pos j = n")
  case True
  then obtain j where j: "0 < j" "j < length bits" "pos j = n" by blast
  have "\<not> j < k" using pos_mono [of j k] j assms by auto
  moreover have "j \<noteq> k" using j assms(6) by auto
  ultimately show ?thesis using assms(1) j by (auto simp: agree_def)
next
  case False
  with untested [of d e n] assms(2,3) show ?thesis by blast
qed

lemma key_less:
  assumes "agree k d e" and "ok d" and "ok e" and "0 < k" and "k < length bits"
    and "\<not> test (bits ! k) d" and "test (bits ! k) e"
  shows "key d < key e"
proof (rule bit_less)
  show "bit (key d) n = bit (key e) n" if "pos k < n" for n
    using agree_above [OF assms(1-5) that] .
qed (use assms test_bit in auto)

lemma agree_0_key:
  assumes "agree 0 d e" and "ok d" and "ok e"
  shows "key d = key e"
proof (rule bit_eqI)
  fix n
  show "bit (key d) n = bit (key e) n"
    using assms untested [of d e n] by (auto simp: agree_def)
qed

lemma agree_pred:
  "agree (Suc k) d e \<Longrightarrow> Suc k < length bits \<Longrightarrow> test (bits ! Suc k) d = test (bits ! Suc k) e \<Longrightarrow>
   agree k d e"
  using test_bit [of "Suc k"] unfolding agree_def by (metis Suc_lessI zero_less_Suc)

text \<open>The recursion sorts a range whose entries agree on the higher bits up to the cutoff.\<close>

lemma perm_in_pair:
  assumes p: "perm_in base end xs ys" and len: "end \<le> length xs"
    and all: "\<And>i j. base \<le> i \<Longrightarrow> i < end \<Longrightarrow> base \<le> j \<Longrightarrow> j < end \<Longrightarrow> R (xs ! i) (xs ! j)"
    and ij: "base \<le> i" "i < end" "base \<le> j" "j < end"
  shows "R (ys ! i) (ys ! j)"
proof -
  have "R (ys ! i) (xs ! l)" if "base \<le> l" "l < end" for l
    using perm_in_all [OF p len, where P = "\<lambda>d. R d (xs ! l)"] all ij(1,2) that by blast
  then show ?thesis
    using perm_in_all [OF p len, where P = "R (ys ! i)"] ij(3,4) by blast
qed

lemma perm_in_parts:
  assumes lo: "perm_in base m ys zs" and hi: "perm_in m end zs ws"
    and m: "base \<le> m" "m \<le> end" "end \<le> length ys"
    and cross: "\<And>i j. base \<le> i \<Longrightarrow> i < m \<Longrightarrow> m \<le> j \<Longrightarrow> j < end \<Longrightarrow> R (ys ! i) (ys ! j)"
    and ij: "base \<le> i" "i < m" "m \<le> j" "j < end"
  shows "R (ws ! i) (ws ! j)"
proof -
  have len: "length zs = length ys" using lo by (simp add: perm_in_def)
  have same: "zs ! l = ys ! l" if "m \<le> l" "l < end" for l
    using lo that m by (simp add: perm_in_def)
  have "R (ys ! i') (ws ! j)" if "base \<le> i'" "i' < m" for i'
    by (rule perm_in_all [OF hi _ _ ij(3,4)]) (use cross that same len m in auto)
  then have "R (zs ! i) (ws ! j)"
    using perm_in_all [OF lo, where P = "\<lambda>d. R d (ws ! j)"] ij m by (meson le_trans)
  moreover have "ws ! i = zs ! i" using hi ij m len by (simp add: perm_in_def)
  ultimately show ?thesis by simp
qed

lemma radix_rec_correct:
  assumes "0 < k" and "k < length bits" and "base \<le> end" and "end \<le> length xs"
    and "\<And>i. base \<le> i \<Longrightarrow> i < end \<Longrightarrow> ok (xs ! i)"
    and "\<And>i j. base \<le> i \<Longrightarrow> i < end \<Longrightarrow> base \<le> j \<Longrightarrow> j < end \<Longrightarrow> agree k (xs ! i) (xs ! j)"
  shows "\<exists>ys. radix_rec test bits xs base end k = Some ys \<and> perm_in base end xs ys \<and>
    near_sorted key base end ys"
  using assms
proof (induction k arbitrary: xs base "end")
  case 0
  then show ?case by simp
next
  case (Suc k)
  note unfold = radix_rec.simps [of _ _ _ _ _ "Suc k"]
  obtain ys m where part: "radix_part (test (bits ! Suc k)) xs base end = (ys, m)" by force
  from radix_part_spec [OF Suc.prems(3,4) part]
  have m: "base \<le> m" "m \<le> end" and p: "perm_in base end xs ys"
    and lo: "\<And>i. base \<le> i \<Longrightarrow> i < m \<Longrightarrow> \<not> test (bits ! Suc k) (ys ! i)"
    and hi: "\<And>i. m \<le> i \<Longrightarrow> i < end \<Longrightarrow> test (bits ! Suc k) (ys ! i)" by auto
  have len: "length ys = length xs" using p by (simp add: perm_in_def)
  have oky: "ok (ys ! i)" if "base \<le> i" "i < end" for i
    using perm_in_all [OF p Suc.prems(4), where P = ok] Suc.prems(5) that by blast
  have agr: "agree (Suc k) (ys ! i) (ys ! j)" if "base \<le> i" "i < end" "base \<le> j" "j < end" for i j
    by (rule perm_in_pair [OF p Suc.prems(4), where R = "agree (Suc k)"]) (fact Suc.prems(6) that)+
  have cross: "key (ys ! i) \<le> key (ys ! j)" if "base \<le> i" "i < m" "m \<le> j" "j < end" for i j
    using key_less [of "Suc k" "ys ! i" "ys ! j"] agr oky lo hi that m Suc.prems(1,2) by fastforce
  have agk: "agree k (ys ! i) (ys ! j)"
    if "base \<le> i \<and> i < m \<and> base \<le> j \<and> j < m \<or> m \<le> i \<and> i < end \<and> m \<le> j \<and> j < end" for i j
    by (rule agree_pred) (use that agr lo hi m Suc.prems(2) in auto)
  consider "end - base < EIO_SORT_CUTOFF" | "\<not> end - base < EIO_SORT_CUTOFF" "k = 0"
    | "\<not> end - base < EIO_SORT_CUTOFF" "0 < k" by blast
  then show ?case
  proof cases
    case 1
    then show ?thesis by (auto simp: unfold near_sorted_short)
  next
    case 2
    have "radix_rec test bits xs base end (Suc k) = Some ys"
      by (subst unfold) (use 2 part sentinel in simp)
    moreover have "near_sorted key base m ys" "near_sorted key m end ys"
      using 2 agk agree_0_key oky m unfolding near_sorted_def
      by (metis less_irrefl less_le_trans order.trans less_imp_le)+
    ultimately show ?thesis using near_sorted_join cross p by blast
  next
    case 3
    have k: "k < length bits" using Suc.prems(2) by simp
    from Suc.IH [of base m ys] 3 k m len Suc.prems(4) oky agk obtain zs where
      zs: "radix_rec test bits ys base m k = Some zs" "perm_in base m ys zs" "near_sorted key base m zs"
      by fastforce
    have same: "zs ! i = ys ! i" if "m \<le> i" "i < end" for i
      using zs(2) that len Suc.prems(4) by (simp add: perm_in_def)
    have lenz: "length zs = length xs" using zs(2) len by (simp add: perm_in_def)
    from Suc.IH [of m "end" zs] 3 k m lenz Suc.prems(4) oky agk same obtain ws where
      ws: "radix_rec test bits zs m end k = Some ws" "perm_in m end zs ws" "near_sorted key m end ws"
      by fastforce
    have low: "ws ! i = zs ! i" if "base \<le> i" "i < m" for i
      using ws(2) that lenz m Suc.prems(4) by (simp add: perm_in_def)
    have "radix_rec test bits xs base end (Suc k) = Some ws"
      using 3 part bits_nonzero [of k] k zs(1) ws(1) by (simp add: unfold)
    moreover have "perm_in base end xs ws"
      using p perm_in_mono [OF zs(2)] perm_in_mono [OF ws(2)] m by (meson le_refl perm_in_trans)
    moreover have "near_sorted key base m ws" by (rule near_sorted_cong [OF zs(3)]) (use low in auto)
    moreover have "key (ws ! i) \<le> key (ws ! j)" if "base \<le> i" "i < m" "m \<le> j" "j < end" for i j
      by (rule perm_in_parts [OF zs(2) ws(2) m, where R = "\<lambda>d d'. key d \<le> key d'"])
        (use cross that len Suc.prems(4) in simp_all)
    ultimately show ?thesis using near_sorted_join [OF _ ws(3)] by blast
  qed
qed

end

end
