(* ===== verification/Dent_Key.thy ===== *)
theory Dent_Key
  imports Dent_Radix_Correct
begin

text \<open>
  The numeric key the directory sort orders by, score above inode, and the interpretation of
  \<open>bit_tests\<close> on the bit numbers \<open>eio_dent_radix_sort\<close> prepares: on either byte order, test \<open>k\<close>
  reads the key's bit at the \<open>k\<close>-th selected position.
\<close>

section \<open>The key\<close>

definition dent_key :: "eio_dirent \<Rightarrow> nat" where
  "dent_key d = push_bit 64 (unat (score d)) OR unat (inode d)"

lemma bit_unat_word: "bit (unat w) n \<longleftrightarrow> bit w n" for w :: "'a::len word"
  by (simp add: bit_simps)

lemma bit_word_length: "bit w n \<Longrightarrow> n < LENGTH('a)" for w :: "'a::len word"
  by (rule bit_imp_le_length)

lemma bit_dent_key:
  "bit (dent_key d) n \<longleftrightarrow> (if n < 64 then bit (inode d) n else bit (score d) (n - 64))"
  by (auto simp: dent_key_def bit_or_iff bit_push_bit_iff' bit_unat_word dest: bit_word_length)

lemma dent_key_eq: "dent_key d = unat (score d) * 2 ^ 64 + unat (inode d)"
proof -
  have "push_bit 64 (unat (score d)) AND unat (inode d) = 0"
    by (rule bit_eqI) (auto simp: bit_and_iff bit_push_bit_iff' bit_unat_word dest: bit_word_length)
  then show ?thesis
    by (simp add: dent_key_def disjunctive_add_eq_or [symmetric] push_bit_eq_mult)
qed

lemma dent_key_less:
  "dent_key a < dent_key b \<longleftrightarrow>
     unat (score a) < unat (score b) \<or> unat (score a) = unat (score b) \<and> inode a < inode b"
proof -
  have "unat (inode a) < 2 ^ 64" "unat (inode b) < 2 ^ 64"
    using unsigned_less [of "inode a"] unsigned_less [of "inode b"] by simp_all
  then show ?thesis unfolding dent_key_eq word_less_nat_alt by auto
qed

text \<open>The scores the scan assigns are not negative.\<close>

definition score_ok :: "eio_dirent \<Rightarrow> bool" where
  "score_ok d \<longleftrightarrow> 0 \<le> sint (score d)"

lemma score_ok_unat: "score_ok d \<Longrightarrow> sint (score d) = int (unat (score d))"
proof -
  assume "score_ok d"
  then have "\<not> bit (score d) 7"
    using bit_last_iff [of "score d"] by (simp add: score_ok_def)
  then have "n < 7" if "bit (score d) n" for n
    using bit_word_length [OF that] that by (cases "n = 7") auto
  then have "take_bit 7 (uint (score d)) = uint (score d)"
    by (auto intro!: bit_eqI simp: bit_take_bit_iff bit_uint_iff)
  then show ?thesis using \<open>\<not> bit (score d) 7\<close>
    by (simp add: sint_uint signed_take_bit_eq_if_positive bit_uint_iff)
qed

lemma sint_score_bounds: "- 128 \<le> sint (score d)" "sint (score d) \<le> 127"
  using sint_ge [of "score d"] sint_lt [of "score d"] by simp_all

text \<open>On such scores the subtraction of \<open>eio_dent_cmp\<close> does not leave a \<open>signed char\<close>.\<close>

lemma dent_cmp_key:
  assumes "score_ok a" and "score_ok b"
  shows "dent_less a b \<longleftrightarrow> dent_key a < dent_key b"
    and "dent_greater a b \<longleftrightarrow> dent_key b < dent_key a"
proof -
  have "sint (to_schar (sint (score a) - sint (score b))) = sint (score a) - sint (score b)"
    using assms sint_score_bounds [of a] sint_score_bounds [of b]
    by (intro sint_to_schar) (simp_all add: score_ok_def)
  moreover obtain m n where "sint (score a) = int m" "unat (score a) = m"
    "sint (score b) = int n" "unat (score b) = n"
    using assms score_ok_unat by blast
  ultimately show "dent_less a b \<longleftrightarrow> dent_key a < dent_key b"
    "dent_greater a b \<longleftrightarrow> dent_key b < dent_key a"
    by (auto simp: dent_less_def dent_greater_def eio_dent_cmp_def dent_key_less
        sint_to_schar not_less_iff_gr_or_eq)
qed

section \<open>The selected bit positions\<close>

definition radix_positions :: "8 word \<Rightarrow> 64 word \<Rightarrow> nat list" where
  "radix_positions score_bits inode_bits =
     filter (bit inode_bits) [0..<64] @ map ((+) 64) (filter (bit score_bits) [0..<8])"

text \<open>The bit number of a position of the key.\<close>

definition bit_code :: "endian \<Rightarrow> nat \<Rightarrow> 8 word" where
  "bit_code en p =
     word_of_nat (if p < 64 then inode_bit_offs en (p div 8) + p mod 8 else offsetof_score * 8 + (p - 64))"

lemma concat_map_blocks:
  "concat (map (\<lambda>i. map (f i) (filter (P i) [0..<8])) [0..<n]) =
   map (\<lambda>p. f (p div 8) (p mod 8)) (filter (\<lambda>p. P (p div 8) (p mod 8)) [0..<n * 8])"
proof (induction n)
  case 0
  then show ?case by simp
next
  case (Suc n)
  have "map ((+) (n * 8)) [0..<8] = map (\<lambda>i. i + n * 8) [0..<8]" by (rule map_cong) auto
  then have "[n * 8..<n * 8 + 8] = map ((+) (n * 8)) [0..<8]"
    using map_add_upt [of "n * 8" 8] by (simp only: add.commute)
  then have "[0..<Suc n * 8] = [0..<n * 8] @ map ((+) (n * 8)) [0..<8]"
    by (metis add.commute le_add1 mult_Suc upt_add_eq_append zero_le)
  moreover have "map (\<lambda>p. f (p div 8) (p mod 8))
      (filter (\<lambda>p. P (p div 8) (p mod 8)) (map ((+) (n * 8)) [0..<8])) = map (f n) (filter (P n) [0..<8])"
    by (auto simp: filter_map comp_def intro!: map_cong filter_cong)
  ultimately show ?case using Suc by simp
qed

lemma radix_bits_eq:
  "radix_bits en sb ib = 0 # map (bit_code en) (radix_positions sb ib)"
proof -
  have "concat (map (\<lambda>i. map (\<lambda>j. word_of_nat (inode_bit_offs en i + j))
          (filter (\<lambda>j. ib AND push_bit (i * 8 + j) 1 \<noteq> 0) [0..<8])) [0..<8]) =
        map (bit_code en) (filter (bit ib) [0..<64])"
    unfolding concat_map_blocks bit_iff_and_push_bit_not_eq_0 [symmetric]
    by (auto simp: bit_code_def intro!: map_cong)
  moreover have "map (\<lambda>j. word_of_nat (offsetof_score * 8 + j))
          (filter (\<lambda>j. sb AND push_bit j 1 \<noteq> 0) [0..<8]) =
        map (bit_code en) (map ((+) 64) (filter (bit sb) [0..<8]))"
    unfolding bit_iff_and_push_bit_not_eq_0 [symmetric] by (simp add: bit_code_def)
  ultimately show ?thesis by (simp add: radix_bits_def radix_positions_def)
qed

lemma set_radix_positions: "p \<in> set (radix_positions sb ib) \<Longrightarrow> p < 72"
  by (auto simp: radix_positions_def)

lemma length_radix_positions: "length (radix_positions sb ib) \<le> 72"
proof -
  have "length (filter (bit ib) [0..<64]) \<le> 64" "length (filter (bit sb) [0..<8]) \<le> 8"
    by (metis length_filter_le length_upt diff_zero)+
  then show ?thesis by (simp add: radix_positions_def)
qed

lemma sorted_radix_positions: "sorted_wrt (<) (radix_positions sb ib)"
  by (auto simp: radix_positions_def sorted_wrt_append sorted_wrt_map intro!: sorted_wrt_filter)

section \<open>What a test reads\<close>

lemma less_8_cases:
  "i < 8 \<Longrightarrow> i = 0 \<or> i = 1 \<or> i = 2 \<or> i = 3 \<or> i = 4 \<or> i = 5 \<or> i = 6 \<or> i = (7::nat)"
  by linarith

lemma inode_bit_offs_eq: "i < 8 \<Longrightarrow> inode_bit_offs en i = (8 + byte_order en 8 i) * 8"
  by (cases en; drule less_8_cases; elim disjE)
    (simp_all add: inode_bit_offs_def endianness_def byte_order_def offsetof_inode_def)

lemma byte_order_less: "i < n \<Longrightarrow> byte_order en n i < n"
  by (cases en) (auto simp: byte_order_def)

lemma byte_order_invol: "i < n \<Longrightarrow> byte_order en n (byte_order en n i) = i"
  by (cases en) (auto simp: byte_order_def)

text \<open>Splitting a bit number into a byte offset and a bit within the byte.\<close>

lemma bit_number_split:
  assumes "q < 32" and "j < 8"
  shows "unat (drop_bit 3 (word_of_nat (q * 8 + j) :: 8 word)) = q"
    and "unat ((word_of_nat (q * 8 + j) :: 8 word) AND 7) = j"
    and "0 < q \<Longrightarrow> (word_of_nat (q * 8 + j) :: 8 word) \<noteq> 0"
proof -
  have gen: "unat (word_of_nat x :: 8 word) = x" if "x < 256" for x
    using that by (simp add: unat_of_nat)
  have u: "unat (word_of_nat (q * 8 + j) :: 8 word) = q * 8 + j"
    by (rule gen) (use assms in simp)
  show "unat (drop_bit 3 (word_of_nat (q * 8 + j) :: 8 word)) = q"
    unfolding unat_drop_bit_eq u using assms by (simp add: drop_bit_eq_div)
  have "(7 :: 8 word) = mask 3" by (simp add: mask_eq_exp_minus_1)
  then have "unat ((word_of_nat (q * 8 + j) :: 8 word) AND 7) = take_bit 3 (q * 8 + j)"
    by (simp only: take_bit_eq_mask [symmetric] unsigned_take_bit_eq u)
  then show "unat ((word_of_nat (q * 8 + j) :: 8 word) AND 7) = j"
    using assms by (simp add: take_bit_eq_mod)
  show "(word_of_nat (q * 8 + j) :: 8 word) \<noteq> 0" if "0 < q"
    using u that by (metis add_is_0 mult_is_0 neq0_conv unsigned_0 zero_neq_numeral)
qed

lemma bit_code_parts:
  assumes "p < 72"
  obtains k j where "7 \<le> k" "k < 16" "j < 8" "bit_code en p = word_of_nat (k * 8 + j)"
    and "bit (dent_byte en d k) j = bit (dent_key d) p"
proof (cases "p < 64")
  case True
  let ?i = "p div 8" and ?j = "p mod 8"
  have i: "?i < 8" and j: "?j < 8" using True by auto
  let ?k = "8 + byte_order en 8 ?i"
  have "bit_code en p = word_of_nat (?k * 8 + ?j)"
    using True inode_bit_offs_eq [OF i] by (simp add: bit_code_def)
  moreover have "bit (dent_byte en d ?k) ?j = bit (dent_key d) p"
  proof -
    have "dent_byte en d ?k = ucast (drop_bit (8 * ?i) (inode d))"
      using byte_order_invol [OF i] by (simp add: dent_byte_def offsetof_score_def offsetof_inode_def)
    then show ?thesis using True j
      by (simp add: bit_dent_key bit_ucast_iff bit_drop_bit_eq)
  qed
  ultimately show thesis using that [of ?k ?j] j byte_order_less [OF i] by simp
next
  case False
  have "bit_code en p = word_of_nat (7 * 8 + (p - 64))"
    using False by (simp add: bit_code_def offsetof_score_def)
  moreover have "bit (dent_byte en d 7) (p - 64) = bit (dent_key d) p"
    using False by (simp add: bit_dent_key dent_byte_def offsetof_score_def)
  ultimately show thesis using that [of 7 "p - 64"] False assms by simp
qed

lemma radix_test_bit: "p < 72 \<Longrightarrow> radix_test en (bit_code en p) d \<longleftrightarrow> bit (dent_key d) p"
proof -
  assume "p < 72"
  then obtain k j where kj: "k < 16" "j < 8" and c: "bit_code en p = word_of_nat (k * 8 + j)"
    and b: "bit (dent_byte en d k) j = bit (dent_key d) p" by (rule bit_code_parts)
  have "unat (drop_bit 3 (bit_code en p)) = k" "unat (bit_code en p AND 7) = j"
    unfolding c by (rule bit_number_split; use kj in simp)+
  with b show ?thesis
    by (simp only: radix_test_def bit_iff_and_push_bit_not_eq_0 [symmetric])
qed

lemma bit_code_nonzero: "p < 72 \<Longrightarrow> bit_code en p \<noteq> 0"
proof -
  assume "p < 72"
  then obtain k j where "7 \<le> k" "k < 16" "j < 8" "bit_code en p = word_of_nat (k * 8 + j)"
    by (rule bit_code_parts)
  then show ?thesis using bit_number_split(3) [of k j] by simp
qed

section \<open>The interface holds for the prepared bits\<close>

text \<open>
  \<open>dent_ok s0 sb ib d\<close>: the inode bits of \<open>d\<close> are among \<open>inode_bits\<close> (which holds the \<open>OR\<close> of
  all inodes) and outside \<open>score_bits\<close> its score is the common score \<open>s0\<close>.
\<close>

definition dent_ok :: "8 word \<Rightarrow> 8 word \<Rightarrow> 64 word \<Rightarrow> eio_dirent \<Rightarrow> bool" where
  "dent_ok s0 score_bits inode_bits d \<longleftrightarrow>
     inode d AND NOT inode_bits = 0 \<and> (score d XOR s0) AND NOT score_bits = 0"

lemma dent_ok_inode:
  assumes "dent_ok s0 sb ib d" and "bit (inode d) n"
  shows "bit ib n"
proof -
  have "\<not> bit (inode d AND NOT ib) n" using assms(1) by (simp add: dent_ok_def)
  with assms(2) bit_word_length [OF assms(2)] show ?thesis by (simp add: bit_and_iff bit_not_iff)
qed

lemma dent_ok_score:
  assumes "dent_ok s0 sb ib d" and "\<not> bit sb n"
  shows "bit (score d) n = bit s0 n"
proof (cases "n < 8")
  case True
  have "\<not> bit ((score d XOR s0) AND NOT sb) n" using assms(1) by (simp add: dent_ok_def)
  with assms(2) True show ?thesis by (simp add: bit_and_iff bit_not_iff bit_xor_iff)
next
  case False
  then show ?thesis using bit_word_length [of "score d" n] bit_word_length [of s0 n] by auto
qed

interpretation dent_bits: bit_tests "radix_test en" "radix_bits en sb ib" dent_key
  "\<lambda>k. radix_positions sb ib ! (k - 1)" "dent_ok s0 sb ib" for en s0 sb ib
proof unfold_locales
  let ?ps = "radix_positions sb ib"
  have len: "k < length (radix_bits en sb ib) \<longleftrightarrow> k < Suc (length ?ps)" for k
    by (simp add: radix_bits_eq)
  have nth: "radix_bits en sb ib ! k = bit_code en (?ps ! (k - 1))" "?ps ! (k - 1) < 72"
    if "0 < k" "k < length (radix_bits en sb ib)" for k
    using that len [of k] by (auto simp: radix_bits_eq nth_Cons' intro!: set_radix_positions nth_mem)
  show "radix_bits en sb ib ! 0 = 0" by (simp add: radix_bits_def)
  fix k d assume k: "0 < k" "k < length (radix_bits en sb ib)"
  show "radix_bits en sb ib ! k \<noteq> 0" using nth [OF k] by (simp add: bit_code_nonzero)
  show "radix_test en (radix_bits en sb ib ! k) d = bit (dent_key d) (?ps ! (k - 1))"
    using nth [OF k] by (simp add: radix_test_bit)
next
  let ?ps = "radix_positions sb ib"
  fix j k assume "0 < j" "j < k" "k < length (radix_bits en sb ib)"
  then show "?ps ! (j - 1) < ?ps ! (k - 1)"
    by (intro sorted_wrt_nth_less [OF sorted_radix_positions]) (auto simp: radix_bits_eq)
next
  let ?ps = "radix_positions sb ib"
  fix d e n
  assume ok: "dent_ok s0 sb ib d" "dent_ok s0 sb ib e"
    and new: "\<And>k. 0 < k \<Longrightarrow> k < length (radix_bits en sb ib) \<Longrightarrow> ?ps ! (k - 1) \<noteq> n"
  have "n \<notin> set ?ps"
  proof
    assume "n \<in> set ?ps"
    then obtain i where "i < length ?ps" "?ps ! i = n" by (auto simp: in_set_conv_nth)
    with new [of "Suc i"] show False by (simp add: radix_bits_eq)
  qed
  moreover have "n \<in> set ?ps" if "64 \<le> n" "n < 72" "bit sb (n - 64)"
  proof -
    have "n = 64 + (n - 64)" "n - 64 \<in> {x. x < 8 \<and> bit sb x}" using that by auto
    then show ?thesis by (auto simp: radix_positions_def)
  qed
  ultimately have "n < 64 \<Longrightarrow> \<not> bit ib n" "64 \<le> n \<Longrightarrow> n < 72 \<Longrightarrow> \<not> bit sb (n - 64)"
    by (auto simp: radix_positions_def)
  moreover have "bit (score x) (n - 64) \<Longrightarrow> n - 64 < 8" for x by (drule bit_word_length) simp
  ultimately show "bit (dent_key d) n = bit (dent_key e) n"
    using ok dent_ok_inode dent_ok_score unfolding bit_dent_key
    by (cases "n < 72") (fastforce+)
qed

end
