(* ===== verification/Dent_Sort.thy ===== *)
theory Dent_Sort
  imports Dent_Key
begin

text \<open>
  The insertion sort that finishes the directory sort, and \<open>eio_dent_sort\<close> itself
  (\<open>src/libeio/eio.c\<close>). The insertion sort moves the least entry to the front first, so that the
  inner loop needs no bound check; the radix pre-pass is what makes the least of the first
  \<open>EIO_SORT_CUTOFF + 1\<close> entries the least of all. Reading \<open>dents [-1]\<close> is undefined.

  The locale \<open>key_order\<close> is the interface the insertion sort has to the comparison.
\<close>

section \<open>The code\<close>

text \<open>\<open>for (i = ...; --i; )\<close>: \<open>i\<close> is the counter before its decrement, \<open>m\<close> the index of \<open>min\<close>.\<close>

fun min_scan :: "('a \<Rightarrow> 'a \<Rightarrow> bool) \<Rightarrow> 'a list \<Rightarrow> nat \<Rightarrow> nat \<Rightarrow> nat option" where
  "min_scan lt ds 0 m = None"
| "min_scan lt ds (Suc 0) m = Some m"
| "min_scan lt ds (Suc (Suc i)) m =
     min_scan lt ds (Suc i) (if lt (ds ! Suc i) (ds ! m) then Suc i else m)"

text \<open>\<open>for (j = i - 1; EIO_DENT_CMP ( *j, >, value); --j) j [1] = j [0]; j [1] = value\<close>: the second
  argument is \<open>j + 1\<close>.\<close>

fun shift_down :: "('a \<Rightarrow> 'a \<Rightarrow> bool) \<Rightarrow> 'a list \<Rightarrow> nat \<Rightarrow> 'a \<Rightarrow> 'a list option" where
  "shift_down gt ds 0 v = None"
| "shift_down gt ds (Suc j) v =
     (if gt (ds ! j) v then shift_down gt (ds[Suc j := ds ! j]) j v else Some (ds[Suc j := v]))"

text \<open>\<open>for (i = dents + 1; i < dents + size; ++i)\<close>.\<close>

function insert_loop :: "('a \<Rightarrow> 'a \<Rightarrow> bool) \<Rightarrow> 'a list \<Rightarrow> nat \<Rightarrow> nat \<Rightarrow> 'a list option" where
  "insert_loop gt ds i n =
     (if i < n then do { ds \<leftarrow> shift_down gt ds i (ds ! i); insert_loop gt ds (Suc i) n }
      else Some ds)"
  by pat_completeness auto
termination
  by (relation "measure (\<lambda>(gt, ds, i, n). n - i)") auto

declare insert_loop.simps [simp del]

definition eio_dent_insertion_sort :: "eio_dirent list \<Rightarrow> eio_dirent list option" where
  "eio_dent_insertion_sort dents = do {
     m \<leftarrow> min_scan dent_less dents
            (if EIO_SORT_FAST < length dents then EIO_SORT_CUTOFF + 1 else length dents) 0;
     insert_loop dent_greater (swap dents 0 m) 1 (length dents) }"

definition eio_dent_sort ::
  "endian \<Rightarrow> eio_dirent list \<Rightarrow> 8 word \<Rightarrow> 64 word \<Rightarrow> eio_dirent list option" where
  "eio_dent_sort en dents score_bits inode_bits =
     (if length dents \<le> 1 then Some dents
      else do {
        dents \<leftarrow> eio_dent_radix_sort en dents score_bits inode_bits;
        eio_dent_insertion_sort dents })"

section \<open>Sorting with a comparison that reflects a key\<close>

locale key_order =
  fixes lt :: "'a \<Rightarrow> 'a \<Rightarrow> bool" and gt :: "'a \<Rightarrow> 'a \<Rightarrow> bool"
    and key :: "'a \<Rightarrow> nat" and ok :: "'a \<Rightarrow> bool"
  assumes lt_key: "ok d \<Longrightarrow> ok e \<Longrightarrow> lt d e \<longleftrightarrow> key d < key e"
    and gt_key: "ok d \<Longrightarrow> ok e \<Longrightarrow> gt d e \<longleftrightarrow> key e < key d"
begin

text \<open>The scan finds the least entry of the first \<open>i\<close>.\<close>

lemma min_scan_least:
  assumes "0 < i" and "i \<le> length ds" and "\<forall>d \<in> set ds. ok d" and "m < length ds"
  shows "\<exists>k. min_scan lt ds i m = Some k \<and> (k = m \<or> k < i) \<and>
    key (ds ! k) \<le> key (ds ! m) \<and> (\<forall>j. 0 < j \<and> j < i \<longrightarrow> key (ds ! k) \<le> key (ds ! j))"
  using assms
proof (induction i arbitrary: m)
  case 0
  then show ?case by simp
next
  case (Suc n)
  show ?case
  proof (cases n)
    case 0
    then show ?thesis by simp
  next
    case (Suc i)
    define m' where "m' = (if lt (ds ! Suc i) (ds ! m) then Suc i else m)"
    have cmp: "lt (ds ! Suc i) (ds ! m) \<longleftrightarrow> key (ds ! Suc i) < key (ds ! m)"
      using Suc.prems Suc by (intro lt_key) auto
    have "m' < length ds" using Suc.prems Suc by (simp add: m'_def)
    with Suc.IH [of m'] Suc.prems Suc obtain k where
      k: "min_scan lt ds (Suc i) m' = Some k" "k = m' \<or> k < Suc i"
        "key (ds ! k) \<le> key (ds ! m')" "\<forall>j. 0 < j \<and> j < Suc i \<longrightarrow> key (ds ! k) \<le> key (ds ! j)"
      by auto
    have "key (ds ! k) \<le> key (ds ! m)" "key (ds ! k) \<le> key (ds ! Suc i)"
      using k(3) cmp by (auto simp: m'_def split: if_splits)
    moreover have "k = m \<or> k < Suc n" using k(2) Suc by (auto simp: m'_def)
    moreover have "min_scan lt ds (Suc n) m = Some k" using k(1) Suc by (simp add: m'_def)
    ultimately show ?thesis using k(4) Suc by (auto simp: less_Suc_eq)
  qed
qed

text \<open>
  The inner loop inserts \<open>v\<close> into a sorted prefix whose first entry is not above \<open>v\<close>: it stops
  in the array, and the rest of the array is unchanged.
\<close>

lemma shift_down_spec:
  assumes "0 < i" and "i < length ds" and "sorted (map key (take i ds))"
    and "\<forall>d \<in> set (take i ds). ok d" and "ok v" and "key (ds ! 0) \<le> key v"
  shows "\<exists>p q. take i ds = p @ q \<and> p \<noteq> [] \<and> (\<forall>d \<in> set p. key d \<le> key v) \<and> (\<forall>d \<in> set q. key v < key d) \<and>
    shift_down gt ds i v = Some (p @ v # q @ drop (Suc i) ds)"
  using assms
proof (induction i arbitrary: ds)
  case 0
  then show ?case by simp
next
  case (Suc j)
  have take: "take (Suc j) ds = take j ds @ [ds ! j]" using Suc.prems(2) by (simp add: take_Suc_conv_app_nth)
  have gt: "gt (ds ! j) v \<longleftrightarrow> key v < key (ds ! j)"
    using Suc.prems(4,5) take by (intro gt_key) auto
  have rest: "drop (Suc j) (ds[Suc j := x]) = x # drop (Suc (Suc j)) ds" for x
    using Suc.prems(2) by (simp add: drop_update_swap Cons_nth_drop_Suc [symmetric])
  show ?case
  proof (cases "key v < key (ds ! j)")
    case False
    have "\<forall>d \<in> set (take (Suc j) ds). key d \<le> key v"
      using Suc.prems(3) False take by (fastforce simp: sorted_append)
    moreover have "ds[Suc j := v] = take (Suc j) ds @ v # drop (Suc (Suc j)) ds"
      using Suc.prems(2) by (rule upd_conv_take_nth_drop)
    ultimately show ?thesis using gt False Suc.prems(2)
      by (intro exI [of _ "take (Suc j) ds"] exI [of _ "[]"]) auto
  next
    case True
    then have j: "0 < j" using Suc.prems(6) by (cases j) auto
    let ?ds = "ds[Suc j := ds ! j]"
    have "take j ?ds = take j ds" "?ds ! 0 = ds ! 0" by simp_all
    with Suc.IH [of ?ds] j Suc.prems take obtain p q where pq: "take j ds = p @ q" "p \<noteq> []"
      "\<forall>d \<in> set p. key d \<le> key v" "\<forall>d \<in> set q. key v < key d"
      "shift_down gt ?ds j v = Some (p @ v # q @ drop (Suc j) ?ds)"
      by (auto simp: sorted_append)
    then show ?thesis using True gt take rest
      by (intro exI [of _ p] exI [of _ "q @ [ds ! j]"]) auto
  qed
qed

lemma insert_step:
  assumes "0 < i" and i: "i < length ds" and sorted: "sorted (map key (take i ds))"
    and oks: "\<forall>d \<in> set ds. ok d" and least: "\<forall>d \<in> set ds. key (ds ! 0) \<le> key d"
  shows "\<exists>es. shift_down gt ds i (ds ! i) = Some es \<and> mset es = mset ds \<and>
    sorted (map key (take (Suc i) es)) \<and> es ! 0 = ds ! 0"
proof -
  have "\<forall>d \<in> set (take i ds). ok d" "ok (ds ! i)" "key (ds ! 0) \<le> key (ds ! i)"
    using oks least i by (auto dest: in_set_takeD)
  from shift_down_spec [OF assms(1) i sorted this] obtain p q where
    pq: "take i ds = p @ q" "p \<noteq> []" "\<forall>d \<in> set p. key d \<le> key (ds ! i)"
      "\<forall>d \<in> set q. key (ds ! i) < key d"
    and sd: "shift_down gt ds i (ds ! i) = Some (p @ ds ! i # q @ drop (Suc i) ds)" by blast
  let ?es = "p @ ds ! i # q @ drop (Suc i) ds"
  have ds: "ds = p @ q @ ds ! i # drop (Suc i) ds"
    using id_take_nth_drop [OF i] unfolding pq(1) by simp
  have "mset (p @ q @ ds ! i # drop (Suc i) ds) = mset ?es" by simp
  with ds have "mset ?es = mset ds" by metis
  moreover have "length p + length q = i" using arg_cong [OF pq(1), of length] i by simp
  then have "take (Suc i) ?es = p @ ds ! i # q" by auto
  moreover have "sorted (map key (p @ q))" using sorted pq(1) by simp
  then have "sorted (map key (p @ ds ! i # q))"
    using pq(3,4) by (auto simp: sorted_append intro: less_imp_le)
  moreover have "?es ! 0 = ds ! 0"
  proof -
    have "ds ! 0 = (p @ q @ ds ! i # drop (Suc i) ds) ! 0" using ds by metis
    with pq(2) show ?thesis by (simp add: nth_append)
  qed
  ultimately show ?thesis using sd by metis
qed

lemma insert_loop_sorts:
  assumes "0 < i" and "i \<le> n" and "n = length ds" and "sorted (map key (take i ds))"
    and "\<forall>d \<in> set ds. ok d" and "\<forall>d \<in> set ds. key (ds ! 0) \<le> key d"
  shows "\<exists>es. insert_loop gt ds i n = Some es \<and> mset es = mset ds \<and> sorted (map key es)"
  using assms
proof (induction "n - i" arbitrary: ds i)
  case 0
  then show ?case by (simp add: insert_loop.simps)
next
  case (Suc k)
  then have i: "i < length ds" by simp
  from insert_step [OF Suc.prems(1) i Suc.prems(4-6)] obtain ds' where
    ds': "shift_down gt ds i (ds ! i) = Some ds'" "mset ds' = mset ds"
      "sorted (map key (take (Suc i) ds'))" "ds' ! 0 = ds ! 0" by blast
  have "set ds' = set ds" "length ds' = length ds"
    using ds'(2) by (metis set_mset_mset, metis size_mset)
  moreover have "k = n - Suc i" "Suc i \<le> n" using Suc.hyps(2) Suc.prems(3) i by auto
  ultimately obtain es where "insert_loop gt ds' (Suc i) n = Some es" "mset es = mset ds'" "sorted (map key es)"
    using Suc.hyps(1) [of "Suc i" ds'] Suc.prems ds'(3,4) by auto
  moreover have "insert_loop gt ds i n = insert_loop gt ds' (Suc i) n"
    using i Suc.prems(3) ds'(1) by (simp add: insert_loop.simps [of _ ds])
  ultimately show ?case using ds'(2) by simp
qed

end

text \<open>\<open>eio_dent_cmp\<close> reflects the key on the entries with a non-negative score.\<close>

interpretation dent_order: key_order dent_less dent_greater dent_key score_ok
  by unfold_locales (auto simp: dent_cmp_key)

section \<open>The whole sort\<close>

text \<open>With short inversions only, the least entry is near the front.\<close>

lemma near_sorted_front:
  assumes near: "near_sorted key 0 (length ds) ds" and k: "k < length ds"
    and least: "\<And>j. j \<le> EIO_SORT_CUTOFF \<Longrightarrow> j < length ds \<Longrightarrow> key (ds ! k) \<le> key (ds ! j)"
  shows "\<forall>d \<in> set ds. key (ds ! k) \<le> key d"
proof -
  have "key (ds ! k) \<le> key (ds ! j)" if "j < length ds" for j
  proof (cases "j \<le> EIO_SORT_CUTOFF")
    case True
    with least that show ?thesis by blast
  next
    case False
    then have "\<not> key (ds ! j) < key (ds ! 0)"
      using near [unfolded near_sorted_def, rule_format, of 0 j] that by auto
    moreover have "key (ds ! k) \<le> key (ds ! 0)" using least [of 0] k by (cases ds) auto
    ultimately show ?thesis by simp
  qed
  then show ?thesis by (auto simp: in_set_conv_nth)
qed

lemma insertion_sort_correct:
  assumes ne: "dents \<noteq> []" and ok: "\<forall>d \<in> set dents. score_ok d"
    and near: "EIO_SORT_FAST < length dents \<Longrightarrow> near_sorted dent_key 0 (length dents) dents"
  shows "\<exists>es. eio_dent_insertion_sort dents = Some es \<and> mset es = mset dents \<and>
    sorted (map dent_key es)"
proof -
  let ?i = "if EIO_SORT_FAST < length dents then EIO_SORT_CUTOFF + 1 else length dents"
  have i: "0 < ?i" "?i \<le> length dents" "0 < length dents"
    using ne by (auto simp: EIO_SORT_FAST_def EIO_SORT_CUTOFF_def)
  from dent_order.min_scan_least [OF i(1,2) ok i(3)] obtain k where
    k: "min_scan dent_less dents ?i 0 = Some k" "k = 0 \<or> k < ?i"
      "dent_key (dents ! k) \<le> dent_key (dents ! 0)"
      "\<forall>j. 0 < j \<and> j < ?i \<longrightarrow> dent_key (dents ! k) \<le> dent_key (dents ! j)" by blast
  have kl: "k < length dents" using k(2) i by auto
  have first: "dent_key (dents ! k) \<le> dent_key (dents ! j)" if "j < ?i" for j
    using k(3,4) that by (cases "j = 0") auto
  have least: "\<forall>d \<in> set dents. dent_key (dents ! k) \<le> dent_key d"
  proof (cases "EIO_SORT_FAST < length dents")
    case True
    show ?thesis by (rule near_sorted_front [OF near [OF True] kl]) (use first True in auto)
  next
    case False
    with first show ?thesis by (auto simp: in_set_conv_nth)
  qed
  let ?ds = "swap dents 0 k"
  have "?ds ! 0 = dents ! k" using kl i(3) by (simp add: nth_swap)
  moreover have set: "set ?ds = set dents" "mset ?ds = mset dents" using kl i(3) by simp_all
  moreover have "take 1 ?ds = [?ds ! 0]" using i(3) by (simp add: take_Suc_conv_app_nth)
  ultimately have "\<exists>es. insert_loop dent_greater ?ds 1 (length dents) = Some es \<and>
      mset es = mset ?ds \<and> sorted (map dent_key es)"
    using least ok i by (intro dent_order.insert_loop_sorts) auto
  with k(1) set show ?thesis by (auto simp: eio_dent_insertion_sort_def)
qed

text \<open>The explicit stack has room for all bits: the loop is the recursion.\<close>

lemma radix_sort_rec:
  assumes "EIO_SORT_FAST < length dents"
  shows "eio_dent_radix_sort en dents sb ib =
    radix_rec (radix_test en) (radix_bits en sb ib) dents 0 (length dents)
      (length (radix_bits en sb ib) - 1)"
proof -
  have "length (radix_bits en sb ib) - 1 \<le> radix_array_size"
    using length_radix_positions [of sb ib] by (simp add: radix_bits_eq radix_array_size_def)
  then show ?thesis
    using assms by (simp add: eio_dent_radix_sort_def radix_loop_rec radix_loop_Nil Let_def)
qed

lemma radix_positions_Nil: "radix_positions sb ib = [] \<longleftrightarrow> sb = 0 \<and> ib = 0"
proof
  assume "radix_positions sb ib = []"
  then have "\<forall>n < 8. \<not> bit sb n" "\<forall>n < 64. \<not> bit ib n"
    by (auto simp: radix_positions_def filter_empty_conv)
  then show "sb = 0 \<and> ib = 0"
    by (auto intro!: bit_eqI)
qed (simp add: radix_positions_def)

lemma radix_sort_correct:
  assumes long: "EIO_SORT_FAST < length dents" and bits: "sb \<noteq> 0 \<or> ib \<noteq> 0"
    and ok: "\<forall>d \<in> set dents. dent_ok s0 sb ib d"
  shows "\<exists>es. eio_dent_radix_sort en dents sb ib = Some es \<and> mset es = mset dents \<and>
    near_sorted dent_key 0 (length es) es"
proof -
  let ?k = "length (radix_bits en sb ib) - 1"
  have k: "0 < ?k" "?k < length (radix_bits en sb ib)"
    using bits radix_positions_Nil [of sb ib] by (auto simp: radix_bits_eq)
  have "\<exists>ys. radix_rec (radix_test en) (radix_bits en sb ib) dents 0 (length dents) ?k = Some ys \<and>
      perm_in 0 (length dents) dents ys \<and> near_sorted dent_key 0 (length dents) ys"
    using ok by (intro dent_bits.radix_rec_correct [OF k] dent_bits.agree_last) auto
  then show ?thesis unfolding radix_sort_rec [OF long] by (auto simp: perm_in_def)
qed

lemma dent_sort_correct:
  assumes bits: "EIO_SORT_FAST < length dents \<Longrightarrow> sb \<noteq> 0 \<or> ib \<noteq> 0"
    and ok: "\<forall>d \<in> set dents. score_ok d \<and> dent_ok s0 sb ib d"
  shows "\<exists>es. eio_dent_sort en dents sb ib = Some es \<and> mset es = mset dents \<and>
    sorted (map dent_key es)"
proof (cases "length dents \<le> 1")
  case True
  then have "sorted (map dent_key dents)" by (cases dents) auto
  with True show ?thesis by (simp add: eio_dent_sort_def)
next
  case False
  have "\<exists>es. eio_dent_radix_sort en dents sb ib = Some es \<and> mset es = mset dents \<and>
      (EIO_SORT_FAST < length dents \<longrightarrow> near_sorted dent_key 0 (length es) es)"
  proof (cases "EIO_SORT_FAST < length dents")
    case True
    with radix_sort_correct [OF True bits [OF True]] ok show ?thesis by blast
  next
    case False
    then show ?thesis by (simp add: eio_dent_radix_sort_def)
  qed
  then obtain es where es: "eio_dent_radix_sort en dents sb ib = Some es" "mset es = mset dents"
    "EIO_SORT_FAST < length dents \<longrightarrow> near_sorted dent_key 0 (length es) es" by blast
  have "set es = set dents" "length es = length dents"
    using es(2) by (metis set_mset_mset, metis size_mset)
  with es(3) ok False insertion_sort_correct [of es] obtain fs where
    "eio_dent_insertion_sort es = Some fs" "mset fs = mset es" "sorted (map dent_key fs)"
    by fastforce
  with es(1,2) False show ?thesis by (auto simp: eio_dent_sort_def)
qed

end
