(* ===== verification/Dent_Scandir.thy ===== *)
theory Dent_Scandir
  imports Dent_Sort
begin

text \<open>
  \<open>eio__scandir\<close> of \<open>src/libeio/eio.c\<close>: reading a directory into a buffer of names and, if asked
  for, an array of \<open>eio_dirent\<close>s, which is then ordered as the flags say.

  What the operating system answers is a parameter: the entries \<open>readdir\<close> returns, each with
  whether the request is found cancelled after it, the \<open>errno\<close> of the final null result, and
  which allocations succeed. Each \<open>realloc\<close> of a buffer asks for a new size, so its success is
  a function of the size. The names are \<open>d_name\<close>s without their terminating zero; the type codes
  are those of a \<open>dirent.h\<close> with a \<open>d_type\<close> member (Linux, the BSDs).
\<close>

section \<open>Constants\<close>

definition EIO_READDIR_DENTS :: int where "EIO_READDIR_DENTS = 0x01"
definition EIO_READDIR_DIRS_FIRST :: int where "EIO_READDIR_DIRS_FIRST = 0x02"
definition EIO_READDIR_STAT_ORDER :: int where "EIO_READDIR_STAT_ORDER = 0x04"
definition EIO_READDIR_FOUND_UNKNOWN :: int where "EIO_READDIR_FOUND_UNKNOWN = 0x80"

definition EIO_DT_UNKNOWN :: "8 word" where "EIO_DT_UNKNOWN = 0"
definition EIO_DT_FIFO :: "8 word" where "EIO_DT_FIFO = 1"
definition EIO_DT_CHR :: "8 word" where "EIO_DT_CHR = 2"
definition EIO_DT_DIR :: "8 word" where "EIO_DT_DIR = 4"
definition EIO_DT_BLK :: "8 word" where "EIO_DT_BLK = 6"
definition EIO_DT_REG :: "8 word" where "EIO_DT_REG = 8"
definition EIO_DT_LNK :: "8 word" where "EIO_DT_LNK = 10"
definition EIO_DT_SOCK :: "8 word" where "EIO_DT_SOCK = 12"
definition EIO_DT_WHT :: "8 word" where "EIO_DT_WHT = 14"

definition ECANCELED :: int where "ECANCELED = 125"
definition ENOMEM :: int where "ENOMEM = 12"

lemmas readdir_flag_defs = EIO_READDIR_DENTS_def EIO_READDIR_DIRS_FIRST_def
  EIO_READDIR_STAT_ORDER_def EIO_READDIR_FOUND_UNKNOWN_def

section \<open>The directory and the allocator\<close>

record sys_dirent =
  d_name :: string
  d_ino :: "64 word"
  d_type :: "8 word"

record scan_env =
  opendir_ok :: bool
  open_errno :: int
  malloc_names :: bool
  malloc_dents :: bool
  realloc_names :: "int \<Rightarrow> bool"
  realloc_dents :: "int \<Rightarrow> bool"

text \<open>\<open>switch (D_TYPE (entp))\<close>: the type codes of \<open>dirent.h\<close> are the \<open>EIO_DT_\<close> codes.\<close>

definition known_types :: "8 word list" where
  "known_types = [EIO_DT_FIFO, EIO_DT_CHR, EIO_DT_DIR, EIO_DT_BLK, EIO_DT_REG, EIO_DT_LNK, EIO_DT_SOCK, EIO_DT_WHT]"

definition dent_type :: "8 word \<Rightarrow> 8 word" where
  "dent_type t = (if t \<in> set known_types then t else EIO_DT_UNKNOWN)"

text \<open>Character \<open>i\<close> of a C string; the character behind the last one is the terminator.\<close>

definition cchar :: "string \<Rightarrow> nat \<Rightarrow> char" where
  "cchar s i = (if i < length s then s ! i else CHR 0x00)"

text \<open>The test that skips \<open>.\<close> and \<open>..\<close>.\<close>

definition keep_name :: "string \<Rightarrow> bool" where
  "keep_name name \<longleftrightarrow>
     cchar name 0 \<noteq> CHR ''.'' \<or>
     (cchar name 1 \<noteq> CHR 0x00 \<and> (cchar name 1 \<noteq> CHR ''.'' \<or> cchar name 2 \<noteq> CHR 0x00))"

text \<open>The score of an entry; \<open>len\<close> counts the terminating zero.\<close>

definition dent_score :: "int \<Rightarrow> 8 word \<Rightarrow> string \<Rightarrow> int \<Rightarrow> int" where
  "dent_score flags ty name len =
     (if flags AND EIO_READDIR_DIRS_FIRST \<noteq> 0 then
        if ty = EIO_DT_UNKNOWN then
          if cchar name 0 = CHR ''.'' then 1
          else if CHR ''.'' \<notin> set name then
            if len \<le> 2 then 4 - len else if len \<le> 4 then 4 else if len \<le> 7 then 5 else 6
          else 7
        else if ty = EIO_DT_DIR then 0 else 7
      else 7)"

section \<open>The scan\<close>

record scan =
  names :: string
  namesalloc :: int
  namesoffs :: int
  dents :: "eio_dirent list option"
  dentalloc :: int
  dentoffs :: int
  scan_flags :: int
  inode_bits :: "64 word"

text \<open>
  \<open>while (namesoffs + len > namesalloc)\<close>: the new allocation and whether \<open>names\<close> is not null.
\<close>

partial_function (option) grow_names :: "(int \<Rightarrow> bool) \<Rightarrow> int \<Rightarrow> int \<Rightarrow> (int \<times> bool) option" where
  "grow_names ok need alloc =
     (if need > alloc then do {
        alloc \<leftarrow> int_chk (alloc * 2);
        if ok alloc then grow_names ok need alloc else Some (alloc, False) }
      else Some (alloc, True))"

declare grow_names.simps [code]

text \<open>The new element of the array; the structure keeps the offset of the name.\<close>

definition new_dent :: "int \<Rightarrow> int \<Rightarrow> sys_dirent \<Rightarrow> eio_dirent" where
  "new_dent flags off e =
     (let ty = dent_type (d_type e)
      in \<lparr>nameofs = word_of_int off, namelen = word_of_nat (length (d_name e)), dtype = ty,
          score = to_schar (dent_score flags ty (d_name e) (int (length (d_name e)) + 1)),
          inode = d_ino e\<rparr>)"

definition mark_unknown :: "sys_dirent \<Rightarrow> int \<Rightarrow> int" where
  "mark_unknown e flags =
     (if d_type e \<in> set known_types then flags else flags OR EIO_READDIR_FOUND_UNKNOWN)"

definition put_dent :: "sys_dirent \<Rightarrow> eio_dirent list \<Rightarrow> scan \<Rightarrow> scan" where
  "put_dent e ds s =
     s\<lparr>dents := Some (take (nat (dentoffs s)) ds @ [new_dent (scan_flags s) (namesoffs s) e]),
       inode_bits := inode_bits s OR d_ino e, scan_flags := mark_unknown e (scan_flags s)\<rparr>"

text \<open>
  Adding the entry to the array, when there is one: \<^term>\<open>Inl\<close> is the \<open>break\<close> after a
  failed \<open>realloc\<close>, which leaves \<open>dents\<close> null.
\<close>

definition add_dent :: "scan_env \<Rightarrow> sys_dirent \<Rightarrow> scan \<Rightarrow> (scan + scan) option" where
  "add_dent env e s =
     (case dents s of
        None \<Rightarrow> Some (Inr s)
      | Some ds \<Rightarrow>
          if dentoffs s = dentalloc s then do {
            n \<leftarrow> int_chk (dentalloc s * 2);
            Some (if realloc_dents env n then Inr (put_dent e ds (s\<lparr>dentalloc := n\<rparr>))
                  else Inl (s\<lparr>dentalloc := n, dents := None\<rparr>)) }
          else Some (Inr (put_dent e ds s)))"

text \<open>
  One entry. When \<open>realloc\<close> fails for the names, the \<open>break\<close> leaves only the inner loop, and the
  \<open>memcpy\<close> writes through the null pointer.
\<close>

definition scan_entry :: "scan_env \<Rightarrow> sys_dirent \<Rightarrow> scan \<Rightarrow> (scan + scan) option" where
  "scan_entry env e s =
     (if keep_name (d_name e) then do {
        need \<leftarrow> int_chk (namesoffs s + (int (length (d_name e)) + 1));
        (alloc, nonnull) \<leftarrow> grow_names (realloc_names env) need (namesalloc s);
        if \<not> nonnull then None
        else do {
          r \<leftarrow> add_dent env e
                 (s\<lparr>namesalloc := alloc,
                    names := take (nat (namesoffs s)) (names s) @ d_name e @ [CHR 0x00]\<rparr>);
          (case r of
             Inl s \<Rightarrow> Some (Inl s)
           | Inr s \<Rightarrow> do {
               n \<leftarrow> int_chk (dentoffs s + 1);
               Some (Inr (s\<lparr>namesoffs := need, dentoffs := n\<rparr>)) }) } }
      else Some (Inr s))"

fun scan_loop ::
  "scan_env \<Rightarrow> (sys_dirent \<times> bool) list \<Rightarrow> scan \<Rightarrow> (int \<times> scan + scan) option" where
  "scan_loop env [] s = Some (Inr s)"
| "scan_loop env ((e, cancelled) # es) s = do {
     r \<leftarrow> scan_entry env e s;
     (case r of
        Inl s \<Rightarrow> Some (Inl (ENOMEM, s))
      | Inr s \<Rightarrow> if cancelled then Some (Inl (ECANCELED, s)) else scan_loop env es s) }"

section \<open>Ordering the entries\<close>

text \<open>\<open>while (oth > dir)\<close>: directories to the front. It is the loop of the bit partition with
  \<open>dir\<close> for \<open>a\<close>, \<open>oth\<close> for \<open>b\<close> and the test for an entry that is no directory.\<close>

definition dirs_partition :: "eio_dirent list \<Rightarrow> eio_dirent list \<times> nat" where
  "dirs_partition ds = radix_part (\<lambda>d. dtype d \<noteq> EIO_DT_DIR) ds 0 (length ds)"

definition scan_order ::
  "endian \<Rightarrow> int \<Rightarrow> 64 word \<Rightarrow> eio_dirent list \<Rightarrow> eio_dirent list option" where
  "scan_order en flags bits ds =
     (if flags AND EIO_READDIR_STAT_ORDER \<noteq> 0 then
        eio_dent_sort en ds (if flags AND EIO_READDIR_DIRS_FIRST \<noteq> 0 then 7 else 0) bits
      else if flags AND EIO_READDIR_DIRS_FIRST \<noteq> 0 then
        if flags AND EIO_READDIR_FOUND_UNKNOWN \<noteq> 0 then eio_dent_sort en ds 7 bits
        else case dirs_partition ds of
          (ds, n) \<Rightarrow> map_option (\<lambda>front. front @ drop n ds) (eio_dent_sort en (take n ds) 0 bits)
      else Some ds)"

section \<open>eio\_\_scandir\<close>

record scan_out =
  out_result :: int
  out_int1 :: int
  out_errno :: int
  out_names :: string
  out_dents :: "eio_dirent list option"

definition scan_flags0 :: "int \<Rightarrow> int" where
  "scan_flags0 flags =
     (if flags AND EIO_READDIR_DENTS = 0
      then flags AND NOT (EIO_READDIR_DIRS_FIRST OR EIO_READDIR_STAT_ORDER) else flags)"

definition scan_init :: "int \<Rightarrow> scan" where
  "scan_init flags =
     \<lparr>names = [], namesalloc = 4096, namesoffs = 0, dents = (if flags \<noteq> 0 then Some [] else None),
      dentalloc = 128, dentoffs = 0, scan_flags = flags, inode_bits = 0\<rparr>"

definition eio_scandir ::
  "endian \<Rightarrow> scan_env \<Rightarrow> (sys_dirent \<times> bool) list \<Rightarrow> int \<Rightarrow> int \<Rightarrow> scan_out option" where
  "eio_scandir en env es end_errno int1 =
     (let flags = scan_flags0 int1;
          failed = (\<lambda>err s. \<lparr>out_result = - 1, out_int1 = int1, out_errno = err,
                             out_names = names s, out_dents = dents s\<rparr>);
          allocated = malloc_names env \<and> (flags = 0 \<or> malloc_dents env)
      in if opendir_ok env \<and> allocated then do {
           r \<leftarrow> scan_loop env es (scan_init flags);
           (case r of
              Inl (err, s) \<Rightarrow> Some (failed err s)
            | Inr s \<Rightarrow>
                if end_errno \<noteq> 0 then Some (failed end_errno s)
                else do {
                  ds \<leftarrow> (case dents s of
                           None \<Rightarrow> Some None
                         | Some ds \<Rightarrow> map_option Some (scan_order en (scan_flags s) (inode_bits s) ds));
                  Some \<lparr>out_result = dentoffs s, out_int1 = scan_flags s, out_errno = 0,
                        out_names = names s, out_dents = ds\<rparr> }) }
         else Some (failed (if allocated then open_errno env else ENOMEM)
                ((scan_init flags)\<lparr>dents := if flags \<noteq> 0 \<and> malloc_dents env then Some [] else None\<rparr>)))"

section \<open>What a scan produces\<close>

text \<open>The kept entries, the name buffer they fill, and their array before ordering.\<close>

definition kept :: "sys_dirent list \<Rightarrow> sys_dirent list" where
  "kept es = filter (\<lambda>e. keep_name (d_name e)) es"

definition name_bytes :: "sys_dirent list \<Rightarrow> string" where
  "name_bytes ks = concat (map (\<lambda>e. d_name e @ [CHR 0x00]) ks)"

fun spec_dents :: "int \<Rightarrow> int \<Rightarrow> sys_dirent list \<Rightarrow> eio_dirent list" where
  "spec_dents flags off [] = []"
| "spec_dents flags off (k # ks) =
     new_dent flags off k # spec_dents flags (off + int (length (d_name k)) + 1) ks"

definition inodes_or :: "sys_dirent list \<Rightarrow> 64 word" where
  "inodes_or ks = foldr (\<lambda>k. (OR) (d_ino k)) ks 0"

definition all_known :: "sys_dirent list \<Rightarrow> bool" where
  "all_known ks \<longleftrightarrow> (\<forall>k \<in> set ks. d_type k \<in> set known_types)"

text \<open>Reading the buffer back, as \<open>readdir_cb\<close> of \<open>src/libeio/demo.c\<close> does.\<close>

fun read_names :: "nat \<Rightarrow> string \<Rightarrow> string list" where
  "read_names 0 buf = []"
| "read_names (Suc n) buf =
     (let name = takeWhile (\<lambda>c. c \<noteq> CHR 0x00) buf
      in name # read_names n (drop (length name + 1) buf))"

end
