(* ===== verification/Scandir_Correct.thy ===== *)
theory Scandir_Correct
  imports Dent_Scandir
begin

text \<open>
  What \<open>eio__scandir\<close> delivers: the invariant of the scanning loop (the name buffer and the
  array hold exactly the entries kept so far, and both stay inside their allocations), the
  orders the flags ask for, and the buffer as the callers read it back.
\<close>

section \<open>Flags\<close>

lemma flag_or_unknown [simp]:
  "(f OR EIO_READDIR_FOUND_UNKNOWN) AND EIO_READDIR_DIRS_FIRST = f AND EIO_READDIR_DIRS_FIRST"
  "(f OR EIO_READDIR_FOUND_UNKNOWN) AND EIO_READDIR_STAT_ORDER = f AND EIO_READDIR_STAT_ORDER"
  "(f OR EIO_READDIR_FOUND_UNKNOWN) AND EIO_READDIR_FOUND_UNKNOWN = EIO_READDIR_FOUND_UNKNOWN"
  "(f OR EIO_READDIR_FOUND_UNKNOWN) OR EIO_READDIR_FOUND_UNKNOWN = f OR EIO_READDIR_FOUND_UNKNOWN"
  by (simp_all add: readdir_flag_defs bit.conj_disj_distrib2 or.assoc)
    (auto intro!: bit_eqI simp: bit_simps)

lemma dent_score_cong:
  "f AND EIO_READDIR_DIRS_FIRST = g AND EIO_READDIR_DIRS_FIRST \<Longrightarrow> dent_score f = dent_score g"
  by (intro ext) (simp add: dent_score_def)

lemma new_dent_unknown [simp]: "new_dent (f OR EIO_READDIR_FOUND_UNKNOWN) = new_dent f"
  by (intro ext) (simp add: new_dent_def dent_score_cong [OF flag_or_unknown(1)])

text \<open>The flags after the entries \<open>ks\<close> have been entered into the array.\<close>

definition flags_after :: "int \<Rightarrow> sys_dirent list \<Rightarrow> int" where
  "flags_after flags ks =
     (if flags \<noteq> 0 \<and> \<not> all_known ks then flags OR EIO_READDIR_FOUND_UNKNOWN else flags)"

lemma new_dent_flags_after [simp]: "new_dent (flags_after flags ks) = new_dent flags"
  by (simp add: flags_after_def)

section \<open>The specification, one entry at a time\<close>

lemma name_bytes_simps [simp]:
  "name_bytes [] = []" "name_bytes (k # ks) = d_name k @ CHR 0x00 # name_bytes ks"
  "name_bytes (ks @ [e]) = name_bytes ks @ d_name e @ [CHR 0x00]"
  by (simp_all add: name_bytes_def)

lemma name_bytes_append: "name_bytes (ks @ ls) = name_bytes ks @ name_bytes ls"
  by (simp add: name_bytes_def)

lemma length_name_bytes: "length ks \<le> length (name_bytes ks)"
  by (induction ks) auto

lemma kept_simps [simp]:
  "kept [] = []" "kept (e # es) = (if keep_name (d_name e) then [e] else []) @ kept es"
  by (simp_all add: kept_def)

lemma spec_dents_snoc:
  "spec_dents flags off (ks @ [e]) =
     spec_dents flags off ks @ [new_dent flags (off + int (length (name_bytes ks))) e]"
  by (induction ks arbitrary: off) (simp_all add: algebra_simps)

lemma length_spec_dents [simp]: "length (spec_dents flags off ks) = length ks"
  by (induction ks arbitrary: off) auto

lemma inodes_or_snoc [simp]: "inodes_or (ks @ [e]) = inodes_or ks OR d_ino e"
  by (induction ks) (simp_all add: inodes_or_def or.assoc)

lemma inodes_or_Cons: "inodes_or (k # ks) = d_ino k OR inodes_or ks"
  by (simp add: inodes_or_def)

lemma all_known_snoc [simp]:
  "all_known (ks @ [e]) \<longleftrightarrow> all_known ks \<and> d_type e \<in> set known_types"
  by (auto simp: all_known_def)

lemma flags_after_snoc:
  "flags \<noteq> 0 \<Longrightarrow> mark_unknown e (flags_after flags ks) = flags_after flags (ks @ [e])"
  by (auto simp: mark_unknown_def flags_after_def)

section \<open>Growing the name buffer\<close>

lemma grow_names_ok:
  assumes "need \<le> 2 ^ 30" and "\<And>n. ok n" and "0 < alloc"
  shows "\<exists>a. grow_names ok need alloc = Some (a, True) \<and> need \<le> a \<and> alloc \<le> a"
  using assms(3)
proof (induction "nat (need - alloc)" arbitrary: alloc rule: less_induct)
  case less
  show ?case
  proof (cases "need > alloc")
    case False
    then show ?thesis by (simp add: grow_names.simps)
  next
    case True
    then have "int_chk (alloc * 2) = Some (alloc * 2)"
      using assms(1) less.prems by (simp add: int_chk_def INT_MAX_def INT_MIN_def)
    moreover from less.hyps [of "alloc * 2"] less.prems True obtain a where
      "grow_names ok need (alloc * 2) = Some (a, True)" "need \<le> a" "alloc * 2 \<le> a" by auto
    ultimately show ?thesis
      using True less.prems assms(2) by (subst grow_names.simps) auto
  qed
qed

lemma grow_names_fit:
  assumes "grow_names ok need alloc = Some (a, b)" and "0 < alloc"
  shows "b \<longrightarrow> need \<le> a" and "alloc \<le> a"
proof -
  have "0 < alloc \<longrightarrow> (snd (a, b) \<longrightarrow> need \<le> fst (a, b)) \<and> alloc \<le> fst (a, b)"
  proof (rule grow_names.raw_induct [OF _ assms(1)], goal_cases)
    case (1 grow ok need alloc r)
    from 1(2) show ?case
      by (auto split: if_splits bind_splits dest!: 1(1))
  qed
  with assms(2) have "(b \<longrightarrow> need \<le> a) \<and> alloc \<le> a" by simp
  then show "b \<longrightarrow> need \<le> a" "alloc \<le> a" by simp_all
qed

section \<open>The invariant of the loop\<close>

text \<open>
  After the kept entries \<open>ks\<close>: what the buffers hold, and that both fit their allocations, so
  the next \<open>memcpy\<close> and the next array element are written inside them.
\<close>

definition scan_inv :: "int \<Rightarrow> sys_dirent list \<Rightarrow> scan \<Rightarrow> bool" where
  "scan_inv flags ks s \<longleftrightarrow>
     names s = name_bytes ks \<and> namesoffs s = int (length (name_bytes ks)) \<and>
     namesoffs s \<le> namesalloc s \<and> 4096 \<le> namesalloc s \<and>
     dentoffs s = int (length ks) \<and>
     (flags \<noteq> 0 \<longrightarrow> dentoffs s \<le> dentalloc s \<and> 128 \<le> dentalloc s) \<and>
     dents s = (if flags \<noteq> 0 then Some (spec_dents flags 0 ks) else None) \<and>
     scan_flags s = flags_after flags ks \<and>
     inode_bits s = (if flags \<noteq> 0 then inodes_or ks else 0)"

definition allocs_ok :: "scan_env \<Rightarrow> bool" where
  "allocs_ok env \<longleftrightarrow>
     malloc_names env \<and> malloc_dents env \<and> realloc_names env = (\<lambda>_. True) \<and>
     realloc_dents env = (\<lambda>_. True)"

lemma scan_inv_init: "scan_inv flags [] (scan_init flags)"
  by (simp add: scan_inv_def scan_init_def flags_after_def all_known_def inodes_or_def)

lemma put_dent_inv:
  assumes "dents s = Some (spec_dents flags 0 ks)" and "flags \<noteq> 0"
    and "dentoffs s = int (length ks)" and "namesoffs s = int (length (name_bytes ks))"
    and "scan_flags s = flags_after flags ks" and "inode_bits s = inodes_or ks"
  shows "put_dent e (spec_dents flags 0 ks) s =
    s\<lparr>dents := Some (spec_dents flags 0 (ks @ [e])), inode_bits := inodes_or (ks @ [e]),
      scan_flags := flags_after flags (ks @ [e])\<rparr>"
  using assms by (simp add: put_dent_def spec_dents_snoc flags_after_snoc)

lemma scan_entry_skip: "\<not> keep_name (d_name e) \<Longrightarrow> scan_entry env e s = Some (Inr s)"
  by (simp add: scan_entry_def)

lemma scan_entry_inv:
  assumes inv: "scan_inv flags ks s" and step: "scan_entry env e s = Some (Inr s')"
  shows "scan_inv flags (ks @ kept [e]) s'"
proof (cases "keep_name (d_name e)")
  case False
  with assms show ?thesis by (simp add: scan_entry_skip)
next
  case True
  let ?need = "namesoffs s + (int (length (d_name e)) + 1)"
  from step True obtain alloc t where
    grow: "grow_names (realloc_names env) ?need (namesalloc s) = Some (alloc, True)" and
    add: "add_dent env e (s\<lparr>namesalloc := alloc,
      names := take (nat (namesoffs s)) (names s) @ d_name e @ [CHR 0x00]\<rparr>) = Some (Inr t)" and
    s': "s' = t\<lparr>namesoffs := ?need, dentoffs := dentoffs t + 1\<rparr>"
    by (auto simp: scan_entry_def split: bind_splits if_splits sum.splits)
  have alloc: "?need \<le> alloc" "4096 \<le> alloc"
    using grow_names_fit [OF grow] inv by (auto simp: scan_inv_def)
  show ?thesis
  proof (cases "flags = 0")
    case True
    with inv add have "t = s\<lparr>namesalloc := alloc, names := name_bytes (ks @ [e])\<rparr>"
      by (simp add: add_dent_def scan_inv_def)
    with True \<open>keep_name (d_name e)\<close> inv alloc s' show ?thesis
      by (simp add: scan_inv_def flags_after_def)
  next
    case False
    let ?s = "s\<lparr>namesalloc := alloc, names := name_bytes (ks @ [e])\<rparr>"
    from False inv add obtain n where
      t: "t = put_dent e (spec_dents flags 0 ks) (?s\<lparr>dentalloc := n\<rparr>)"
        "dentoffs s + 1 \<le> n" "128 \<le> n"
      by (auto simp: add_dent_def scan_inv_def split: if_splits bind_splits
          intro: that [of "dentalloc s"])
    have t': "t = ?s\<lparr>dentalloc := n, dents := Some (spec_dents flags 0 (ks @ [e])),
        inode_bits := inodes_or (ks @ [e]), scan_flags := flags_after flags (ks @ [e])\<rparr>"
      unfolding t(1) by (subst put_dent_inv) (use False inv in \<open>auto simp: scan_inv_def\<close>)
    with False \<open>keep_name (d_name e)\<close> inv alloc s' t(2,3) show ?thesis
      unfolding t' by (simp add: scan_inv_def)
  qed
qed

text \<open>With the allocations granted and the name buffer at most \<open>2^30\<close> bytes, no entry fails.\<close>

lemma scan_entry_total:
  assumes inv: "scan_inv flags ks s" and ok: "allocs_ok env"
    and size: "length (name_bytes (ks @ kept [e])) \<le> 2 ^ 30"
  shows "\<exists>s'. scan_entry env e s = Some (Inr s')"
proof (cases "keep_name (d_name e)")
  case False
  then show ?thesis by (simp add: scan_entry_skip)
next
  case True
  let ?need = "namesoffs s + (int (length (d_name e)) + 1)"
  have need: "?need \<le> 2 ^ 30" "0 \<le> ?need"
    using size True inv by (simp_all add: scan_inv_def)
  have "0 < namesalloc s" using inv by (simp add: scan_inv_def)
  from grow_names_ok [OF need(1) _ this, of "realloc_names env"] ok obtain a where
    grow: "grow_names (realloc_names env) ?need (namesalloc s) = Some (a, True)"
    by (auto simp: allocs_ok_def)
  have offs: "0 \<le> dentoffs s" "dentoffs s < 2 ^ 30"
    using size True inv length_name_bytes [of ks] by (auto simp: scan_inv_def)
  then have chk: "int_chk (dentoffs s * 2) = Some (dentoffs s * 2)"
    "int_chk (dentoffs s + 1) = Some (dentoffs s + 1)"
    by (simp_all add: int_chk_def INT_MAX_def INT_MIN_def)
  have "\<exists>t. add_dent env e (s\<lparr>namesalloc := a, names := nm\<rparr>) = Some (Inr t) \<and>
    dentoffs t = dentoffs s" for nm
    using ok chk by (auto simp: add_dent_def allocs_ok_def put_dent_def split: option.splits
        simp del: int_chk_Some)
  then obtain t where "add_dent env e (s\<lparr>namesalloc := a,
      names := take (nat (namesoffs s)) (names s) @ d_name e @ [CHR 0x00]\<rparr>) = Some (Inr t)"
    "dentoffs t = dentoffs s" by blast
  moreover have "int_chk ?need = Some ?need"
    using need by (simp add: int_chk_def INT_MAX_def INT_MIN_def)
  ultimately show ?thesis
    using True grow chk(2) by (simp add: scan_entry_def Let_def del: int_chk_Some)
qed

lemma scan_loop_total:
  assumes "scan_inv flags ks s" and "allocs_ok env"
    and "length (name_bytes (ks @ kept (map fst es))) \<le> 2 ^ 30" and "\<forall>e \<in> set es. \<not> snd e"
  shows "\<exists>s'. scan_loop env es s = Some (Inr s') \<and> scan_inv flags (ks @ kept (map fst es)) s'"
  using assms
proof (induction es arbitrary: ks s)
  case Nil
  then show ?case by simp
next
  case (Cons x es)
  obtain e c where x: "x = (e, c)" by (cases x)
  have "length (name_bytes (ks @ kept [e])) \<le> 2 ^ 30"
    using Cons.prems(3) x by (auto simp: name_bytes_append split: if_splits)
  from scan_entry_total [OF Cons.prems(1,2) this] obtain t where
    t: "scan_entry env e s = Some (Inr t)" by blast
  from Cons.IH [OF scan_entry_inv [OF Cons.prems(1) t] Cons.prems(2)] Cons.prems(3,4) t x
  show ?case by auto
qed

text \<open>The cancel flag is read after each entry, kept or not.\<close>

lemma scan_loop_cancel:
  assumes "scan_inv flags ks s" and "allocs_ok env"
    and "length (name_bytes (ks @ kept (map fst es) @ kept [e])) \<le> 2 ^ 30"
    and "\<forall>e \<in> set es. \<not> snd e"
  shows "\<exists>s'. scan_loop env (es @ (e, True) # fs) s = Some (Inl (ECANCELED, s')) \<and>
    scan_inv flags (ks @ kept (map fst es) @ kept [e]) s'"
  using assms
proof (induction es arbitrary: ks s)
  case Nil
  then show ?case
    using scan_entry_total [OF Nil(1,2), of e] scan_entry_inv [OF Nil(1), of env e] by auto
next
  case (Cons x es)
  obtain e' c where x: "x = (e', c)" by (cases x)
  have "length (name_bytes (ks @ kept [e'])) \<le> 2 ^ 30"
    using Cons.prems(3) x by (auto simp: name_bytes_append split: if_splits)
  from scan_entry_total [OF Cons.prems(1,2) this] obtain t where
    t: "scan_entry env e' s = Some (Inr t)" by blast
  from Cons.IH [OF scan_entry_inv [OF Cons.prems(1) t] Cons.prems(2)] Cons.prems(3,4) t x
  show ?case by auto
qed

text \<open>Whatever the allocator does, a scan that goes on keeps its writes inside the buffers.\<close>

lemma scan_loop_inv:
  assumes "scan_inv flags ks s" and "scan_loop env es s = Some (Inr s')"
  shows "scan_inv flags (ks @ kept (map fst es)) s' \<and> (\<forall>e \<in> set es. \<not> snd e)"
  using assms
proof (induction es arbitrary: ks s)
  case Nil
  then show ?case by simp
next
  case (Cons x es)
  obtain e c where x: "x = (e, c)" by (cases x)
  from Cons.prems(2) x obtain t where t: "scan_entry env e s = Some (Inr t)" "\<not> c"
    "scan_loop env es t = Some (Inr s')" by (auto split: bind_splits sum.splits if_splits)
  from Cons.IH [OF scan_entry_inv [OF Cons.prems(1) t(1)] t(3)] x t(2) show ?case by auto
qed

section \<open>Reading the buffer back\<close>

lemma takeWhile_name:
  "CHR 0x00 \<notin> set nm \<Longrightarrow> takeWhile (\<lambda>c. c \<noteq> CHR 0x00) (nm @ CHR 0x00 # xs) = nm"
  by (induction nm) auto

lemma read_names_bytes:
  "\<forall>k \<in> set ks. CHR 0x00 \<notin> set (d_name k) \<Longrightarrow>
    read_names (length ks) (name_bytes ks @ rest) = map d_name ks"
  by (induction ks) (simp_all add: takeWhile_name Let_def)

text \<open>An entry of the array locates its name in the buffer.\<close>

definition dent_name :: "string \<Rightarrow> eio_dirent \<Rightarrow> string" where
  "dent_name buf d = take (unat (namelen d)) (drop (unat (nameofs d)) buf)"

lemma spec_dents_names:
  assumes "off + length (name_bytes ks) < 2 ^ 32" and "length pre = off"
    and "\<forall>k \<in> set ks. length (d_name k) < 2 ^ 16"
  shows "map (dent_name (pre @ name_bytes ks @ rest)) (spec_dents flags (int off) ks) =
    map d_name ks"
  using assms
proof (induction ks arbitrary: off pre)
  case Nil
  then show ?case by simp
next
  case (Cons k ks)
  have "unat (word_of_nat (length (d_name k)) :: 16 word) = length (d_name k)"
    "unat (word_of_nat off :: 32 word) = off"
    using Cons.prems by (simp_all add: unat_of_nat)
  then have "dent_name (pre @ name_bytes (k # ks) @ rest) (new_dent flags (int off) k) = d_name k"
    using Cons.prems by (simp add: dent_name_def new_dent_def Let_def)
  moreover have "map (dent_name ((pre @ d_name k @ [CHR 0x00]) @ name_bytes ks @ rest))
      (spec_dents flags (int (off + length (d_name k) + 1)) ks) = map d_name ks"
    using Cons.prems by (intro Cons.IH) auto
  ultimately show ?case by (simp add: ac_simps)
qed

section \<open>The orders\<close>

lemma dent_score_range: "1 \<le> len \<Longrightarrow> 0 \<le> dent_score flags ty nm len \<and> dent_score flags ty nm len \<le> 7"
  by (simp add: dent_score_def)

lemma in_spec_dents:
  assumes "d \<in> set (spec_dents flags off ks)"
  shows "\<exists>off' k. k \<in> set ks \<and> d = new_dent flags off' k"
  using assms by (induction ks arbitrary: off) (simp, fastforce)

lemma new_dent_score_ok: "score_ok (new_dent flags off k)"
  using dent_score_range [of "int (length (d_name k)) + 1" flags "dent_type (d_type k)" "d_name k"]
  by (simp add: score_ok_def new_dent_def Let_def sint_to_schar)

lemma score_byte: "0 \<le> i \<Longrightarrow> i \<le> 7 \<Longrightarrow> to_schar i AND NOT 7 = 0"
proof -
  assume "0 \<le> i" "i \<le> 7"
  then have "i \<in> {0, 1, 2, 3, 4, 5, 6, 7}" by auto
  then show ?thesis by (auto simp: to_schar_def)
qed

lemma inodes_or_member: "k \<in> set ks \<Longrightarrow> d_ino k AND NOT (inodes_or ks) = 0"
  by (induction ks)
    (auto simp: inodes_or_Cons bit_eq_iff bit_and_iff bit_or_iff bit_not_iff)

lemma dent_ok_scored:
  assumes "k \<in> set ks"
  shows "dent_ok 0 7 (inodes_or ks) (new_dent flags off k)"
proof -
  have "to_schar (dent_score flags (dent_type (d_type k)) (d_name k)
      (int (length (d_name k)) + 1)) AND NOT 7 = 0"
    by (rule score_byte) (simp_all add: dent_score_range)
  then show ?thesis
    using inodes_or_member [OF assms] by (simp add: dent_ok_def new_dent_def Let_def)
qed

lemma dent_ok_unscored:
  assumes "k \<in> set ks" and "flags AND EIO_READDIR_DIRS_FIRST = 0"
  shows "dent_ok 7 0 (inodes_or ks) (new_dent flags off k)"
  using inodes_or_member [OF assms(1)] assms(2)
  by (simp add: dent_ok_def new_dent_def Let_def dent_score_def to_schar_def)

lemma dent_ok_dir:
  assumes "k \<in> set ks" and "flags AND EIO_READDIR_DIRS_FIRST \<noteq> 0"
    and "dtype (new_dent flags off k) = EIO_DT_DIR"
  shows "dent_ok 0 0 (inodes_or ks) (new_dent flags off k)"
  using inodes_or_member [OF assms(1)] assms(2,3)
  by (simp add: dent_ok_def new_dent_def Let_def dent_score_def to_schar_def EIO_DT_DIR_def
      EIO_DT_UNKNOWN_def)

lemma dirs_partition_spec:
  assumes "dirs_partition ds = (es, n)"
  shows "n \<le> length es \<and> mset es = mset ds \<and> (\<forall>d \<in> set (take n es). dtype d = EIO_DT_DIR) \<and>
    (\<forall>d \<in> set (drop n es). dtype d \<noteq> EIO_DT_DIR)"
  using radix_part_spec [OF _ _ assms [unfolded dirs_partition_def]]
  by (auto simp: perm_in_def in_set_conv_nth)

text \<open>The order promised by the flags, on the array \<open>es\<close> that replaces \<open>ds\<close>.\<close>

definition ordered :: "int \<Rightarrow> eio_dirent list \<Rightarrow> eio_dirent list \<Rightarrow> bool" where
  "ordered flags ds es \<longleftrightarrow>
     mset es = mset ds \<and>
     (if flags AND EIO_READDIR_STAT_ORDER \<noteq> 0 \<or>
         flags AND EIO_READDIR_DIRS_FIRST \<noteq> 0 \<and> flags AND EIO_READDIR_FOUND_UNKNOWN \<noteq> 0
      then sorted (map dent_key es)
      else if flags AND EIO_READDIR_DIRS_FIRST \<noteq> 0
      then (let dirs = takeWhile (\<lambda>d. dtype d = EIO_DT_DIR) es
            in sorted (map dent_key dirs) \<and>
               (\<forall>d \<in> set (drop (length dirs) es). dtype d \<noteq> EIO_DT_DIR))
      else es = ds)"

lemma takeWhile_front:
  "\<forall>x \<in> set xs. P x \<Longrightarrow> \<forall>y \<in> set ys. \<not> P y \<Longrightarrow> takeWhile P (xs @ ys) = xs"
  by (cases ys) auto

lemma scan_order_correct:
  assumes flags: "f AND EIO_READDIR_DIRS_FIRST = flags AND EIO_READDIR_DIRS_FIRST"
    and bits: "EIO_SORT_FAST < length ks \<Longrightarrow> inodes_or ks \<noteq> 0"
  shows "\<exists>es. scan_order en f (inodes_or ks) (spec_dents flags 0 ks) = Some es \<and>
    ordered f (spec_dents flags 0 ks) es"
proof -
  let ?ds = "spec_dents flags 0 ks" and ?b = "inodes_or ks"
  have ok: "score_ok d" "dent_ok 0 7 ?b d" "flags AND EIO_READDIR_DIRS_FIRST = 0 \<Longrightarrow> dent_ok 7 0 ?b d"
    "flags AND EIO_READDIR_DIRS_FIRST \<noteq> 0 \<Longrightarrow> dtype d = EIO_DT_DIR \<Longrightarrow> dent_ok 0 0 ?b d"
    if "d \<in> set ?ds" for d
    using in_spec_dents [OF that] new_dent_score_ok dent_ok_scored dent_ok_unscored dent_ok_dir
    by blast+
  have scored: "\<exists>es. eio_dent_sort en ?ds 7 ?b = Some es \<and> mset es = mset ?ds \<and>
      sorted (map dent_key es)"
    using ok by (intro dent_sort_correct [where ?s0.0 = 0]) auto
  consider
      "f AND EIO_READDIR_STAT_ORDER \<noteq> 0" "f AND EIO_READDIR_DIRS_FIRST = 0"
    | "f AND EIO_READDIR_DIRS_FIRST \<noteq> 0"
      "f AND EIO_READDIR_STAT_ORDER \<noteq> 0 \<or> f AND EIO_READDIR_FOUND_UNKNOWN \<noteq> 0"
    | "f AND EIO_READDIR_STAT_ORDER = 0" "f AND EIO_READDIR_DIRS_FIRST \<noteq> 0"
      "f AND EIO_READDIR_FOUND_UNKNOWN = 0"
    | "f AND EIO_READDIR_STAT_ORDER = 0" "f AND EIO_READDIR_DIRS_FIRST = 0" by blast
  then show ?thesis
  proof cases
    case 1
    have "\<exists>es. eio_dent_sort en ?ds 0 ?b = Some es \<and> mset es = mset ?ds \<and> sorted (map dent_key es)"
      using ok bits 1 flags by (intro dent_sort_correct [where ?s0.0 = 7]) auto
    with 1 show ?thesis by (simp add: scan_order_def ordered_def)
  next
    case 2
    with scored show ?thesis by (auto simp: scan_order_def ordered_def)
  next
    case 3
    obtain es n where part: "dirs_partition ?ds = (es, n)" by force
    note es = dirs_partition_spec [OF part]
    then have sub: "set (take n es) \<subseteq> set ?ds" "length es = length ks"
      using set_take_subset [of n es] mset_eq_setD [of es ?ds] mset_eq_length [of es ?ds] by auto
    have "\<exists>fs. eio_dent_sort en (take n es) 0 ?b = Some fs \<and> mset fs = mset (take n es) \<and>
        sorted (map dent_key fs)"
      using ok es 3 flags sub bits by (intro dent_sort_correct [where ?s0.0 = 0]) auto
    then obtain fs where fs: "eio_dent_sort en (take n es) 0 ?b = Some fs"
      "mset fs = mset (take n es)" "sorted (map dent_key fs)" by blast
    have "takeWhile (\<lambda>d. dtype d = EIO_DT_DIR) (fs @ drop n es) = fs"
      using es mset_eq_setD [OF fs(2)] by (intro takeWhile_front) auto
    moreover have "mset (fs @ drop n es) = mset ?ds"
      using es fs(2) by (metis append_take_drop_id mset_append)
    ultimately have "ordered f ?ds (fs @ drop n es)"
      using 3 es fs(3) by (simp add: ordered_def)
    with 3 part fs(1) show ?thesis by (simp add: scan_order_def)
  next
    case 4
    then show ?thesis by (simp add: scan_order_def ordered_def)
  qed
qed

section \<open>The whole request\<close>

text \<open>The case all goes well in: the directory opens, memory is granted, nothing cancels.\<close>

definition scan_granted :: "scan_env \<Rightarrow> (sys_dirent \<times> bool) list \<Rightarrow> bool" where
  "scan_granted env es \<longleftrightarrow>
     opendir_ok env \<and> allocs_ok env \<and> (\<forall>e \<in> set es. \<not> snd e) \<and>
     length (name_bytes (kept (map fst es))) \<le> 2 ^ 30"

definition inodes_known :: "sys_dirent list \<Rightarrow> bool" where
  "inodes_known ks \<longleftrightarrow> EIO_SORT_FAST < length ks \<longrightarrow> inodes_or ks \<noteq> 0"

lemma flags_after_dirs_first:
  "flags_after flags ks AND EIO_READDIR_DIRS_FIRST = flags AND EIO_READDIR_DIRS_FIRST"
  by (simp add: flags_after_def)

lemma scandir_success:
  assumes granted: "scan_granted env es" and inodes: "inodes_known (kept (map fst es))"
  shows "\<exists>ds. eio_scandir en env es 0 int1 = Some
    \<lparr>out_result = int (length (kept (map fst es))),
     out_int1 = flags_after (scan_flags0 int1) (kept (map fst es)), out_errno = 0,
     out_names = name_bytes (kept (map fst es)), out_dents = ds\<rparr> \<and>
    (if scan_flags0 int1 = 0 then ds = None
     else \<exists>fs. ds = Some fs \<and> ordered (flags_after (scan_flags0 int1) (kept (map fst es)))
       (spec_dents (scan_flags0 int1) 0 (kept (map fst es))) fs)"
proof -
  let ?f = "scan_flags0 int1" and ?ks = "kept (map fst es)"
  have "\<exists>s'. scan_loop env es (scan_init ?f) = Some (Inr s') \<and> scan_inv ?f ([] @ ?ks) s'"
    using granted by (intro scan_loop_total) (simp_all add: scan_inv_init scan_granted_def)
  then obtain s' where s': "scan_loop env es (scan_init ?f) = Some (Inr s')" "scan_inv ?f ?ks s'"
    by auto
  obtain fs where fs: "scan_order en (flags_after ?f ?ks) (inodes_or ?ks) (spec_dents ?f 0 ?ks) = Some fs"
    "ordered (flags_after ?f ?ks) (spec_dents ?f 0 ?ks) fs"
    using scan_order_correct [OF flags_after_dirs_first] inodes unfolding inodes_known_def by blast
  show ?thesis
  proof (cases "?f = 0")
    case True
    with granted s' show ?thesis
      by (simp add: eio_scandir_def Let_def scan_granted_def allocs_ok_def scan_inv_def)
  next
    case False
    with granted s' fs show ?thesis
      by (simp add: eio_scandir_def Let_def scan_granted_def allocs_ok_def scan_inv_def)
  qed
qed

text \<open>Directory entries have names without a zero character, of less than \<open>2^16\<close> characters.\<close>

definition names_valid :: "sys_dirent list \<Rightarrow> bool" where
  "names_valid es \<longleftrightarrow> (\<forall>e \<in> set es. CHR 0x00 \<notin> set (d_name e) \<and> length (d_name e) < 2 ^ 16)"

lemma keep_name_iff:
  "CHR 0x00 \<notin> set nm \<Longrightarrow> keep_name nm \<longleftrightarrow> nm \<noteq> ''.'' \<and> nm \<noteq> ''..''"
proof (cases nm rule: remdups_adj.cases)
  case (3 a b xs)
  then show "CHR 0x00 \<notin> set nm \<Longrightarrow> ?thesis"
    by (cases xs) (auto simp: keep_name_def cchar_def)
qed (simp_all add: keep_name_def cchar_def)

lemma kept_names:
  "names_valid es \<Longrightarrow>
    map d_name (kept es) = filter (\<lambda>nm. nm \<noteq> ''.'' \<and> nm \<noteq> ''..'') (map d_name es)"
  by (induction es) (simp_all add: names_valid_def keep_name_iff)

lemma names_valid_kept: "names_valid es \<Longrightarrow> names_valid (kept es)"
  by (auto simp: names_valid_def kept_def)

lemma ordered_mset: "ordered f ds es \<Longrightarrow> mset es = mset ds"
  by (simp add: ordered_def)

lemma map_pair:
  assumes "map f xs = map f' ys" and "map g xs = map g' ys"
  shows "map (\<lambda>x. (f x, g x)) xs = map (\<lambda>y. (f' y, g' y)) ys"
proof -
  have "length xs = length ys" using assms(1) by (rule map_eq_imp_length_eq)
  then show ?thesis using assms by (induction xs ys rule: list_induct2) auto
qed

text \<open>A request that fails: \<open>result\<close> is -1, \<open>int1\<close> is untouched and \<open>errno\<close> says why.\<close>

definition scan_failed :: "int \<Rightarrow> int \<Rightarrow> scan_out \<Rightarrow> bool" where
  "scan_failed int1 err out \<longleftrightarrow> out_result out = - 1 \<and> out_int1 out = int1 \<and> out_errno out = err"

lemma scandir_unfold:
  assumes "opendir_ok env" and "malloc_names env" and "malloc_dents env"
  shows "eio_scandir en env es err int1 = do {
    r \<leftarrow> scan_loop env es (scan_init (scan_flags0 int1));
    (case r of
       Inl (e, s) \<Rightarrow> Some \<lparr>out_result = - 1, out_int1 = int1, out_errno = e, out_names = names s,
         out_dents = dents s\<rparr>
     | Inr s \<Rightarrow>
         if err \<noteq> 0 then Some \<lparr>out_result = - 1, out_int1 = int1, out_errno = err,
           out_names = names s, out_dents = dents s\<rparr>
         else do {
           ds \<leftarrow> (case dents s of None \<Rightarrow> Some None
                  | Some ds \<Rightarrow> map_option Some (scan_order en (scan_flags s) (inode_bits s) ds));
           Some \<lparr>out_result = dentoffs s, out_int1 = scan_flags s, out_errno = 0,
             out_names = names s, out_dents = ds\<rparr> }) }"
  using assms by (simp add: eio_scandir_def Let_def)

lemma scan_loop_Inl:
  "scan_loop env es s = Some (Inl (err, s')) \<Longrightarrow> err = ENOMEM \<or> err = ECANCELED"
proof (induction es arbitrary: s)
  case (Cons x es)
  then show ?case by (cases x) (auto split: bind_splits sum.splits if_splits)
qed simp

text \<open>Without a larger name buffer the first entry that needs one ends the program.\<close>

lemma scan_entry_no_growth:
  assumes "realloc_names env = (\<lambda>_. False)" and "realloc_dents env = (\<lambda>_. True)"
    and "scan_entry env e s = Some r"
  shows "\<exists>t. r = Inr t \<and> namesalloc t = namesalloc s"
proof (cases "keep_name (d_name e)")
  case True
  have "a = alloc" if "grow_names (\<lambda>_. False) need alloc = Some (a, True)" for need alloc a
    using that by (subst (asm) grow_names.simps) (auto split: if_splits bind_splits)
  with assms True show ?thesis
    by (auto simp: scan_entry_def add_dent_def put_dent_def split: bind_splits if_splits option.splits)
qed (use assms in \<open>auto simp: scan_entry_skip\<close>)

lemma scan_loop_no_growth:
  assumes "scan_inv flags ks s" and "namesalloc s = 4096" and "realloc_names env = (\<lambda>_. False)"
    and "realloc_dents env = (\<lambda>_. True)" and "\<forall>e \<in> set es. \<not> snd e"
    and "4096 < length (name_bytes (ks @ kept (map fst es)))"
  shows "scan_loop env es s = None"
  using assms
proof (induction es arbitrary: ks s)
  case Nil
  then show ?case by (simp add: scan_inv_def)
next
  case (Cons x es)
  obtain e where x: "x = (e, False)" using Cons.prems(5) by (cases x) auto
  show ?case
  proof (cases "scan_entry env e s")
    case None
    with x show ?thesis by simp
  next
    case (Some r)
    from scan_entry_no_growth [OF Cons.prems(3,4) Some] obtain t where
      t: "r = Inr t" "namesalloc t = namesalloc s" by blast
    with Some have inv: "scan_inv flags (ks @ kept [e]) t"
      using scan_entry_inv [OF Cons.prems(1)] by simp
    have "scan_loop env es t = None"
      by (rule Cons.IH [OF inv]) (use Cons.prems x t in simp_all)
    with x t Some show ?thesis by simp
  qed
qed

section \<open>Properties\<close>

text \<open>C14: reading the result buffer back as the callers do yields the names of the directory in
  the order \<open>readdir\<close> returned them, without \<open>.\<close> and \<open>..\<close>, and the result is their number.\<close>

theorem scandir_names:
  assumes granted: "scan_granted env es" and inodes: "inodes_known (kept (map fst es))"
    and valid: "names_valid (map fst es)"
  shows "\<exists>out. eio_scandir en env es 0 int1 = Some out \<and>
    out_result out = int (length (kept (map fst es))) \<and>
    read_names (nat (out_result out)) (out_names out) =
      filter (\<lambda>nm. nm \<noteq> ''.'' \<and> nm \<noteq> ''..'') (map (\<lambda>e. d_name (fst e)) es)"
proof -
  let ?ks = "kept (map fst es)"
  have "read_names (length ?ks) (name_bytes ?ks @ []) = map d_name ?ks"
    using names_valid_kept [OF valid] by (intro read_names_bytes) (simp add: names_valid_def)
  then show ?thesis
    using scandir_success [OF granted inodes, of en int1] kept_names [OF valid]
    by (auto simp: comp_def)
qed

text \<open>C18: with a flag set the array of the result is a permutation of the entries in the order
  the flags ask for, and no order leaves the array or the bit stack.\<close>

theorem scandir_order:
  assumes granted: "scan_granted env es" and inodes: "inodes_known (kept (map fst es))"
    and flags: "scan_flags0 int1 \<noteq> 0"
  shows "\<exists>out fs. eio_scandir en env es 0 int1 = Some out \<and> out_dents out = Some fs \<and>
    ordered (out_int1 out) (spec_dents (scan_flags0 int1) 0 (kept (map fst es))) fs"
  using scandir_success [OF granted inodes, of en int1] flags by auto

text \<open>Each element of the array locates its name in the buffer, whatever the order.\<close>

theorem scandir_locates:
  assumes granted: "scan_granted env es" and inodes: "inodes_known (kept (map fst es))"
    and valid: "names_valid (map fst es)" and flags: "scan_flags0 int1 \<noteq> 0"
  shows "\<exists>out fs. eio_scandir en env es 0 int1 = Some out \<and> out_dents out = Some fs \<and>
    image_mset (\<lambda>d. (dent_name (out_names out) d, inode d)) (mset fs) =
    image_mset (\<lambda>e. (d_name e, d_ino e)) (mset (kept (map fst es)))"
proof -
  let ?f = "scan_flags0 int1" and ?ks = "kept (map fst es)"
  from scandir_success [OF granted inodes, of en int1] flags obtain out fs where
    out: "eio_scandir en env es 0 int1 = Some out" "out_dents out = Some fs"
      "out_names out = name_bytes ?ks" "mset fs = mset (spec_dents ?f 0 ?ks)"
    by (auto dest: ordered_mset)
  have "map (dent_name (name_bytes ?ks)) (spec_dents ?f 0 ?ks) = map d_name ?ks"
    using spec_dents_names [of 0 ?ks "[]" "[]" ?f] granted names_valid_kept [OF valid]
    by (simp add: scan_granted_def names_valid_def)
  moreover have "map inode (spec_dents ?f off ks) = map d_ino ks" for off ks
    by (induction ks arbitrary: off) (simp_all add: new_dent_def Let_def)
  ultimately have "map (\<lambda>d. (dent_name (name_bytes ?ks) d, inode d)) (spec_dents ?f 0 ?ks) =
      map (\<lambda>e. (d_name e, d_ino e)) ?ks"
    by (intro map_pair)
  from arg_cong [OF this, of mset] out show ?thesis by simp
qed

text \<open>C19: whatever \<open>readdir\<close>, the allocator and the cancel flag do, a request that returns
  either carries the whole directory or has result -1, its \<open>int1\<close> untouched and an \<open>errno\<close> that
  names the cause.\<close>

theorem scandir_all_or_nothing:
  assumes out: "eio_scandir en env es err int1 = Some out"
  shows "scan_failed int1 (out_errno out) out \<and>
      out_errno out \<in> {ENOMEM, ECANCELED, err, open_errno env} \<or>
    out_errno out = 0 \<and> (\<forall>e \<in> set es. \<not> snd e) \<and>
      out_result out = int (length (kept (map fst es))) \<and>
      out_names out = name_bytes (kept (map fst es))"
proof (cases "opendir_ok env \<and> malloc_names env \<and> (scan_flags0 int1 = 0 \<or> malloc_dents env)")
  case False
  with out show ?thesis by (auto simp: eio_scandir_def Let_def scan_failed_def split: if_splits)
next
  case True
  with out obtain r where r: "scan_loop env es (scan_init (scan_flags0 int1)) = Some r"
    by (auto simp: eio_scandir_def Let_def split: bind_splits)
  show ?thesis
  proof (cases r)
    case (Inl p)
    obtain e s where p: "p = (e, s)" by (cases p)
    with r Inl scan_loop_Inl [of env es _ e s] have "e = ENOMEM \<or> e = ECANCELED" by simp
    with r Inl p True out show ?thesis
      by (auto simp: eio_scandir_def Let_def scan_failed_def)
  next
    case (Inr s)
    from scan_loop_inv [OF scan_inv_init] r Inr
    have "scan_inv (scan_flags0 int1) (kept (map fst es)) s" "\<forall>e \<in> set es. \<not> snd e" by force+
    with Inr r True out show ?thesis
      by (auto simp: eio_scandir_def Let_def scan_failed_def scan_inv_def split: if_splits bind_splits)
  qed
qed

text \<open>A request found cancelled after an entry stops there with \<open>ECANCELED\<close>, and what it has
  allocated stays in the request, filled up to that entry, for \<open>eio_destroy\<close> to free.\<close>

theorem scandir_cancelled:
  assumes "opendir_ok env" and "allocs_ok env" and "\<forall>e \<in> set es. \<not> snd e"
    and "length (name_bytes (kept (map fst es) @ kept [e])) \<le> 2 ^ 30"
  shows "\<exists>out. eio_scandir en env (es @ (e, True) # fs) err int1 = Some out \<and>
    scan_failed int1 ECANCELED out \<and> out_names out = name_bytes (kept (map fst es @ [e]))"
proof -
  have "length (name_bytes ([] @ kept (map fst es) @ kept [e])) \<le> 2 ^ 30" using assms(4) by simp
  from scan_loop_cancel [OF scan_inv_init assms(2) this assms(3)] obtain s where
    "scan_loop env (es @ (e, True) # fs) (scan_init (scan_flags0 int1)) = Some (Inl (ECANCELED, s))"
    "names s = name_bytes (kept (map fst es) @ kept [e])" by (auto simp: scan_inv_def)
  then show ?thesis
    using assms(1,2) by (simp add: scandir_unfold allocs_ok_def scan_failed_def kept_def)
qed

text \<open>A failing \<open>realloc\<close> of the name buffer is not handled: the \<open>break\<close> leaves only the loop
  that grows the buffer, and the \<open>memcpy\<close> after it writes through a null pointer.\<close>

theorem scandir_names_null:
  assumes "opendir_ok env" and "malloc_names env" and "malloc_dents env"
    and "realloc_names env = (\<lambda>_. False)" and "realloc_dents env = (\<lambda>_. True)"
    and "\<forall>e \<in> set es. \<not> snd e" and "4096 < length (name_bytes (kept (map fst es)))"
  shows "eio_scandir en env es err int1 = None"
proof -
  have "scan_loop env es (scan_init (scan_flags0 int1)) = None"
    by (rule scan_loop_no_growth [OF scan_inv_init])
      (use assms in \<open>simp_all add: scan_init_def\<close>)
  with assms show ?thesis by (simp add: scandir_unfold)
qed

section \<open>A directory\<close>

definition dir_env :: scan_env where
  "dir_env = \<lparr>opendir_ok = True, open_errno = 2, malloc_names = True, malloc_dents = True,
     realloc_names = (\<lambda>_. True), realloc_dents = (\<lambda>_. True)\<rparr>"

definition dir_entries :: "sys_dirent list" where
  "dir_entries =
    [\<lparr>d_name = ''.'', d_ino = 9, d_type = 4\<rparr>, \<lparr>d_name = ''..'', d_ino = 5, d_type = 4\<rparr>,
     \<lparr>d_name = ''b.c'', d_ino = 7, d_type = 8\<rparr>, \<lparr>d_name = ''src'', d_ino = 3, d_type = 4\<rparr>]"

definition dir_scan :: "(sys_dirent \<times> bool) list" where
  "dir_scan = map (\<lambda>e. (e, False)) dir_entries"

lemma dir_facts:
  "scan_granted dir_env dir_scan" "inodes_known (kept (map fst dir_scan))"
  "names_valid (map fst dir_scan)" "scan_flags0 7 \<noteq> 0" "map fst dir_scan = dir_entries"
  by (simp_all add: scan_granted_def allocs_ok_def dir_env_def dir_scan_def dir_entries_def
      keep_name_def cchar_def inodes_known_def EIO_SORT_FAST_def names_valid_def scan_flags0_def
      readdir_flag_defs)

theorem scandir_names_witness:
  "\<exists>out. eio_scandir Little dir_env dir_scan 0 7 = Some out \<and> out_result out = 2 \<and>
    read_names 2 (out_names out) = [''b.c'', ''src'']"
proof -
  have "length (kept (map fst dir_scan)) = 2" by code_simp
  moreover have "filter (\<lambda>nm. nm \<noteq> ''.'' \<and> nm \<noteq> ''..'') (map (\<lambda>e. d_name (fst e)) dir_scan) = [''b.c'', ''src'']"
    by code_simp
  ultimately show ?thesis
    using scandir_names [OF dir_facts(1-3), of Little 7] by auto
qed

theorem scandir_order_witness:
  "\<exists>out fs. eio_scandir Little dir_env dir_scan 0 7 = Some out \<and> out_dents out = Some fs \<and>
    ordered (out_int1 out) (spec_dents 7 0 (kept dir_entries)) fs"
  using scandir_order [OF dir_facts(1,2,4), of Little]
  by (simp add: dir_facts(5)) (simp add: scan_flags0_def readdir_flag_defs)

theorem scandir_locates_witness:
  "\<exists>out fs. eio_scandir Little dir_env dir_scan 0 7 = Some out \<and> out_dents out = Some fs \<and>
    image_mset (\<lambda>d. (dent_name (out_names out) d, inode d)) (mset fs) = {#(''b.c'', 7), (''src'', 3)#}"
proof -
  have "map (\<lambda>e. (d_name e, d_ino e)) (kept dir_entries) = [(''b.c'', 7), (''src'', 3)]" by code_simp
  from arg_cong [OF this, of mset]
  have "image_mset (\<lambda>e. (d_name e, d_ino e)) (mset (kept dir_entries)) = {#(''b.c'', 7), (''src'', 3)#}"
    by simp
  with scandir_locates [OF dir_facts(1-4), of Little] show ?thesis by (simp add: dir_facts(5))
qed

theorem scandir_all_or_nothing_witness:
  "scan_failed 7 5 (the (eio_scandir Little dir_env dir_scan 5 7))"
proof -
  have some: "\<not> Option.is_none (eio_scandir Little dir_env dir_scan 5 7)" by code_simp
  then obtain out where out: "eio_scandir Little dir_env dir_scan 5 7 = Some out"
    by (cases "eio_scandir Little dir_env dir_scan 5 7") simp_all
  have "map_option out_errno (eio_scandir Little dir_env dir_scan 5 7) = Some 5" by code_simp
  with scandir_all_or_nothing [OF out] out show ?thesis by simp
qed

theorem scandir_cancelled_witness:
  "\<exists>out. eio_scandir Little dir_env
      (map (\<lambda>e. (e, False)) (take 2 dir_entries) @ (dir_entries ! 2, True) # [(dir_entries ! 3, False)]) 0 7 = Some out \<and>
    scan_failed 7 ECANCELED out \<and> out_names out = ''b.c'' @ [CHR 0x00]"
proof -
  let ?es = "map (\<lambda>e. (e, False)) (take 2 dir_entries)" and ?e = "dir_entries ! 2"
  have "opendir_ok dir_env" "allocs_ok dir_env" by (simp_all add: dir_env_def allocs_ok_def)
  moreover have "\<forall>e \<in> set ?es. \<not> snd e" by auto
  moreover have "length (name_bytes (kept (map fst ?es) @ kept [?e])) = 4" by code_simp
  then have "length (name_bytes (kept (map fst ?es) @ kept [?e])) \<le> 2 ^ 30" by simp
  moreover have "name_bytes (kept (map fst ?es @ [?e])) = ''b.c'' @ [CHR 0x00]" by code_simp
  ultimately show ?thesis
    using scandir_cancelled [of dir_env ?es ?e Little "[(dir_entries ! 3, False)]" 0 7] by simp
qed

text \<open>A directory of 512 entries whose names fill 10 bytes each.\<close>

definition big_dir :: "nat \<Rightarrow> (sys_dirent \<times> bool) list" where
  "big_dir n = replicate n (\<lparr>d_name = ''file.data'', d_ino = 3, d_type = 8\<rparr>, False)"

lemma big_dir_size: "length (name_bytes (kept (map fst (big_dir n)))) = 10 * n"
proof -
  have "keep_name ''file.data''" by code_simp
  then show ?thesis by (induction n) (simp_all add: big_dir_def)
qed

theorem scandir_names_null_witness:
  "eio_scandir Little (dir_env\<lparr>realloc_names := \<lambda>_. False\<rparr>) (big_dir 512) 0 0 = None"
proof (rule scandir_names_null)
  show "4096 < length (name_bytes (kept (map fst (big_dir 512))))" unfolding big_dir_size by simp
  show "\<forall>e \<in> set (big_dir 512). \<not> snd e" by (simp add: big_dir_def)
qed (simp_all add: dir_env_def)

end
