(* ===== verification/Dent_Props.thy ===== *)
theory Dent_Props
  imports Dent_Sort
begin

text \<open>
  The properties of the directory entry sort of \<open>src/libeio/eio.c\<close>, stated with the code's own
  comparison, and their instances on small directories.
\<close>

section \<open>The order of the code\<close>

text \<open>C33: on scores that are not negative the comparison, whose result passes through a
  \<open>signed char\<close>, is the lexicographic order on score and inode, and its two uses (\<open><\<close> and \<open>>\<close>) are
  converses of each other.\<close>

theorem dent_cmp_lexicographic:
  assumes "score_ok a" and "score_ok b"
  shows "(dent_less a b \<longleftrightarrow> sint (score a) < sint (score b) \<or>
      sint (score a) = sint (score b) \<and> inode a < inode b) \<and>
    (dent_greater a b \<longleftrightarrow> dent_less b a)"
proof -
  obtain m n where "sint (score a) = int m" "unat (score a) = m"
    "sint (score b) = int n" "unat (score b) = n"
    using assms score_ok_unat by blast
  then show ?thesis using dent_cmp_key [OF assms] dent_cmp_key [OF assms(2,1)]
    by (simp add: dent_key_less)
qed

lemma sorted_not_greater:
  assumes "\<forall>d \<in> set es. score_ok d" and "sorted (map dent_key es)"
  shows "sorted_wrt (\<lambda>a b. \<not> dent_greater a b) es"
  using assms by (induction es) (auto simp: dent_cmp_key)

text \<open>C13: \<open>eio_dent_sort\<close> always returns, stays inside the array and its two stacks, and leaves a
  permutation of the entries in which no entry is greater than a later one, provided the score
  bits cover the scores, the inode bits cover the inodes, and either there are at most 60 entries
  or some bit is given.\<close>

theorem dent_sort_sorts:
  assumes "EIO_SORT_FAST < length dents \<Longrightarrow> sb \<noteq> 0 \<or> ib \<noteq> 0"
    and "\<forall>d \<in> set dents. score_ok d \<and> dent_ok s0 sb ib d"
  shows "\<exists>es. eio_dent_sort en dents sb ib = Some es \<and> mset es = mset dents \<and>
    sorted_wrt (\<lambda>a b. \<not> dent_greater a b) es"
proof -
  from dent_sort_correct [OF assms] obtain es where
    es: "eio_dent_sort en dents sb ib = Some es" "mset es = mset dents" "sorted (map dent_key es)"
    by blast
  have "set es = set dents" using es(2) by (rule mset_eq_setD)
  then have "sorted_wrt (\<lambda>a b. \<not> dent_greater a b) es"
    using assms(2) es(3) by (intro sorted_not_greater) auto
  with es show ?thesis by blast
qed

text \<open>With no bit to test (all inodes zero and no score bits) and more than 60 entries the
  radix pass reads \<open>bits [-1]\<close>.\<close>

theorem dent_sort_no_bits:
  assumes "EIO_SORT_FAST < length dents"
  shows "eio_dent_sort en dents 0 0 = None"
proof -
  have "radix_bits en 0 0 = [0]" by (simp add: radix_bits_def)
  moreover have "\<not> length dents - 0 < EIO_SORT_CUTOFF"
    using assms by (simp add: EIO_SORT_FAST_def EIO_SORT_CUTOFF_def)
  moreover have "\<not> length dents \<le> 1" using assms by (simp add: EIO_SORT_FAST_def)
  ultimately show ?thesis
    by (simp add: eio_dent_sort_def radix_sort_rec [OF assms] radix_rec.simps [of _ _ _ _ _ 0] split: prod.split)
qed

text \<open>C20: the explicit stack of the radix pass, of fixed size, never overflows, and the loop over it
  computes what the recursion on both halves of each partition computes.\<close>

theorem radix_stack_recursion:
  assumes "EIO_SORT_FAST < length dents"
  shows "eio_dent_radix_sort en dents sb ib =
    radix_rec (radix_test en) (radix_bits en sb ib) dents 0 (length dents)
      (length (radix_bits en sb ib) - 1)"
  by (rule radix_sort_rec [OF assms])

text \<open>C21: after the radix pass an entry is at most 29 places behind a smaller one, which is what lets
  the insertion sort look for its sentinel in the first 31 entries only.\<close>

theorem radix_near_sorted:
  assumes "EIO_SORT_FAST < length dents" and "sb \<noteq> 0 \<or> ib \<noteq> 0"
    and "\<forall>d \<in> set dents. dent_ok s0 sb ib d"
  shows "\<exists>es. eio_dent_radix_sort en dents sb ib = Some es \<and> mset es = mset dents \<and>
    near_sorted dent_key 0 (length es) es"
  by (rule radix_sort_correct [OF assms])

section \<open>Instances\<close>

definition some_dent :: "8 word \<Rightarrow> 64 word \<Rightarrow> eio_dirent" where
  "some_dent s i = \<lparr>nameofs = 0, namelen = 1, dtype = 8, score = s, inode = i\<rparr>"

definition many_dents :: "eio_dirent list" where
  "many_dents = map (\<lambda>i. some_dent 7 (word_of_nat i AND 0xff)) (rev [0..<100])"

lemma many_dents_facts:
  "EIO_SORT_FAST < length many_dents" "\<forall>d \<in> set many_dents. dent_ok 7 0 0xff d"
proof -
  show "EIO_SORT_FAST < length many_dents" by (simp add: many_dents_def EIO_SORT_FAST_def)
  have "(x AND 0xff) AND NOT 0xff = 0" for x :: "64 word"
    by (simp only: and.assoc bit.conj_cancel_right bit.conj_zero_right)
  then show "\<forall>d \<in> set many_dents. dent_ok 7 0 0xff d"
    by (simp add: many_dents_def dent_ok_def some_dent_def)
qed

theorem dent_cmp_lexicographic_witness:
  "dent_less (some_dent 1 9) (some_dent 7 2) \<and> dent_greater (some_dent 7 5) (some_dent 7 2)"
proof -
  have "score_ok (some_dent 1 9)" "score_ok (some_dent 7 2)" "score_ok (some_dent 7 5)"
    by (simp_all add: score_ok_def some_dent_def)
  with dent_cmp_lexicographic [of "some_dent 1 9" "some_dent 7 2"]
    dent_cmp_lexicographic [of "some_dent 7 5" "some_dent 7 2"]
    dent_cmp_lexicographic [of "some_dent 7 2" "some_dent 7 5"]
  show ?thesis by (simp add: some_dent_def)
qed

theorem dent_sort_sorts_witness:
  "\<exists>es. eio_dent_sort Little many_dents 0 0xff = Some es \<and> mset es = mset many_dents \<and>
    sorted_wrt (\<lambda>a b. \<not> dent_greater a b) es"
proof -
  have "\<forall>d \<in> set many_dents. score_ok d"
    by (simp add: many_dents_def some_dent_def score_ok_def)
  with many_dents_facts show ?thesis by (intro dent_sort_sorts [where ?s0.0 = 7]) auto
qed

theorem dent_sort_no_bits_witness: "eio_dent_sort Little (replicate 61 (some_dent 7 0)) 0 0 = None"
  by (rule dent_sort_no_bits) (simp add: EIO_SORT_FAST_def)

theorem radix_stack_recursion_witness:
  "eio_dent_radix_sort Big many_dents 0 0xff =
    radix_rec (radix_test Big) (radix_bits Big 0 0xff) many_dents 0 (length many_dents)
      (length (radix_bits Big 0 0xff) - 1)"
  by (rule radix_stack_recursion [OF many_dents_facts(1)])

theorem radix_near_sorted_witness:
  "\<exists>es. eio_dent_radix_sort Big many_dents 0 0xff = Some es \<and> mset es = mset many_dents \<and>
    near_sorted dent_key 0 (length es) es"
  by (rule radix_near_sorted [OF many_dents_facts(1) _ many_dents_facts(2)]) simp

end
