(* ===== verification/Eio_Req.thy ===== *)
theory Eio_Req
  imports Eio_Prelude
begin

text \<open>
  The data model of \<open>src/libeio/eio.h\<close>: the request types, the flag constants, the request
  structure \<open>eio_req\<close>, and the heap of requests. The \<open>double\<close> timestamps are kept as their
  64-bit representation. A function pointer is the address of its code; \<^term>\<open>None\<close> is the null
  pointer. \<open>eio_api_destroy\<close> is the only callback the library itself installs.
\<close>

section \<open>Request types\<close>

datatype eio_type =
  EIO_CUSTOM
| EIO_OPEN | EIO_CLOSE | EIO_DUP2
| EIO_READ | EIO_WRITE
| EIO_READAHEAD | EIO_SENDFILE
| EIO_STAT | EIO_LSTAT | EIO_FSTAT
| EIO_STATVFS | EIO_FSTATVFS
| EIO_TRUNCATE | EIO_FTRUNCATE
| EIO_UTIME | EIO_FUTIME
| EIO_CHMOD | EIO_FCHMOD
| EIO_CHOWN | EIO_FCHOWN
| EIO_SYNC | EIO_FSYNC | EIO_FDATASYNC
| EIO_MSYNC | EIO_MTOUCH | EIO_SYNC_FILE_RANGE
| EIO_MLOCK | EIO_MLOCKALL
| EIO_UNLINK | EIO_RMDIR | EIO_MKDIR | EIO_RENAME
| EIO_MKNOD | EIO_READDIR
| EIO_LINK | EIO_SYMLINK | EIO_READLINK
| EIO_GROUP | EIO_NOP
| EIO_BUSY

text \<open>The enumeration in the order of its declaration: its codes count from 0.\<close>

definition eio_types :: "eio_type list" where
  "eio_types =
    [EIO_CUSTOM, EIO_OPEN, EIO_CLOSE, EIO_DUP2, EIO_READ, EIO_WRITE, EIO_READAHEAD, EIO_SENDFILE,
     EIO_STAT, EIO_LSTAT, EIO_FSTAT, EIO_STATVFS, EIO_FSTATVFS, EIO_TRUNCATE, EIO_FTRUNCATE,
     EIO_UTIME, EIO_FUTIME, EIO_CHMOD, EIO_FCHMOD, EIO_CHOWN, EIO_FCHOWN, EIO_SYNC, EIO_FSYNC,
     EIO_FDATASYNC, EIO_MSYNC, EIO_MTOUCH, EIO_SYNC_FILE_RANGE, EIO_MLOCK, EIO_MLOCKALL,
     EIO_UNLINK, EIO_RMDIR, EIO_MKDIR, EIO_RENAME, EIO_MKNOD, EIO_READDIR, EIO_LINK, EIO_SYMLINK,
     EIO_READLINK, EIO_GROUP, EIO_NOP, EIO_BUSY]"

definition type_code :: "eio_type \<Rightarrow> int" where
  "type_code t = int (length (takeWhile (\<lambda>u. u \<noteq> t) eio_types))"

text \<open>What a \<open>switch (req->type)\<close> selects: \<^term>\<open>None\<close> is its \<open>default\<close> branch.\<close>

definition type_of_code :: "int \<Rightarrow> eio_type option" where
  "type_of_code c =
     (if 0 \<le> c \<and> c < int (length eio_types) then Some (eio_types ! nat c) else None)"

lemma length_eio_types [simp]: "length eio_types = 41"
  by (simp add: eio_types_def)

lemma type_of_code_code [simp]: "type_of_code (type_code t) = Some t"
  by (cases t) (simp_all add: type_code_def type_of_code_def eio_types_def)

lemma type_code_inj [simp]: "type_code t = type_code u \<longleftrightarrow> t = u"
  by (metis option.inject type_of_code_code)

lemma type_code_nonneg [simp]: "0 \<le> type_code t"
  by (simp add: type_code_def)

section \<open>Flags and priorities\<close>

definition EIO_FLAG_CANCELLED :: "8 word" where "EIO_FLAG_CANCELLED = 1"
definition EIO_FLAG_PTR1_FREE :: "8 word" where "EIO_FLAG_PTR1_FREE = 2"
definition EIO_FLAG_PTR2_FREE :: "8 word" where "EIO_FLAG_PTR2_FREE = 4"
definition EIO_FLAG_GROUPADD :: "8 word" where "EIO_FLAG_GROUPADD = 8"

lemmas eio_flag_defs =
  EIO_FLAG_CANCELLED_def EIO_FLAG_PTR1_FREE_def EIO_FLAG_PTR2_FREE_def EIO_FLAG_GROUPADD_def

definition EIO_PRI_MIN :: int where "EIO_PRI_MIN = - 4"
definition EIO_PRI_MAX :: int where "EIO_PRI_MAX = 4"
definition EIO_PRI_DEFAULT :: int where "EIO_PRI_DEFAULT = 0"

text \<open>\<open>ETP_NUM_PRI\<close> of \<open>eio.c\<close>: the number of priority levels.\<close>

definition ETP_NUM_PRI :: nat where
  "ETP_NUM_PRI = nat (EIO_PRI_MAX - EIO_PRI_MIN + 1)"

lemma ETP_NUM_PRI_eq [simp]: "ETP_NUM_PRI = 9"
  by (simp add: ETP_NUM_PRI_def EIO_PRI_MAX_def EIO_PRI_MIN_def)

lemmas eio_pri_defs = EIO_PRI_MIN_def EIO_PRI_MAX_def EIO_PRI_DEFAULT_def

section \<open>The request structure\<close>

type_synonym code_ptr = "64 word option"
type_synonym eio_tstamp = "64 word"

record eio_req =
  next_req :: ptr              \<comment> \<open>\<open>next\<close>: the queue link\<close>
  result :: int                \<comment> \<open>\<open>ssize_t\<close>\<close>
  offs :: int                  \<comment> \<open>\<open>off_t\<close>\<close>
  req_size :: "64 word"        \<comment> \<open>\<open>size\<close>, a \<open>size_t\<close>\<close>
  ptr1 :: "64 word"
  ptr2 :: "64 word"
  nv1 :: eio_tstamp
  nv2 :: eio_tstamp
  req_type :: int              \<comment> \<open>\<open>type\<close>\<close>
  int1 :: int
  int2 :: int                  \<comment> \<open>\<open>long\<close>\<close>
  int3 :: int                  \<comment> \<open>\<open>long\<close>\<close>
  errorno :: int
  flags :: "8 word"            \<comment> \<open>\<open>unsigned char\<close>\<close>
  pri :: "8 word"              \<comment> \<open>\<open>signed char\<close>, read with \<^const>\<open>sint\<close>\<close>
  data :: "64 word"
  finish :: code_ptr
  destroy :: code_ptr
  feed :: code_ptr
  grp :: ptr
  grp_prev :: ptr
  grp_next :: ptr
  grp_first :: ptr

text \<open>A request of \<open>calloc (1, sizeof (eio_req))\<close>: every member zero.\<close>

definition zero_req :: eio_req where
  "zero_req =
    \<lparr>next_req = None, result = 0, offs = 0, req_size = 0, ptr1 = 0, ptr2 = 0, nv1 = 0, nv2 = 0,
     req_type = 0, int1 = 0, int2 = 0, int3 = 0, errorno = 0, flags = 0, pri = 0, data = 0,
     finish = None, destroy = None, feed = None,
     grp = None, grp_prev = None, grp_next = None, grp_first = None\<rparr>"

text \<open>\<open>EIO_CANCELLED (req)\<close>.\<close>

definition EIO_CANCELLED :: "eio_req \<Rightarrow> bool" where
  "EIO_CANCELLED r \<longleftrightarrow> flags r AND EIO_FLAG_CANCELLED \<noteq> 0"

lemma EIO_CANCELLED_bit: "EIO_CANCELLED r \<longleftrightarrow> bit (flags r) 0"
  by (simp add: EIO_CANCELLED_def EIO_FLAG_CANCELLED_def and_one_eq bit_0 mod_2_eq_odd)

section \<open>The heap of requests\<close>

type_synonym heap = "addr \<Rightarrow> eio_req option"

text \<open>\<open>upd a f h\<close>: an assignment to members of \<open>*a\<close>; undefined for a dangling \<open>a\<close>.\<close>

definition upd :: "addr \<Rightarrow> (eio_req \<Rightarrow> eio_req) \<Rightarrow> heap \<Rightarrow> heap option" where
  "upd a f h = (case h a of None \<Rightarrow> None | Some r \<Rightarrow> Some (h(a \<mapsto> f r)))"

lemma upd_Some: "upd a f h = Some h' \<longleftrightarrow> (\<exists>r. h a = Some r \<and> h' = h(a \<mapsto> f r))"
  by (auto simp: upd_def split: option.splits)

lemma upd_ok [simp]: "h a = Some r \<Longrightarrow> upd a f h = Some (h(a \<mapsto> f r))"
  by (simp add: upd_def)

text \<open>The link fields of the heap as functions of the address.\<close>

definition nexts :: "heap \<Rightarrow> addr \<Rightarrow> ptr option" where
  "nexts h a = map_option next_req (h a)"

definition grp_nexts :: "heap \<Rightarrow> addr \<Rightarrow> ptr option" where
  "grp_nexts h a = map_option grp_next (h a)"

lemma nexts_upd: "nexts (h(a \<mapsto> r)) = (nexts h)(a := Some (next_req r))"
  by (auto simp: nexts_def)

lemma grp_nexts_upd: "grp_nexts (h(a \<mapsto> r)) = (grp_nexts h)(a := Some (grp_next r))"
  by (auto simp: grp_nexts_def)

end
