(* ===== verification/Req_Queue.thy ===== *)
theory Req_Queue
  imports Eio_Req
begin

text \<open>
  The request queues of \<open>src/libeio/eio.c\<close>: \<open>etp_reqq\<close> with \<open>reqq_push\<close> and \<open>reqq_shift\<close>. A queue
  is nine singly linked lists through the \<open>next\<close> members of the requests in the heap, one for
  each priority, each with a pointer to its first and to its last request.

  \<open>reqq_rep h q qss\<close> says that the heap \<open>h\<close> holds the lists \<open>qss\<close> for the queue \<open>q\<close>. The locale
  \<open>prio_fifo\<close> is the interface the thread pool relies on: push appends to the list of the
  request's priority, shift takes from the non-empty list of highest priority.
\<close>

section \<open>The queue\<close>

record etp_reqq =
  qs :: "ptr list"
  qe :: "ptr list"
  qsize :: int

text \<open>A static \<open>etp_reqq\<close>: zero-initialised.\<close>

definition reqq_empty :: etp_reqq where
  "reqq_empty =
     \<lparr>qs = replicate ETP_NUM_PRI None, qe = replicate ETP_NUM_PRI None, qsize = 0\<rparr>"

text \<open>
  The array index \<open>pri\<close>: undefined outside \<open>[0, ETP_NUM_PRI)\<close>.
\<close>

definition pri_index :: "eio_req \<Rightarrow> nat option" where
  "pri_index r =
     (if 0 \<le> sint (pri r) \<and> sint (pri r) < int ETP_NUM_PRI then Some (nat (sint (pri r))) else None)"

lemma pri_index_Some: "pri_index r = Some p \<longleftrightarrow> p < 9 \<and> sint (pri r) = int p"
  by (auto simp: pri_index_def)

lemma pri_index_cong: "pri r' = pri r \<Longrightarrow> pri_index r' = pri_index r"
  by (simp add: pri_index_def)

definition reqq_push :: "etp_reqq \<Rightarrow> addr \<Rightarrow> heap \<Rightarrow> (int \<times> etp_reqq \<times> heap) option" where
  "reqq_push q req h = do {
     r \<leftarrow> h req;
     p \<leftarrow> pri_index r;
     h \<leftarrow> upd req (next_req_update (\<lambda>_. None)) h;
     (q, h) \<leftarrow> (case qe q ! p of
         Some e \<Rightarrow> do {
           h \<leftarrow> upd e (next_req_update (\<lambda>_. Some req)) h;
           Some (q\<lparr>qe := (qe q)[p := Some req]\<rparr>, h) }
       | None \<Rightarrow>
           Some (q\<lparr>qe := (qe q)[p := Some req], qs := (qs q)[p := Some req]\<rparr>, h));
     n \<leftarrow> int_chk (qsize q + 1);
     Some (qsize q, q\<lparr>qsize := n\<rparr>, h) }"

text \<open>The \<open>for (pri = ETP_NUM_PRI; pri--; )\<close> of \<open>reqq_shift\<close>; \<^term>\<open>None\<close> at the end is \<open>abort ()\<close>.\<close>

fun reqq_scan :: "nat \<Rightarrow> etp_reqq \<Rightarrow> heap \<Rightarrow> (ptr \<times> etp_reqq) option" where
  "reqq_scan 0 q h = None"
| "reqq_scan (Suc p) q h =
     (case qs q ! p of
        None \<Rightarrow> reqq_scan p q h
      | Some req \<Rightarrow> do {
          r \<leftarrow> h req;
          (let q = q\<lparr>qs := (qs q)[p := next_req r]\<rparr>
           in Some (Some req, if next_req r = None then q\<lparr>qe := (qe q)[p := None]\<rparr> else q)) })"

definition reqq_shift :: "etp_reqq \<Rightarrow> heap \<Rightarrow> (ptr \<times> etp_reqq) option" where
  "reqq_shift q h =
     (if qsize q = 0 then Some (None, q)
      else do {
        n \<leftarrow> int_chk (qsize q - 1);
        reqq_scan ETP_NUM_PRI (q\<lparr>qsize := n\<rparr>) h })"

section \<open>What a queue represents\<close>

text \<open>One level of the queue: the requests \<open>xs\<close> of priority \<open>p\<close>.\<close>

definition level_rep :: "heap \<Rightarrow> etp_reqq \<Rightarrow> nat \<Rightarrow> addr list \<Rightarrow> bool" where
  "level_rep h q p xs \<longleftrightarrow>
     chain (nexts h) (qs q ! p) xs \<and> qe q ! p = last_ptr xs \<and>
     (\<forall>x \<in> set xs. \<exists>r. h x = Some r \<and> pri_index r = Some p)"

definition reqq_rep :: "heap \<Rightarrow> etp_reqq \<Rightarrow> addr list list \<Rightarrow> bool" where
  "reqq_rep h q qss \<longleftrightarrow>
     length (qs q) = ETP_NUM_PRI \<and> length (qe q) = ETP_NUM_PRI \<and> length qss = ETP_NUM_PRI \<and>
     (\<forall>p < ETP_NUM_PRI. level_rep h q p (qss ! p)) \<and>
     distinct (concat qss) \<and> qsize q = int (length (concat qss))"

text \<open>The abstract operations on the nine lists.\<close>

definition fifo_push :: "nat \<Rightarrow> 'a \<Rightarrow> 'a list list \<Rightarrow> 'a list list" where
  "fifo_push p x qss = qss[p := qss ! p @ [x]]"

fun fifo_take :: "nat \<Rightarrow> 'a list list \<Rightarrow> ('a \<times> 'a list list) option" where
  "fifo_take 0 qss = None"
| "fifo_take (Suc p) qss =
     (case qss ! p of [] \<Rightarrow> fifo_take p qss | x # xs \<Rightarrow> Some (x, qss[p := xs]))"

lemma reqq_rep_empty: "reqq_rep h reqq_empty (replicate ETP_NUM_PRI [])"
  by (simp add: reqq_rep_def reqq_empty_def level_rep_def)

lemma reqq_repD:
  assumes "reqq_rep h q qss"
  shows "length (qs q) = 9" "length (qe q) = 9" "length qss = 9"
    and "p < 9 \<Longrightarrow> level_rep h q p (qss ! p)"
    and "distinct (concat qss)" and "qsize q = int (length (concat qss))"
  using assms by (auto simp: reqq_rep_def)

lemma reqq_rep_in:
  "reqq_rep h q qss \<Longrightarrow> p < 9 \<Longrightarrow> x \<in> set (qss ! p) \<Longrightarrow> x \<in> set (concat qss)"
  by (rule in_concat_nth) (auto dest: reqq_repD(3))

lemma reqq_rep_member:
  assumes "reqq_rep h q qss" and "x \<in> set (concat qss)"
  obtains p r where "p < 9" "x \<in> set (qss ! p)" "h x = Some r" "pri_index r = Some p"
proof -
  from assms(2) obtain p where p: "p < length qss" "x \<in> set (qss ! p)" by (rule in_concatE)
  then have "p < 9" using reqq_repD(3) [OF assms(1)] by simp
  with p(2) reqq_repD(4) [OF assms(1)] that show thesis unfolding level_rep_def by blast
qed

text \<open>Only the links and the priorities of the queued requests matter.\<close>

definition same_links :: "addr set \<Rightarrow> heap \<Rightarrow> heap \<Rightarrow> bool" where
  "same_links A h h' \<longleftrightarrow>
     (\<forall>x \<in> A. map_option (\<lambda>r. (next_req r, pri r)) (h' x) = map_option (\<lambda>r. (next_req r, pri r)) (h x))"

lemma same_links_refl [simp]: "same_links A h h"
  by (simp add: same_links_def)

lemma same_links_upd_other [simp]: "a \<notin> A \<Longrightarrow> same_links A h (h(a := v))"
  by (auto simp: same_links_def)

lemma same_links_eq: "(\<And>x. x \<in> A \<Longrightarrow> h' x = h x) \<Longrightarrow> same_links A h h'"
  by (simp add: same_links_def)

lemma same_links_mono: "same_links A h h' \<Longrightarrow> B \<subseteq> A \<Longrightarrow> same_links B h h'"
  by (auto simp: same_links_def)

lemma same_linksD:
  assumes "same_links A h h'" and "x \<in> A" and "h x = Some r"
  obtains r' where "h' x = Some r'" "next_req r' = next_req r" "pri r' = pri r"
proof -
  from assms have "map_option (\<lambda>r. (next_req r, pri r)) (h' x) = Some (next_req r, pri r)"
    by (simp add: same_links_def)
  then obtain r' where "h' x = Some r'" "(next_req r', pri r') = (next_req r, pri r)"
    unfolding map_option_eq_Some by blast
  then show thesis using that [of r'] by simp
qed

lemma level_rep_frame:
  assumes level: "level_rep h q p xs" and same: "same_links (set xs) h h'"
    and "qs q' ! p = qs q ! p" and "qe q' ! p = qe q ! p"
  shows "level_rep h' q' p xs"
proof -
  have "\<exists>r. h' x = Some r \<and> pri_index r = Some p \<and> nexts h' x = nexts h x" if x: "x \<in> set xs" for x
  proof -
    from level x obtain r where r: "h x = Some r" "pri_index r = Some p"
      by (auto simp: level_rep_def)
    from same x r(1) obtain r' where "h' x = Some r'" "next_req r' = next_req r" "pri r' = pri r"
      by (rule same_linksD)
    with r show ?thesis by (simp add: nexts_def pri_index_Some)
  qed
  moreover from this have "chain (nexts h') (qs q ! p) xs = chain (nexts h) (qs q ! p) xs"
    by (intro chain_cong) blast
  ultimately show ?thesis using assms by (simp add: level_rep_def) blast
qed

lemma reqq_rep_frame:
  assumes rep: "reqq_rep h q qss" and same: "same_links (set (concat qss)) h h'"
  shows "reqq_rep h' q qss"
proof -
  have "level_rep h' q p (qss ! p)" if p: "p < 9" for p
    by (rule level_rep_frame [OF reqq_repD(4) [OF rep p]])
      (use same p reqq_rep_in [OF rep p] in \<open>auto intro: same_links_mono\<close>)
  with rep show ?thesis by (simp add: reqq_rep_def)
qed

text \<open>Changing one level of the queue.\<close>

lemma reqq_rep_level:
  assumes rep: "reqq_rep h q qss" and p: "p < 9"
    and level: "level_rep h' q' p xs"
    and len: "length (qs q') = 9" "length (qe q') = 9"
    and other: "\<And>k. k < 9 \<Longrightarrow> k \<noteq> p \<Longrightarrow>
          qs q' ! k = qs q ! k \<and> qe q' ! k = qe q ! k \<and> same_links (set (qss ! k)) h h'"
    and all: "distinct (concat (qss[p := xs]))" "qsize q' = int (length (concat (qss[p := xs])))"
  shows "reqq_rep h' q' (qss[p := xs])"
proof -
  have "level_rep h' q' k (qss[p := xs] ! k)" if k: "k < 9" for k
  proof (cases "k = p")
    case True
    with level p reqq_repD(3) [OF rep] show ?thesis by simp
  next
    case False
    with other [OF k False] level_rep_frame [OF reqq_repD(4) [OF rep k]] show ?thesis by simp
  qed
  with len all reqq_repD(3) [OF rep] show ?thesis by (simp add: reqq_rep_def)
qed

text \<open>\<open>next_only A h h'\<close>: the heaps differ in \<open>next\<close> members of requests of \<open>A\<close> only.\<close>

definition next_only :: "addr set \<Rightarrow> heap \<Rightarrow> heap \<Rightarrow> bool" where
  "next_only A h h' \<longleftrightarrow>
     (\<forall>a. (a \<notin> A \<longrightarrow> h' a = h a) \<and>
          map_option (next_req_update (\<lambda>_. None)) (h' a) =
          map_option (next_req_update (\<lambda>_. None)) (h a))"

lemma next_only_refl [simp]: "next_only A h h"
  by (simp add: next_only_def)

lemma next_only_upd: "h a = Some r \<Longrightarrow> a \<in> A \<Longrightarrow> next_only A h (h(a \<mapsto> r\<lparr>next_req := q\<rparr>))"
  by (auto simp: next_only_def)

lemma next_only_trans: "next_only A h h' \<Longrightarrow> next_only A h' h'' \<Longrightarrow> next_only A h h''"
  by (simp add: next_only_def)

lemma next_only_frame: "next_only A h h' \<Longrightarrow> a \<notin> A \<Longrightarrow> h' a = h a"
  by (simp add: next_only_def)

section \<open>Correctness of push and shift\<close>

lemma concat_push:
  assumes "reqq_rep h q qss" and "p < 9" and "req \<notin> set (concat qss)"
  shows "distinct (concat (qss[p := qss ! p @ [req]]))"
    and "length (concat (qss[p := qss ! p @ [req]])) = Suc (length (concat qss))"
proof -
  have new: "mset (concat (qss[p := qss ! p @ [req]])) = mset (req # concat qss)"
    using assms reqq_repD(3) by (intro mset_concat_snoc) auto
  show "distinct (concat (qss[p := qss ! p @ [req]]))"
    using mset_eq_imp_distinct_iff [OF new] assms(3) reqq_repD(5) [OF assms(1)] by simp
  show "length (concat (qss[p := qss ! p @ [req]])) = Suc (length (concat qss))"
    using mset_eq_length [OF new] by simp
qed

text \<open>The level that receives the request, when it was empty and when it was not.\<close>

lemma level_push_empty:
  assumes "h req = Some r" and "pri_index r = Some p" and "length (qs q) = 9" and "length (qe q) = 9"
  shows "level_rep (h(req \<mapsto> r\<lparr>next_req := None\<rparr>))
     (q\<lparr>qe := (qe q)[p := Some req], qs := (qs q)[p := Some req], qsize := n\<rparr>) p [req]"
  using assms by (simp add: level_rep_def nexts_upd pri_index_Some last_ptr_def)

lemma level_push_snoc:
  assumes level: "level_rep h q p (ys @ [e])" and dist: "distinct (ys @ [e])"
    and r: "h req = Some r" "pri_index r = Some p" and er: "h e = Some er"
    and fresh: "req \<notin> set (ys @ [e])" and len: "length (qe q) = 9"
  shows "level_rep (h(req \<mapsto> r\<lparr>next_req := None\<rparr>, e \<mapsto> er\<lparr>next_req := Some req\<rparr>))
     (q\<lparr>qe := (qe q)[p := Some req], qsize := n\<rparr>) p ((ys @ [e]) @ [req])"
proof -
  from r(2) have p: "p < 9" by (simp add: pri_index_Some)
  from level have c: "chain (nexts h) (qs q ! p) (ys @ [e])"
    and pr: "\<And>x. x \<in> set (ys @ [e]) \<Longrightarrow> \<exists>r. h x = Some r \<and> pri_index r = Some p"
    by (auto simp: level_rep_def)
  from pr [of e] er have "pri_index er = Some p" by simp
  with pr r er have
    "\<exists>r'. (h(req \<mapsto> r\<lparr>next_req := None\<rparr>, e \<mapsto> er\<lparr>next_req := Some req\<rparr>)) x = Some r' \<and> pri_index r' = Some p"
    if "x \<in> set ((ys @ [e]) @ [req])" for x
    using that by (auto simp: pri_index_Some)
  with chain_snoc [OF c dist fresh] p len show ?thesis
    by (simp add: level_rep_def nexts_upd last_ptr_def)
qed

lemma reqq_push_rep:
  assumes rep: "reqq_rep h q qss" and r: "h req = Some r" and p: "pri_index r = Some p"
    and fresh: "req \<notin> set (concat qss)" and room: "int (length (concat qss)) < INT_MAX"
  shows "\<exists>q' h'. reqq_push q req h = Some (int (length (concat qss)), q', h') \<and>
           reqq_rep h' q' (fifo_push p req qss) \<and> next_only (insert req (set (qss ! p))) h h'"
proof -
  note D = reqq_repD [OF rep]
  from p have p9: "p < 9" by (simp add: pri_index_Some)
  let ?n = "int (length (concat qss))"
  have n: "int_chk (?n + 1) = Some (?n + 1)" using room by (simp add: INT_MIN_def)
  let ?h1 = "h(req \<mapsto> r\<lparr>next_req := None\<rparr>)"
  have qe: "qe q ! p = last_ptr (qss ! p)" using D(4) [OF p9] by (simp add: level_rep_def)
  have notin: "req \<notin> set (qss ! k)" if "k < 9" for k
    using fresh reqq_rep_in [OF rep that] by blast
  show ?thesis
  proof (cases "qss ! p" rule: rev_cases)
    case Nil
    let ?q = "q\<lparr>qe := (qe q)[p := Some req], qs := (qs q)[p := Some req], qsize := ?n + 1\<rparr>"
    have "reqq_push q req h = Some (?n, ?q, ?h1)"
      using r p n Nil qe D(6) by (simp add: reqq_push_def)
    moreover have "reqq_rep ?h1 ?q (qss[p := qss ! p @ [req]])"
      using level_push_empty [where h = h and q = q, OF r p D(1,2)] Nil D(1,2) notin concat_push [OF rep p9 fresh]
      by (intro reqq_rep_level [OF rep p9]) auto
    moreover have "next_only (insert req (set (qss ! p))) h ?h1"
      by (rule next_only_upd [where h = h, OF r]) simp
    ultimately show ?thesis unfolding fifo_push_def by blast
  next
    case (snoc ys e)
    then have ein: "e \<in> set (qss ! p)" by simp
    from reqq_rep_member [OF rep reqq_rep_in [OF rep p9 ein]] obtain er where er: "h e = Some er"
      by metis
    have ne: "e \<noteq> req" using notin [OF p9] ein by auto
    let ?q = "q\<lparr>qe := (qe q)[p := Some req], qsize := ?n + 1\<rparr>"
    let ?h2 = "?h1(e \<mapsto> er\<lparr>next_req := Some req\<rparr>)"
    have "reqq_push q req h = Some (?n, ?q, ?h2)"
      using r p n er ne qe D(6) snoc by (simp add: reqq_push_def)
    moreover have "reqq_rep ?h2 ?q (qss[p := qss ! p @ [req]])"
    proof (rule reqq_rep_level [OF rep p9])
      have "distinct (qss ! p)" using distinct_concat_nth [OF D(5)] p9 D(3) by simp
      with level_push_snoc [of h q p ys e req r er] D(2) D(4) [OF p9] r p er notin [OF p9]
      show "level_rep ?h2 ?q p (qss ! p @ [req])" unfolding snoc by simp
    next
      fix k assume k: "k < 9" "k \<noteq> p"
      have "e \<notin> set (qss ! k)"
        using distinct_concat_nthD [OF D(5), of k p] k p9 D(3) ein by auto
      with k notin show "qs ?q ! k = qs q ! k \<and> qe ?q ! k = qe q ! k \<and> same_links (set (qss ! k)) h ?h2"
        by (auto simp: same_links_def)
    qed (use concat_push [OF rep p9 fresh] D(1,2) in auto)
    moreover have "next_only (insert req (set (qss ! p))) h ?h2"
      by (rule next_only_trans [OF next_only_upd [where h = h, OF r] next_only_upd]) (use er ne ein in auto)
    ultimately show ?thesis unfolding fifo_push_def by blast
  qed
qed

lemma fifo_take_Some:
  "fifo_take n qss = Some (x, qss') \<longleftrightarrow>
     (\<exists>p < n. \<exists>xs. qss ! p = x # xs \<and> (\<forall>k. p < k \<and> k < n \<longrightarrow> qss ! k = []) \<and> qss' = qss[p := xs])"
proof (induction n)
  case 0
  then show ?case by simp
next
  case (Suc n)
  show ?case
  proof (cases "qss ! n")
    case Nil
    with Suc show ?thesis by (auto simp: less_Suc_eq)
  next
    case (Cons y ys)
    then show ?thesis by (auto simp: less_Suc_eq intro!: exI [of _ n])
  qed
qed

lemma fifo_take_None: "fifo_take n qss = None \<longleftrightarrow> (\<forall>p < n. qss ! p = [])"
  by (induction n) (auto split: list.splits simp: less_Suc_eq)

lemma fifo_take_concat_None: "length qss = n \<Longrightarrow> fifo_take n qss = None \<longleftrightarrow> concat qss = []"
  by (auto simp: fifo_take_None) (metis in_set_conv_nth)

lemma fifo_take_mset:
  assumes "fifo_take n qss = Some (x, qss')" and "n \<le> length qss"
  shows "mset (concat qss) = mset (x # concat qss')" and "length qss' = length qss"
proof -
  from assms(1) obtain p xs where "p < n" "qss ! p = x # xs" "qss' = qss[p := xs]"
    unfolding fifo_take_Some by blast
  with assms(2) show "mset (concat qss) = mset (x # concat qss')" "length qss' = length qss"
    using mset_concat_tl [of p qss x xs] by simp_all
qed

text \<open>Taking the first request of a level.\<close>

lemma level_shift:
  assumes level: "level_rep h q p (x # xs)" and len: "length (qs q) = 9" "length (qe q) = 9" and p: "p < 9"
  obtains r where "qs q ! p = Some x" "h x = Some r"
    and "level_rep h (let q = q\<lparr>qs := (qs q)[p := next_req r]\<rparr> in
           if next_req r = None then q\<lparr>qe := (qe q)[p := None]\<rparr> else q) p xs"
proof -
  from level obtain r where r: "qs q ! p = Some x" "h x = Some r" "chain (nexts h) (next_req r) xs"
    by (auto simp: level_rep_def nexts_def split: option.splits)
  have "next_req r = None \<longleftrightarrow> xs = []" using r(3) by (cases xs) auto
  with level r len p have "level_rep h (let q = q\<lparr>qs := (qs q)[p := next_req r]\<rparr> in
           if next_req r = None then q\<lparr>qe := (qe q)[p := None]\<rparr> else q) p xs"
    by (auto simp: level_rep_def last_ptr_Cons)
  with r(1,2) show thesis by (rule that)
qed

lemma reqq_scan_level:
  assumes "fifo_take n qss = Some (x, qss')" and "n \<le> 9"
    and "length (qs q) = 9" "length (qe q) = 9" "length qss = 9"
    and "\<And>p. p < 9 \<Longrightarrow> level_rep h q p (qss ! p)"
  shows "\<exists>q'. reqq_scan n q h = Some (Some x, q') \<and> qsize q' = qsize q \<and>
     length (qs q') = 9 \<and> length (qe q') = 9 \<and> (\<forall>p < 9. level_rep h q' p (qss' ! p))"
  using assms
proof (induction n)
  case 0
  then show ?case by simp
next
  case (Suc n)
  note level = Suc.prems(6)
  show ?case
  proof (cases "qss ! n")
    case Nil
    with Suc.prems level [of n] have "qs q ! n = None" by (simp add: level_rep_def)
    with Suc Nil show ?thesis by simp
  next
    case (Cons y ys)
    with Suc.prems have n: "n < 9" "y = x" "qss' = qss[n := ys]" by auto
    with level [of n] Cons have lv: "level_rep h q n (x # ys)" by simp
    obtain r where r: "qs q ! n = Some x" "h x = Some r"
      and l: "level_rep h (let q = q\<lparr>qs := (qs q)[n := next_req r]\<rparr> in
           if next_req r = None then q\<lparr>qe := (qe q)[n := None]\<rparr> else q) n ys"
      by (rule level_shift [OF lv Suc.prems(3,4) n(1)])
    let ?q = "let q = q\<lparr>qs := (qs q)[n := next_req r]\<rparr> in
           if next_req r = None then q\<lparr>qe := (qe q)[n := None]\<rparr> else q"
    have "level_rep h ?q p (qss' ! p)" if "p < 9" for p
    proof (cases "p = n")
      case True
      with l n Suc.prems(5) show ?thesis by simp
    next
      case False
      have "level_rep h ?q p (qss ! p)"
        by (rule level_rep_frame [OF level [OF that]]) (use False in \<open>auto simp: Let_def\<close>)
      with False n show ?thesis by simp
    qed
    moreover have "reqq_scan (Suc n) q h = Some (Some x, ?q)" using r by (simp add: Let_def)
    moreover have "qsize ?q = qsize q" "length (qs ?q) = 9" "length (qe ?q) = 9"
      using Suc.prems(3,4) by (simp_all add: Let_def)
    ultimately show ?thesis by blast
  qed
qed

lemma reqq_shift_empty: "reqq_rep h q qss \<Longrightarrow> concat qss = [] \<Longrightarrow> reqq_shift q h = Some (None, q)"
  using reqq_repD(6) [of h q qss] by (simp add: reqq_shift_def)

lemma reqq_shift_rep:
  assumes rep: "reqq_rep h q qss" and take: "fifo_take 9 qss = Some (x, qss')"
    and room: "int (length (concat qss)) \<le> INT_MAX"
  shows "\<exists>q'. reqq_shift q h = Some (Some x, q') \<and> reqq_rep h q' qss'"
proof -
  note D = reqq_repD [OF rep]
  from fifo_take_mset [OF take] D(3)
  have m: "mset (concat qss) = mset (x # concat qss')" and len: "length qss' = 9" by simp_all
  from mset_eq_length [OF m] have size: "length (concat qss) = Suc (length (concat qss'))" by simp
  let ?q = "q\<lparr>qsize := int (length (concat qss'))\<rparr>"
  have "level_rep h ?q p (qss ! p)" if "p < 9" for p
    by (rule level_rep_frame [OF D(4) [OF that]]) auto
  with reqq_scan_level [OF take, of ?q h] D(1-3) obtain q' where
    q': "reqq_scan 9 ?q h = Some (Some x, q')" "qsize q' = int (length (concat qss'))"
      "length (qs q') = 9" "length (qe q') = 9" "\<forall>p < 9. level_rep h q' p (qss' ! p)"
    by auto
  have "distinct (concat qss')" using mset_eq_imp_distinct_iff [OF m] D(5) by simp
  with q' len have "reqq_rep h q' qss'" by (simp add: reqq_rep_def)
  moreover have "reqq_shift q h = Some (Some x, q')"
    using q'(1) D(6) size room by (simp add: reqq_shift_def INT_MIN_def)
  ultimately show ?thesis by blast
qed

section \<open>The interface of a queue with levels\<close>

text \<open>Pushing a list of items one after the other, and shifting \<open>n\<close> times.\<close>

fun push_all :: "('a \<Rightarrow> 's \<Rightarrow> (int \<times> 's) option) \<Rightarrow> 'a list \<Rightarrow> 's \<Rightarrow> 's option" where
  "push_all push [] s = Some s"
| "push_all push (x # xs) s = do { (n, s) \<leftarrow> push x s; push_all push xs s }"

fun shift_all :: "('s \<Rightarrow> ('a option \<times> 's) option) \<Rightarrow> nat \<Rightarrow> 's \<Rightarrow> ('a option list \<times> 's) option" where
  "shift_all shift 0 s = Some ([], s)"
| "shift_all shift (Suc n) s = do {
     (x, s) \<leftarrow> shift s;
     (xs, s) \<leftarrow> shift_all shift n s;
     Some (x # xs, s) }"

lemma concat_rev_update:
  assumes "p < length qss" and "qss ! p = x # xs" and "\<And>k. p < k \<Longrightarrow> k < length qss \<Longrightarrow> qss ! k = []"
  shows "concat (rev qss) = x # concat (rev (qss[p := xs]))"
proof -
  have tl: "concat (rev (drop (Suc p) qss)) = []"
    using assms(3) by (auto simp: in_set_conv_nth)
  have "qss = take p qss @ (x # xs) # drop (Suc p) qss"
    using assms(1,2) by (metis id_take_nth_drop)
  moreover have "qss[p := xs] = take p qss @ xs # drop (Suc p) qss"
    using assms(1) by (rule upd_conv_take_nth_drop)
  ultimately show ?thesis using tl
    by (metis concat.simps(2) concat_append append_Nil append_Cons rev.simps(2) rev_append append_assoc concat.simps(1) append_Nil2)
qed

text \<open>Grouping by level, highest first, is the stable sort by descending level.\<close>

lemma levels_sort_key:
  assumes "\<And>x. x \<in> set xs \<Longrightarrow> lev x < n"
  shows "concat (rev (map (\<lambda>p. filter (\<lambda>x. lev x = p) xs) [0..<n])) = sort_key (\<lambda>x. - int (lev x)) xs"
proof -
  let ?g = "\<lambda>n. concat (rev (map (\<lambda>p. filter (\<lambda>x. lev x = p) xs) [0..<n]))"
  have m: "mset (?g n) = mset (filter (\<lambda>x. lev x < n) xs)" for n
  proof (induction n)
    case (Suc n)
    have "mset (filter (\<lambda>x. lev x = n) ys) + mset (filter (\<lambda>x. lev x < n) ys) =
          mset (filter (\<lambda>x. lev x < Suc n) ys)" for ys
      by (induction ys) auto
    with Suc show ?case by simp
  qed simp
  have f: "filter (\<lambda>x. lev x = k) (?g n) = (if k < n then filter (\<lambda>x. lev x = k) xs else [])" for n k
    by (induction n) (auto simp: less_Suc_eq intro: filter_cong)
  have s: "sorted (map (\<lambda>x. - int (lev x)) (?g n))" for n
  proof (induction n)
    case (Suc n)
    have "sorted (map (\<lambda>x. - int (lev x)) (filter (\<lambda>x. lev x = n) ys))" for ys
      by (induction ys) auto
    with Suc show ?case by (auto simp: sorted_append)
  qed simp
  show ?thesis
  proof (rule properties_for_sort_key [symmetric])
    show "mset (?g n) = mset xs" using m [of n] assms by (simp add: filter_id_conv)
    fix k assume "k \<in> set (?g n)"
    then have "lev k < n" by auto
    moreover have "(\<lambda>x. - int (lev k) = - int (lev x)) = (\<lambda>x. lev x = lev k)" by auto
    ultimately show "filter (\<lambda>x. - int (lev k) = - int (lev x)) (?g n) =
        filter (\<lambda>x. - int (lev k) = - int (lev x)) xs"
      using f [of "lev k" n] by (simp only: if_True)
  qed (rule s)
qed

locale prio_fifo =
  fixes rep :: "'s \<Rightarrow> 'a list list \<Rightarrow> bool"
    and level :: "'s \<Rightarrow> 'a \<Rightarrow> nat option"
    and push :: "'a \<Rightarrow> 's \<Rightarrow> (int \<times> 's) option"
    and shift :: "'s \<Rightarrow> ('a option \<times> 's) option"
  assumes rep_levels: "rep s qss \<Longrightarrow> length qss = 9"
    and level_less: "level s x = Some p \<Longrightarrow> p < 9"
    and push_rep: "rep s qss \<Longrightarrow> level s x = Some p \<Longrightarrow> x \<notin> set (concat qss) \<Longrightarrow>
          int (length (concat qss)) < INT_MAX \<Longrightarrow>
          \<exists>s'. push x s = Some (int (length (concat qss)), s') \<and>
               rep s' (fifo_push p x qss) \<and> level s' = level s"
    and shift_none: "rep s qss \<Longrightarrow> concat qss = [] \<Longrightarrow> shift s = Some (None, s)"
    and shift_rep: "rep s qss \<Longrightarrow> fifo_take 9 qss = Some (x, qss') \<Longrightarrow>
          int (length (concat qss)) \<le> INT_MAX \<Longrightarrow>
          \<exists>s'. shift s = Some (Some x, s') \<and> rep s' qss'"
begin

text \<open>What \<open>n\<close> pushes leave in each level.\<close>

lemma push_all_rep:
  assumes "rep s qss" and "\<And>x. x \<in> set xs \<Longrightarrow> level s x = Some (lev x)"
    and "distinct (concat qss @ xs)" and "int (length (concat qss @ xs)) \<le> INT_MAX"
  shows "\<exists>s'. push_all push xs s = Some s' \<and>
    rep s' (map (\<lambda>p. qss ! p @ filter (\<lambda>x. lev x = p) xs) [0..<9])"
  using assms
proof (induction xs arbitrary: s qss)
  case Nil
  then have "map ((!) qss) [0..<9] = qss" using rep_levels [of s qss] by (metis map_nth)
  with Nil show ?case by simp
next
  case (Cons x xs)
  let ?q = "fifo_push (lev x) x qss"
  note len = rep_levels [OF Cons.prems(1)]
  have lx: "level s x = Some (lev x)" and l9: "lev x < 9"
    using Cons.prems(2) [of x] level_less by auto
  from push_rep [OF Cons.prems(1) lx] Cons.prems(3,4) obtain s'
    where s': "push x s = Some (int (length (concat qss)), s')" "rep s' ?q" "level s' = level s"
    by auto
  have m: "mset (concat ?q) = mset (x # concat qss)"
    using l9 len by (simp add: fifo_push_def mset_concat_snoc)
  then have "mset (concat ?q @ xs) = mset (concat qss @ x # xs)" by simp
  from mset_eq_imp_distinct_iff [OF this] mset_eq_length [OF this] Cons.prems(3,4)
  have "distinct (concat ?q @ xs)" "int (length (concat ?q @ xs)) \<le> INT_MAX" by simp_all
  from Cons.IH [OF s'(2) _ this] s'(3) Cons.prems(2) obtain s'' where
    "push_all push xs s' = Some s''"
    "rep s'' (map (\<lambda>p. ?q ! p @ filter (\<lambda>x. lev x = p) xs) [0..<9])" by auto
  moreover have "map (\<lambda>p. ?q ! p @ filter (\<lambda>x. lev x = p) xs) [0..<9] =
      map (\<lambda>p. qss ! p @ filter (\<lambda>x. lev x = p) (x # xs)) [0..<9]"
    using l9 len by (auto simp: fifo_push_def nth_list_update)
  ultimately show ?case using s'(1) by auto
qed

text \<open>Shifting everything out.\<close>

lemma shift_all_rep:
  assumes "rep s qss" and "int (length (concat qss)) \<le> INT_MAX" and "n = length (concat qss)"
  shows "\<exists>s'. shift_all shift n s = Some (map Some (concat (rev qss)), s') \<and> rep s' (replicate 9 [])"
  using assms
proof (induction n arbitrary: s qss)
  case 0
  then have "qss = replicate 9 []"
    using rep_levels [OF 0(1)] by (intro replicate_eqI) auto
  with 0 show ?case by (simp add: rev_replicate)
next
  case (Suc n)
  note len = rep_levels [OF Suc.prems(1)]
  have "concat qss \<noteq> []" using Suc.prems(3) by (metis length_0_conv nat.distinct(1))
  then obtain x qss' where take: "fifo_take 9 qss = Some (x, qss')"
    using fifo_take_concat_None [OF len] by (cases "fifo_take 9 qss") auto
  from shift_rep [OF Suc.prems(1) take Suc.prems(2)] obtain s'
    where s': "shift s = Some (Some x, s')" "rep s' qss'" by blast
  from take obtain p xs where p: "p < 9" "qss ! p = x # xs" "\<forall>k. p < k \<and> k < 9 \<longrightarrow> qss ! k = []"
    "qss' = qss[p := xs]" unfolding fifo_take_Some by blast
  with len concat_rev_update [of p qss x xs] have c: "concat (rev qss) = x # concat (rev qss')" by simp
  from mset_eq_length [OF fifo_take_mset(1) [OF take]] len Suc.prems(2,3)
  have "int (length (concat qss')) \<le> INT_MAX" "n = length (concat qss')" by simp_all
  from Suc.IH [OF s'(2) this] s'(1) c show ?case by auto
qed

text \<open>Pushing onto an empty queue and emptying it is a stable sort by descending level.\<close>

lemma push_shift_sorts:
  assumes "rep s (replicate 9 [])" and "\<And>x. x \<in> set xs \<Longrightarrow> level s x = Some (lev x)"
    and "distinct xs" and "int (length xs) \<le> INT_MAX"
  shows "\<exists>s' s''. push_all push xs s = Some s' \<and>
     shift_all shift (length xs) s' = Some (map Some (sort_key (\<lambda>x. - int (lev x)) xs), s'') \<and>
     rep s'' (replicate 9 [])"
proof -
  let ?qss = "map (\<lambda>p. filter (\<lambda>x. lev x = p) xs) [0..<9]"
  have "map (\<lambda>p. replicate 9 [] ! p @ filter (\<lambda>x. lev x = p) xs) [0..<9] = ?qss" by simp
  with push_all_rep [OF assms(1,2), of xs] assms(3,4) obtain s'
    where s': "push_all push xs s = Some s'" "rep s' ?qss" by auto
  have sorted: "concat (rev ?qss) = sort_key (\<lambda>x. - int (lev x)) xs"
    by (rule levels_sort_key) (use assms(2) level_less in blast)
  have "length (concat (rev ?qss)) = length xs" unfolding sorted by simp
  then have len: "length (concat ?qss) = length xs"
    by (metis (no_types, lifting) length_rev mset_concat mset_rev rev_concat size_mset mset_map sum_mset_sum_list rev_map)
  with shift_all_rep [OF s'(2)] assms(4) sorted s'(1) show ?thesis by auto
qed

end

section \<open>The queue of the code provides it\<close>

definition q_shift :: "etp_reqq \<times> heap \<Rightarrow> (ptr \<times> etp_reqq \<times> heap) option" where
  "q_shift = (\<lambda>(q, h). do { (x, q) \<leftarrow> reqq_shift q h; Some (x, q, h) })"

definition q_push :: "addr \<Rightarrow> etp_reqq \<times> heap \<Rightarrow> (int \<times> etp_reqq \<times> heap) option" where
  "q_push x = (\<lambda>(q, h). reqq_push q x h)"

definition q_level :: "etp_reqq \<times> heap \<Rightarrow> addr \<Rightarrow> nat option" where
  "q_level = (\<lambda>(q, h) x. Option.bind (h x) pri_index)"

definition q_rep :: "etp_reqq \<times> heap \<Rightarrow> addr list list \<Rightarrow> bool" where
  "q_rep = (\<lambda>(q, h). reqq_rep h q)"

lemma q_level_next_only:
  assumes "next_only A h h'"
  shows "q_level (q', h') = q_level (q, h)"
proof
  fix x
  from assms have "map_option (next_req_update (\<lambda>_. None)) (h' x) =
      map_option (next_req_update (\<lambda>_. None)) (h x)" by (simp add: next_only_def)
  then have "map_option (pri \<circ> next_req_update (\<lambda>_. None)) (h' x) =
      map_option (pri \<circ> next_req_update (\<lambda>_. None)) (h x)" by (metis option.map_comp)
  then have "map_option pri (h' x) = map_option pri (h x)" by (simp add: comp_def)
  then show "q_level (q', h') x = q_level (q, h) x"
    by (cases "h x"; cases "h' x") (simp_all add: q_level_def pri_index_def)
qed

interpretation reqq: prio_fifo q_rep q_level q_push q_shift
proof unfold_locales
  fix s :: "etp_reqq \<times> heap" and qss x p
  assume "q_rep s qss" "q_level s x = Some p" "x \<notin> set (concat qss)" "int (length (concat qss)) < INT_MAX"
  then show "\<exists>s'. q_push x s = Some (int (length (concat qss)), s') \<and>
      q_rep s' (fifo_push p x qss) \<and> q_level s' = q_level s"
    using reqq_push_rep [of "snd s" "fst s" qss x] q_level_next_only [where q = "fst s"]
    by (fastforce simp: q_rep_def q_push_def q_level_def split_beta bind_eq_Some_conv)
next
  fix s :: "etp_reqq \<times> heap" and qss x qss'
  assume "q_rep s qss" "fifo_take 9 qss = Some (x, qss')" "int (length (concat qss)) \<le> INT_MAX"
  then show "\<exists>s'. q_shift s = Some (Some x, s') \<and> q_rep s' qss'"
    using reqq_shift_rep [of "snd s" "fst s" qss x qss']
    by (auto simp: q_rep_def q_shift_def split_beta)
qed (auto simp: q_rep_def q_level_def q_shift_def bind_eq_Some_conv pri_index_Some reqq_shift_empty
      dest: reqq_repD(3))

section \<open>The order of service\<close>

text \<open>C5: whatever requests are pushed onto an empty queue, shifting them all returns them in the
  stable order of descending priority: highest priority first, and in the order of submission
  within a priority. No push or shift fails, aborts or leaves an array.\<close>

theorem queue_serves_by_priority:
  assumes "distinct xs" and "int (length xs) \<le> INT_MAX"
    and "\<And>x. x \<in> set xs \<Longrightarrow> \<exists>r. h x = Some r \<and> pri_index r = Some (lev x)"
  shows "\<exists>s' s''. push_all q_push xs (reqq_empty, h) = Some s' \<and>
    shift_all q_shift (length xs) s' = Some (map Some (sort_key (\<lambda>x. - int (lev x)) xs), s'') \<and>
    qsize (fst s'') = 0"
proof -
  have rep: "q_rep (reqq_empty, h) (replicate 9 [])"
    using reqq_rep_empty [of h] by (simp add: q_rep_def)
  have lev: "q_level (reqq_empty, h) x = Some (lev x)" if "x \<in> set xs" for x
    using assms(3) [OF that] by (auto simp: q_level_def)
  from reqq.push_shift_sorts [OF rep lev assms(1,2)] obtain s' s'' where
    s: "push_all q_push xs (reqq_empty, h) = Some s'"
    "shift_all q_shift (length xs) s' = Some (map Some (sort_key (\<lambda>x. - int (lev x)) xs), s'')"
    "q_rep s'' (replicate 9 [])" by blast
  have "qsize (fst s'') = 0"
    using s(3) reqq_repD(6) [of "snd s''" "fst s''" "replicate 9 []"]
    by (cases s'') (simp add: q_rep_def)
  with s(1,2) show ?thesis by blast
qed

theorem queue_serves_by_priority_witness:
  "\<exists>s' s''. push_all q_push [16, 32, 48]
      (reqq_empty, [16 \<mapsto> zero_req\<lparr>pri := 4\<rparr>, 32 \<mapsto> zero_req\<lparr>pri := 8\<rparr>, 48 \<mapsto> zero_req\<lparr>pri := 4\<rparr>]) = Some s' \<and>
    shift_all q_shift 3 s' = Some ([Some 32, Some 16, Some 48], s'') \<and> qsize (fst s'') = 0"
proof -
  let ?lev = "\<lambda>x :: addr. if x = 32 then 8 else 4 :: nat"
  let ?h = "[16 \<mapsto> zero_req\<lparr>pri := 4\<rparr>, 32 \<mapsto> zero_req\<lparr>pri := 8\<rparr>, 48 \<mapsto> zero_req\<lparr>pri := 4\<rparr>] :: heap"
  have "\<exists>r. ?h x = Some r \<and> pri_index r = Some (?lev x)" if "x \<in> set [16, 32, 48]" for x
    using that by (auto simp: pri_index_def)
  moreover have "sort_key (\<lambda>x. - int (?lev x)) [16, 32, 48] = [32, 16, 48]" by simp
  ultimately show ?thesis
    using queue_serves_by_priority [of "[16, 32, 48]" ?h ?lev]
    by (simp add: INT_MAX_def numeral_3_eq_3 del: push_all.simps shift_all.simps)
qed

end
