(* ===== verification/Etp_Worker.thy ===== *)
theory Etp_Worker
  imports Eio_Req
begin

text \<open>
  The worker records of \<open>src/libeio/eio.c\<close>: a ring of \<open>etp_worker\<close>s doubly linked through \<open>prev\<close> and
  \<open>next\<close>, with the static \<open>wrk_first\<close> as its sentinel. \<open>ring w xs\<close> says that the worker heap \<open>w\<close>
  holds the ring of the workers \<open>xs\<close>; linking and unlinking are proved against it.
\<close>

section \<open>Workers\<close>

record etp_worker =
  wrk_prev :: addr
  wrk_next :: addr
  wrk_req :: ptr        \<comment> \<open>\<open>req\<close>: the request being processed\<close>
  dbuf :: "64 word"
  dirp :: "64 word"

type_synonym wheap = "addr \<Rightarrow> etp_worker option"

text \<open>The address of the static \<open>wrk_first\<close>: some address that is not null.\<close>

definition wrk_first :: addr where "wrk_first = 8"

text \<open>\<open>calloc (1, sizeof (etp_worker))\<close> and the initial ring.\<close>

definition zero_worker :: etp_worker where
  "zero_worker = \<lparr>wrk_prev = 0, wrk_next = 0, wrk_req = None, dbuf = 0, dirp = 0\<rparr>"

definition wrks_init :: wheap where
  "wrks_init = [wrk_first \<mapsto> zero_worker\<lparr>wrk_prev := wrk_first, wrk_next := wrk_first\<rparr>]"

definition wupd :: "addr \<Rightarrow> (etp_worker \<Rightarrow> etp_worker) \<Rightarrow> wheap \<Rightarrow> wheap option" where
  "wupd a f w = (case w a of None \<Rightarrow> None | Some r \<Rightarrow> Some (w(a \<mapsto> f r)))"

lemma wupd_ok [simp]: "w a = Some r \<Longrightarrow> wupd a f w = Some (w(a \<mapsto> f r))"
  by (simp add: wupd_def)

text \<open>The linking done by \<open>etp_start_thread\<close> once the thread has been created.\<close>

definition etp_worker_link :: "addr \<Rightarrow> wheap \<Rightarrow> wheap option" where
  "etp_worker_link wrk w = do {
     w \<leftarrow> wupd wrk (wrk_prev_update (\<lambda>_. wrk_first)) w;
     first \<leftarrow> w wrk_first;
     w \<leftarrow> wupd wrk (wrk_next_update (\<lambda>_. wrk_next first)) w;
     first \<leftarrow> w wrk_first;
     w \<leftarrow> wupd (wrk_next first) (wrk_prev_update (\<lambda>_. wrk)) w;
     wupd wrk_first (wrk_next_update (\<lambda>_. wrk)) w }"

definition etp_worker_free :: "addr \<Rightarrow> wheap \<Rightarrow> wheap option" where
  "etp_worker_free wrk w = do {
     r \<leftarrow> w wrk;
     w \<leftarrow> wupd (wrk_next r) (wrk_prev_update (\<lambda>_. wrk_prev r)) w;
     r \<leftarrow> w wrk;
     w \<leftarrow> wupd (wrk_prev r) (wrk_next_update (\<lambda>_. wrk_next r)) w;
     Some (w(wrk := None)) }"

text \<open>
  \<open>ETP_WORKER_CLEAR\<close>: what it frees (the buffer, then the open directory) and the cleared record.
\<close>

definition etp_worker_clear :: "addr \<Rightarrow> wheap \<Rightarrow> (64 word list \<times> 64 word list \<times> wheap) option" where
  "etp_worker_clear wrk w = do {
     r \<leftarrow> w wrk;
     Some (if dbuf r \<noteq> 0 then [dbuf r] else [], if dirp r \<noteq> 0 then [dirp r] else [],
           w(wrk \<mapsto> r\<lparr>dbuf := 0, dirp := 0\<rparr>)) }"

section \<open>The ring\<close>

text \<open>\<open>linked w a b\<close>: \<open>b\<close> follows \<open>a\<close> in the ring.\<close>

definition linked :: "wheap \<Rightarrow> addr \<Rightarrow> addr \<Rightarrow> bool" where
  "linked w a b \<longleftrightarrow> map_option wrk_next (w a) = Some b \<and> map_option wrk_prev (w b) = Some a"

fun seg :: "wheap \<Rightarrow> addr \<Rightarrow> addr list \<Rightarrow> addr \<Rightarrow> bool" where
  "seg w a [] b \<longleftrightarrow> linked w a b"
| "seg w a (x # xs) b \<longleftrightarrow> linked w a x \<and> seg w x xs b"

definition ring :: "wheap \<Rightarrow> addr list \<Rightarrow> bool" where
  "ring w xs \<longleftrightarrow> distinct (wrk_first # xs) \<and> seg w wrk_first xs wrk_first"

lemma ring_init: "ring wrks_init []"
  by (simp add: ring_def linked_def wrks_init_def)

lemma seg_append: "seg w a (xs @ y # ys) b \<longleftrightarrow> seg w a xs y \<and> seg w y ys b"
  by (induction xs arbitrary: a) auto

text \<open>Only the successors of all but the last and the predecessors of all but the first matter.\<close>

lemma seg_cong:
  assumes "\<And>x. x \<in> set (a # xs) \<Longrightarrow> map_option wrk_next (w' x) = map_option wrk_next (w x)"
    and "\<And>x. x \<in> set (xs @ [b]) \<Longrightarrow> map_option wrk_prev (w' x) = map_option wrk_prev (w x)"
  shows "seg w' a xs b = seg w a xs b"
  using assms by (induction xs arbitrary: a) (auto simp: linked_def)

lemma seg_alloc: "seg w a xs b \<Longrightarrow> x \<in> set (a # xs @ [b]) \<Longrightarrow> w x \<noteq> None"
  by (induction xs arbitrary: a) (auto simp: linked_def)

lemma ring_alloc: "ring w xs \<Longrightarrow> x = wrk_first \<or> x \<in> set xs \<Longrightarrow> w x \<noteq> None"
  using seg_alloc [of w wrk_first xs wrk_first x] by (auto simp: ring_def)

text \<open>Members other than the links do not matter.\<close>

lemma ring_frame:
  assumes "\<And>x. x = wrk_first \<or> x \<in> set xs \<Longrightarrow>
      map_option (\<lambda>r. (wrk_prev r, wrk_next r)) (w' x) = map_option (\<lambda>r. (wrk_prev r, wrk_next r)) (w x)"
  shows "ring w' xs = ring w xs"
proof -
  have "map_option wrk_next (w' x) = map_option wrk_next (w x) \<and>
      map_option wrk_prev (w' x) = map_option wrk_prev (w x)" if "x = wrk_first \<or> x \<in> set xs" for x
    using assms [OF that] by (cases "w x"; cases "w' x") auto
  then have "seg w' wrk_first xs wrk_first = seg w wrk_first xs wrk_first"
    by (intro seg_cong) auto
  then show ?thesis by (simp add: ring_def)
qed

lemma worker_link_ring:
  assumes ring: "ring w xs" and fresh: "wrk \<notin> set (wrk_first # xs)" and r: "w wrk = Some r"
  shows "\<exists>w'. etp_worker_link wrk w = Some w' \<and> ring w' (wrk # xs) \<and>
    (\<forall>a. map_option wrk_req (w' a) = map_option wrk_req (w a))"
proof -
  from ring obtain f where f: "w wrk_first = Some f" using ring_alloc by blast
  define n where "n = wrk_next f"
  have n: "n = (case xs of [] \<Rightarrow> wrk_first | x # _ \<Rightarrow> x)"
    using ring f by (auto simp: ring_def linked_def n_def split: list.splits)
  then have "n = wrk_first \<or> n \<in> set xs" by (cases xs) auto
  with ring fresh obtain g where g: "w n = Some g" "n \<noteq> wrk" using ring_alloc by fastforce
  let ?r = "r\<lparr>wrk_prev := wrk_first, wrk_next := n\<rparr>"
  let ?w = "w(wrk \<mapsto> ?r, n \<mapsto> g\<lparr>wrk_prev := wrk\<rparr>)"
  obtain f' where f': "?w wrk_first = Some f'" "wrk_req f' = wrk_req f" "wrk_prev f' = (if n = wrk_first then wrk else wrk_prev f)"
    using f g fresh by (cases "n = wrk_first") auto
  let ?w' = "?w(wrk_first \<mapsto> f'\<lparr>wrk_next := wrk\<rparr>)"
  have "wrk_first \<noteq> wrk" using fresh by auto
  then have "etp_worker_link wrk w = Some ?w'"
    using r f g f'(1) unfolding n_def by (simp add: etp_worker_link_def)
  moreover have "map_option wrk_req (?w' a) = map_option wrk_req (w a)" for a
    using r f g f' fresh by auto
  moreover have "ring ?w' (wrk # xs)"
  proof (cases xs)
    case Nil
    with n f' fresh show ?thesis by (auto simp: ring_def linked_def)
  next
    case (Cons x ys)
    with n ring fresh have x: "n = x" "x \<noteq> wrk_first" "wrk \<noteq> x" "x \<notin> set ys" "wrk_first \<notin> set ys"
      "wrk \<notin> set ys" "wrk \<noteq> wrk_first"
      by (auto simp: ring_def)
    have "seg ?w' x ys wrk_first = seg w x ys wrk_first"
      using x f f' g by (intro seg_cong) auto
    with x Cons ring fresh show ?thesis by (auto simp: ring_def linked_def)
  qed
  ultimately show ?thesis by blast
qed

lemma seg_unlink:
  assumes seg: "seg w a (ys @ x # zs) b" and r: "w x = Some r"
    and dist: "distinct (ys @ x # zs)" "a \<notin> set (ys @ x # zs)" "b \<notin> set (ys @ x # zs)"
  shows "wrk_prev r = last (a # ys)" "wrk_next r = hd (zs @ [b])"
  using assms by (induction ys arbitrary: a; cases zs; fastforce simp: linked_def)+

lemma worker_free_ring:
  assumes ring: "ring w xs" and x: "x \<in> set xs"
  shows "\<exists>w'. etp_worker_free x w = Some w' \<and> ring w' (remove1 x xs) \<and> w' x = None \<and>
    (\<forall>a. a \<noteq> x \<longrightarrow> map_option wrk_req (w' a) = map_option wrk_req (w a))"
proof -
  from x obtain ys zs where xs: "xs = ys @ x # zs" by (meson split_list)
  have dist: "distinct (wrk_first # ys @ x # zs)" and seg: "seg w wrk_first (ys @ x # zs) wrk_first"
    using ring xs by (simp_all add: ring_def)
  obtain r where r: "w x = Some r" using ring_alloc [OF ring] x by blast
  define p n where "p = wrk_prev r" and "n = wrk_next r"
  have pn: "p = last (wrk_first # ys)" "n = hd (zs @ [wrk_first])"
    using seg_unlink [OF seg r] dist by (auto simp: p_def n_def)
  have "p \<in> set (wrk_first # ys)" unfolding pn by (rule last_in_set) simp
  moreover have "n \<in> set (zs @ [wrk_first])" unfolding pn by (rule hd_in_set) simp
  ultimately have mem: "p = wrk_first \<or> p \<in> set xs" "n = wrk_first \<or> n \<in> set xs" "p \<noteq> x" "n \<noteq> x"
    using xs dist by auto
  then obtain g where g: "w n = Some g" using ring_alloc [OF ring] by blast
  let ?w = "w(n \<mapsto> g\<lparr>wrk_prev := p\<rparr>)"
  obtain f where f: "?w p = Some f"
    using ring_alloc [OF ring mem(1)] by (cases "p = n") auto
  let ?w' = "?w(p \<mapsto> f\<lparr>wrk_next := n\<rparr>, x := None)"
  have "etp_worker_free x w = Some ?w'"
    using r g f mem by (simp add: etp_worker_free_def p_def n_def)
  moreover have "map_option wrk_req (?w' a) = map_option wrk_req (w a)" if "a \<noteq> x" for a
    using f g that by (auto split: if_splits)
  moreover have "ring ?w' (ys @ zs)"
  proof -
    have link: "linked ?w' p n" using f mem by (auto simp: linked_def split: if_splits)
    have keep: "seg ?w' a l b = seg w a l b"
      if "p \<notin> set (a # l)" "n \<notin> set (l @ [b])" "x \<notin> set (a # l @ [b])" for a l b
      using that f g by (intro seg_cong) (auto split: if_splits)
    have segs: "seg w wrk_first ys x" "seg w x zs wrk_first" using seg by (simp_all add: seg_append)
    show ?thesis
      by (cases ys rule: rev_cases; cases zs)
        (use pn link keep segs dist in \<open>auto simp: ring_def seg_append\<close>)
  qed
  ultimately show ?thesis using xs dist by (auto simp: remove1_append)
qed

end
