(* ===== verification/Etp_Pool.thy ===== *)
theory Etp_Pool
  imports Req_Queue Etp_Worker
begin

text \<open>
  The static state of the thread pool of \<open>src/libeio/eio.c\<close> and the operations of the submitting
  thread: initialisation, the counters, starting and ending threads, \<open>etp_submit\<close> and the setters.

  Each \<open>X_LOCK ... X_UNLOCK\<close> section is a definition of its own where another thread can run
  between two of them. \<open>calloc\<close> and \<open>thread_create\<close> are answered by arguments. The calls that
  leave the library without changing its state (the two poll callbacks, the condition signal,
  \<open>free\<close> of a worker's buffer, \<open>closedir\<close>) are recorded in \<open>trace\<close>, oldest last.
\<close>

section \<open>State\<close>

datatype event =
  Want_poll
| Done_poll
| Cond_signal
| Free_buf "64 word"
| Close_dir "64 word"
| Free_req addr
| Client "64 word" "int list"   \<comment> \<open>what the client's function at an address prints or stores\<close>

record etp =
  reqs :: heap
  wrks :: wheap
  req_queue :: etp_reqq
  res_queue :: etp_reqq
  started :: "32 word"
  idle :: "32 word"
  wanted :: "32 word"
  want_poll_cb :: code_ptr
  done_poll_cb :: code_ptr
  max_poll_time :: "32 word"
  max_poll_reqs :: "32 word"
  nreqs :: "32 word"
  nready :: "32 word"
  npending :: "32 word"
  max_idle :: "32 word"
  idle_timeout :: "32 word"
  trace :: "event list"

text \<open>The static initialisers.\<close>

definition etp_start :: "heap \<Rightarrow> etp" where
  "etp_start h =
    \<lparr>reqs = h, wrks = wrks_init, req_queue = reqq_empty, res_queue = reqq_empty,
     started = 0, idle = 0, wanted = 4, want_poll_cb = None, done_poll_cb = None,
     max_poll_time = 0, max_poll_reqs = 0, nreqs = 0, nready = 0, npending = 0,
     max_idle = 4, idle_timeout = 10, trace = []\<rparr>"

definition etp_init :: "code_ptr \<Rightarrow> code_ptr \<Rightarrow> etp \<Rightarrow> int \<times> etp" where
  "etp_init want_poll done_poll s = (0, s\<lparr>want_poll_cb := want_poll, done_poll_cb := done_poll\<rparr>)"

text \<open>\<open>trace_if c e\<close>: the call \<open>e\<close> is made when \<open>c\<close>.\<close>

definition trace_if :: "bool \<Rightarrow> event \<Rightarrow> etp \<Rightarrow> etp" where
  "trace_if c e s = (if c then s\<lparr>trace := e # trace s\<rparr> else s)"

section \<open>Counters\<close>

text \<open>The \<open>unsigned\<close> counter goes through an \<open>int retval\<close> and back.\<close>

definition etp_nreqs :: "etp \<Rightarrow> 32 word" where
  "etp_nreqs s = word_of_int (sint (nreqs s))"

definition etp_nready :: "etp \<Rightarrow> 32 word" where "etp_nready s = nready s"
definition etp_npending :: "etp \<Rightarrow> 32 word" where "etp_npending s = npending s"
definition etp_nthreads :: "etp \<Rightarrow> 32 word" where "etp_nthreads s = started s"

section \<open>Queue sections\<close>

text \<open>
  Pushing onto and shifting from a queue of the state. The first component of a push is the
  size before it.
\<close>

definition push_req :: "addr \<Rightarrow> etp \<Rightarrow> (int \<times> etp) option" where
  "push_req req s = do {
     (n, q, h) \<leftarrow> reqq_push (req_queue s) req (reqs s);
     Some (n, s\<lparr>req_queue := q, reqs := h\<rparr>) }"

definition push_res :: "addr \<Rightarrow> etp \<Rightarrow> (int \<times> etp) option" where
  "push_res req s = do {
     (n, q, h) \<leftarrow> reqq_push (res_queue s) req (reqs s);
     Some (n, s\<lparr>res_queue := q, reqs := h\<rparr>) }"

definition shift_req :: "etp \<Rightarrow> (ptr \<times> etp) option" where
  "shift_req s = do {
     (req, q) \<leftarrow> reqq_shift (req_queue s) (reqs s);
     Some (req, s\<lparr>req_queue := q\<rparr>) }"

definition shift_res :: "etp \<Rightarrow> (ptr \<times> etp) option" where
  "shift_res s = do {
     (req, q) \<leftarrow> reqq_shift (res_queue s) (reqs s);
     Some (req, s\<lparr>res_queue := q\<rparr>) }"

text \<open>
  The \<open>reslock\<close> section that puts a request into the result queue, in \<open>etp_submit\<close> (for a
  group) and in \<open>etp_proc\<close>.
\<close>

definition put_result :: "addr \<Rightarrow> etp \<Rightarrow> etp option" where
  "put_result req s = do {
     (n, s) \<leftarrow> push_res req (s\<lparr>npending := npending s + 1\<rparr>);
     Some (trace_if (n = 0 \<and> want_poll_cb s \<noteq> None) Want_poll s) }"

text \<open>The \<open>reslock\<close> section of \<open>etp_poll\<close>.\<close>

definition take_result :: "etp \<Rightarrow> (ptr \<times> etp) option" where
  "take_result s = do {
     (req, s) \<leftarrow> shift_res s;
     Some (case req of
         None \<Rightarrow> (None, s)
       | Some a \<Rightarrow>
           (Some a, trace_if (qsize (res_queue s) = 0 \<and> done_poll_cb s \<noteq> None) Done_poll
                      (s\<lparr>npending := npending s - 1\<rparr>))) }"

section \<open>Threads\<close>

text \<open>
  \<open>mem\<close> is what \<open>calloc\<close> returns, \<open>created\<close> whether \<open>thread_create\<close> succeeds. A null \<open>mem\<close>
  fails the assertion.
\<close>

definition etp_start_thread :: "ptr \<Rightarrow> bool \<Rightarrow> etp \<Rightarrow> etp option" where
  "etp_start_thread mem created s = do {
     wrk \<leftarrow> mem;
     (if created then do {
        w \<leftarrow> etp_worker_link wrk ((wrks s)(wrk \<mapsto> zero_worker));
        Some (s\<lparr>wrks := w, started := started s + 1\<rparr>) }
      else Some s) }"

definition etp_maybe_start_thread :: "ptr \<Rightarrow> bool \<Rightarrow> etp \<Rightarrow> etp option" where
  "etp_maybe_start_thread mem created s =
     (if etp_nthreads s \<ge> wanted s then Some s
      else do {
        n \<leftarrow> int_chk (sint (etp_nthreads s) + sint (etp_npending s));
        n \<leftarrow> int_chk (n - sint (etp_nreqs s));
        (if 0 \<le> n then Some s else etp_start_thread mem created s) })"

text \<open>The terminator: a request of type -1 at the highest priority. The counter \<open>nready\<close> is not
  raised for it.\<close>

definition terminator :: eio_req where
  "terminator = zero_req\<lparr>req_type := - 1, pri := to_schar (EIO_PRI_MAX - EIO_PRI_MIN)\<rparr>"

definition etp_end_thread :: "ptr \<Rightarrow> etp \<Rightarrow> etp option" where
  "etp_end_thread mem s = do {
     req \<leftarrow> mem;
     (n, s) \<leftarrow> push_req req (s\<lparr>reqs := (reqs s)(req \<mapsto> terminator)\<rparr>);
     (let s = trace_if True Cond_signal s
      in Some (s\<lparr>started := started s - 1\<rparr>)) }"

section \<open>Submitting\<close>

text \<open>
  The first lines of \<open>etp_submit\<close>, on the \<open>signed char\<close> member: \<open>pri -= ETP_PRI_MIN\<close> is
  converted back to eight bits, then both ends are clamped.
\<close>

definition submit_pri :: "8 word \<Rightarrow> 8 word" where
  "submit_pri p =
     (let p = to_schar (sint p - EIO_PRI_MIN);
          p = (if sint p < EIO_PRI_MIN - EIO_PRI_MIN then to_schar (EIO_PRI_MIN - EIO_PRI_MIN) else p)
      in if sint p > EIO_PRI_MAX - EIO_PRI_MIN then to_schar (EIO_PRI_MAX - EIO_PRI_MIN) else p)"

text \<open>The \<open>reqlock\<close> section that enters a request to be executed.\<close>

definition put_request :: "addr \<Rightarrow> etp \<Rightarrow> etp option" where
  "put_request req s = do {
     (n, s) \<leftarrow> push_req req (s\<lparr>nreqs := nreqs s + 1, nready := nready s + 1\<rparr>);
     Some (trace_if True Cond_signal s) }"

definition etp_submit :: "ptr \<Rightarrow> bool \<Rightarrow> addr \<Rightarrow> etp \<Rightarrow> etp option" where
  "etp_submit mem created req s = do {
     h \<leftarrow> upd req (\<lambda>r. r\<lparr>pri := submit_pri (pri r)\<rparr>) (reqs s);
     r \<leftarrow> h req;
     (let s = s\<lparr>reqs := h\<rparr>
      in if req_type r = type_code EIO_GROUP
         then put_result req (s\<lparr>nreqs := nreqs s + 1\<rparr>)
         else do {
           s \<leftarrow> put_request req s;
           etp_maybe_start_thread mem created s }) }"

text \<open>With threads enough \<open>etp_maybe_start_thread\<close> does nothing.\<close>

lemma no_start: "wanted s \<le> started s \<Longrightarrow> etp_maybe_start_thread mem created s = Some s"
  by (simp add: etp_maybe_start_thread_def etp_nthreads_def)

section \<open>Settings\<close>

definition etp_set_max_poll_reqs :: "32 word \<Rightarrow> etp \<Rightarrow> etp" where
  "etp_set_max_poll_reqs maxreqs s = s\<lparr>max_poll_reqs := maxreqs\<rparr>"

definition etp_set_max_idle :: "32 word \<Rightarrow> etp \<Rightarrow> etp" where
  "etp_set_max_idle nthreads s = s\<lparr>max_idle := nthreads\<rparr>"

definition etp_set_idle_timeout :: "32 word \<Rightarrow> etp \<Rightarrow> etp" where
  "etp_set_idle_timeout seconds s = s\<lparr>idle_timeout := seconds\<rparr>"

definition etp_set_min_parallel :: "32 word \<Rightarrow> etp \<Rightarrow> etp" where
  "etp_set_min_parallel nthreads s =
     (if wanted s < nthreads then s\<lparr>wanted := nthreads\<rparr> else s)"

text \<open>\<open>while (started > wanted) etp_end_thread ()\<close>; \<open>mem i\<close> answers the \<open>i\<close>-th \<open>calloc\<close>.\<close>

partial_function (option) end_threads :: "(nat \<Rightarrow> ptr) \<Rightarrow> nat \<Rightarrow> etp \<Rightarrow> etp option" where
  "end_threads mem i s =
     (if started s > wanted s then do {
        s \<leftarrow> etp_end_thread (mem i) s;
        end_threads mem (Suc i) s }
      else Some s)"

definition etp_set_max_parallel :: "(nat \<Rightarrow> ptr) \<Rightarrow> 32 word \<Rightarrow> etp \<Rightarrow> etp option" where
  "etp_set_max_parallel mem nthreads s =
     end_threads mem 0 (if wanted s > nthreads then s\<lparr>wanted := nthreads\<rparr> else s)"

end
