(* ===== verification/Etp_Proc.thy ===== *)
theory Etp_Proc
  imports Etp_Pool
begin

text \<open>
  The worker threads of \<open>src/libeio/eio.c\<close> and their interleaving with the thread that submits and
  polls. The body of \<open>etp_proc\<close> is cut at its locks: each definition of the first section is one
  critical section, and a worker's program counter says which one comes next. The step relation
  \<open>step\<close> interleaves the sections of any number of workers with those of \<open>etp_submit\<close>,
  \<open>etp_poll\<close>, \<open>etp_end_thread\<close> and the setters; a condition wait may end by a signal, a timeout
  or spuriously at any time.
\<close>

section \<open>The critical sections of etp\_proc\<close>

text \<open>\<open>self->req = req = reqq_shift (&req_queue)\<close>, then \<open>--nready\<close>, or \<open>++idle\<close> and the wait.\<close>

definition proc_shift :: "addr \<Rightarrow> etp \<Rightarrow> (ptr \<times> etp) option" where
  "proc_shift self s = do {
     (req, s) \<leftarrow> shift_req s;
     w \<leftarrow> wupd self (wrk_req_update (\<lambda>_. req)) (wrks s);
     (let s = s\<lparr>wrks := w\<rparr>
      in Some (req, if req = None then s\<lparr>idle := idle s + 1\<rparr> else s\<lparr>nready := nready s - 1\<rparr>)) }"

text \<open>The wait ends with no timeout (or it was the second one): \<open>--idle\<close>, and around the loop.\<close>

definition proc_wake :: "addr \<Rightarrow> etp \<Rightarrow> (ptr \<times> etp) option" where
  "proc_wake self s = proc_shift self (s\<lparr>idle := idle s - 1\<rparr>)"

text \<open>\<open>ETIMEDOUT\<close>: with too many idle threads the thread is to stop (\<^term>\<open>True\<close>), else it waits on.\<close>

definition proc_timeout :: "etp \<Rightarrow> bool \<times> etp" where
  "proc_timeout s =
     (if idle s > max_idle s then (True, s\<lparr>idle := idle s - 1\<rparr>) else (False, s))"

text \<open>The \<open>wrklock\<close> section before \<open>goto quit\<close>.\<close>

definition proc_stop :: "etp \<Rightarrow> etp" where
  "proc_stop s = s\<lparr>started := started s - 1\<rparr>"

text \<open>The \<open>reslock\<close> section at the end of the loop.\<close>

definition proc_done :: "addr \<Rightarrow> addr \<Rightarrow> etp \<Rightarrow> etp option" where
  "proc_done self req s = do {
     s \<leftarrow> put_result req s;
     w \<leftarrow> wupd self (wrk_req_update (\<lambda>_. None)) (wrks s);
     (bufs, dirs, w) \<leftarrow> etp_worker_clear self w;
     Some (s\<lparr>wrks := w, trace := map Close_dir dirs @ map Free_buf bufs @ trace s\<rparr>) }"

definition proc_quit :: "addr \<Rightarrow> etp \<Rightarrow> etp option" where
  "proc_quit self s = do {
     w \<leftarrow> etp_worker_free self (wrks s);
     Some (s\<lparr>wrks := w\<rparr>) }"

section \<open>The system\<close>

text \<open>
  The next section of a worker: the head of the loop; one of the two waits; looking at the
  request it took; handing the result over; \<open>--started\<close> after a timeout; the code at \<open>quit\<close>.
\<close>

datatype wpc = At_loop | Timed_wait | Long_wait | Took addr | Ran addr | Stopping | Quitting

text \<open>
  The submitting thread: in client code; between the two sections of a submitted group; in
  \<open>etp_poll\<close> before the \<open>reslock\<close> section, and between it and \<open>--nreqs\<close>; between the two sections of
  \<open>etp_end_thread\<close>; and the points of \<open>etp_maybe_start_thread\<close>, which \<open>etp_submit\<close> and \<open>etp_poll\<close> call:
  before it reads \<open>started\<close> for the first and for the second time, \<open>npending\<close> and \<open>nreqs\<close>, each under a
  lock of its own (with the sum so far), and before it creates a thread.
\<close>

datatype caller = In_submit | In_poll

datatype mpc =
  M_client
| M_group addr
| M_poll
| M_took addr
| M_end
| M_start caller
| M_nthreads caller
| M_npending caller int
| M_nreqs caller int
| M_create caller

text \<open>Where \<open>etp_maybe_start_thread\<close> returns to.\<close>

fun return_to :: "caller \<Rightarrow> mpc" where
  "return_to In_submit = M_client"
| "return_to In_poll = M_poll"

text \<open>Its reads of the counters.\<close>

fun start_read :: "etp \<Rightarrow> mpc \<Rightarrow> mpc option" where
  "start_read s (M_start c) = Some (if etp_nthreads s \<ge> wanted s then return_to c else M_nthreads c)"
| "start_read s (M_nthreads c) = Some (M_npending c (sint (etp_nthreads s)))"
| "start_read s (M_npending c n) = map_option (M_nreqs c) (int_chk (n + sint (etp_npending s)))"
| "start_read s (M_nreqs c n) =
     map_option (\<lambda>n. if 0 \<le> n then return_to c else M_create c) (int_chk (n - sint (etp_nreqs s)))"
| "start_read s _ = None"

text \<open>With no other thread in between they decide as \<^term>\<open>etp_maybe_start_thread\<close> does.\<close>

definition start_decision :: "etp \<Rightarrow> caller \<Rightarrow> mpc option" where
  "start_decision s c = do {
     m \<leftarrow> start_read s (M_start c);
     (if m = return_to c then Some m
      else do { m \<leftarrow> start_read s m; m \<leftarrow> start_read s m; start_read s m }) }"

lemma return_distinct [simp]: "M_nthreads c \<noteq> return_to c'" "M_create c \<noteq> return_to c'" "return_to c \<noteq> M_end" "return_to c \<noteq> M_create c'"
  by (cases c'; cases c; simp)+

lemma maybe_start_sections:
  "etp_maybe_start_thread mem created s = do {
     m \<leftarrow> start_decision s c;
     (if m = M_create c then etp_start_thread mem created s else Some s) }"
  by (auto simp: etp_maybe_start_thread_def start_decision_def int_chk_def)

record sys =
  pool :: etp
  workers :: "(addr \<times> wpc) list"   \<comment> \<open>the live threads, the newest first\<close>
  main :: mpc
  ended :: nat                       \<comment> \<open>terminators pushed so far\<close>

definition sys_start :: "code_ptr \<Rightarrow> code_ptr \<Rightarrow> heap \<Rightarrow> sys" where
  "sys_start want_poll done_poll h =
    \<lparr>pool = snd (etp_init want_poll done_poll (etp_start h)), workers = [], main = M_client,
     ended = 0\<rparr>"

text \<open>The requests a program counter holds.\<close>

fun held :: "wpc \<Rightarrow> addr list" where
  "held (Took a) = [a]"
| "held (Ran a) = [a]"
| "held _ = []"

fun main_held :: "mpc \<Rightarrow> addr list" where
  "main_held (M_group a) = [a]"
| "main_held (M_took a) = [a]"
| "main_held _ = []"

text \<open>What code outside the pool's own sections keeps of a request the pool holds.\<close>

definition same_req :: "eio_req \<Rightarrow> eio_req \<Rightarrow> bool" where
  "same_req r r' \<longleftrightarrow> next_req r' = next_req r \<and> pri r' = pri r \<and> req_type r' = req_type r"

text \<open>A trace continued by events other than the calls of the poll callbacks and of \<open>X_COND_SIGNAL\<close>.\<close>

definition quiet_ext :: "event list \<Rightarrow> event list \<Rightarrow> bool" where
  "quiet_ext tr tr' \<longleftrightarrow> (\<exists>ev. tr' = ev @ tr \<and> Want_poll \<notin> set ev \<and> Done_poll \<notin> set ev \<and> Cond_signal \<notin> set ev)"

text \<open>
  Client code: it may write to any request but not unlink, re-prioritise, retype or free one that
  is in the pool (cancelling sets a flag). It may set any of the limits, and print or free what is
  its own.
\<close>

definition client_step :: "addr set \<Rightarrow> etp \<Rightarrow> etp \<Rightarrow> bool" where
  "client_step owned s s' \<longleftrightarrow>
     (\<exists>h w mi it mr mt tr.
        s' = s\<lparr>reqs := h, wanted := w, max_idle := mi, idle_timeout := it, max_poll_reqs := mr,
              max_poll_time := mt, trace := tr\<rparr> \<and> quiet_ext (trace s) tr \<and>
        (\<forall>a \<in> owned. \<exists>r r'. reqs s a = Some r \<and> h a = Some r' \<and> same_req r r'))"

text \<open>
  \<open>eio_execute\<close> on a request: its own members but not its link, priority and type, and the
  worker's buffer and directory.
\<close>

definition exec_step :: "addr \<Rightarrow> addr \<Rightarrow> etp \<Rightarrow> etp \<Rightarrow> bool" where
  "exec_step self req s s' \<longleftrightarrow>
     (\<exists>r r' w b d. reqs s req = Some r \<and> same_req r r' \<and> wrks s self = Some w \<and>
        s' = s\<lparr>reqs := (reqs s)(req \<mapsto> r'), wrks := (wrks s)(self \<mapsto> w\<lparr>dbuf := b, dirp := d\<rparr>)\<rparr>)"

text \<open>The requests of the pool.\<close>

definition queue_members :: "etp_reqq \<Rightarrow> heap \<Rightarrow> addr set" where
  "queue_members q h = {a. \<exists>qss. reqq_rep h q qss \<and> a \<in> set (concat qss)}"

definition owned :: "sys \<Rightarrow> addr set" where
  "owned S =
     queue_members (req_queue (pool S)) (reqs (pool S)) \<union>
     queue_members (res_queue (pool S)) (reqs (pool S)) \<union>
     set (concat (map (held \<circ> snd) (workers S))) \<union> set (main_held (main S))"

text \<open>The label of a step: a request enters the pool, leaves it, or neither.\<close>

datatype label = Submit addr | Deliver addr | Tau

definition room :: "etp_reqq \<Rightarrow> bool" where
  "room q \<longleftrightarrow> qsize q < INT_MAX"

definition next_pc :: "ptr \<Rightarrow> wpc" where
  "next_pc req = (case req of None \<Rightarrow> Timed_wait | Some a \<Rightarrow> Took a)"

inductive step :: "sys \<Rightarrow> label \<Rightarrow> sys \<Rightarrow> bool" where
  client: "client_step (owned S) (pool S) s' \<Longrightarrow> main S = M_client \<Longrightarrow>
    step S Tau (S\<lparr>pool := s'\<rparr>)"
| submit: "main S = M_client \<Longrightarrow> req \<notin> owned S \<Longrightarrow> reqs (pool S) req = Some r \<Longrightarrow>
    0 \<le> req_type r \<Longrightarrow> req_type r \<noteq> type_code EIO_GROUP \<Longrightarrow> room (req_queue (pool S)) \<Longrightarrow>
    put_request req ((pool S)\<lparr>reqs := (reqs (pool S))(req \<mapsto> r\<lparr>pri := submit_pri (pri r)\<rparr>)\<rparr>) = Some s' \<Longrightarrow>
    step S (Submit req) (S\<lparr>pool := s', main := M_start In_submit\<rparr>)"
| submit_group: "main S = M_client \<Longrightarrow> req \<notin> owned S \<Longrightarrow> reqs (pool S) req = Some r \<Longrightarrow>
    req_type r = type_code EIO_GROUP \<Longrightarrow>
    step S (Submit req)
      (S\<lparr>pool := (pool S)\<lparr>reqs := (reqs (pool S))(req \<mapsto> r\<lparr>pri := submit_pri (pri r)\<rparr>),
                          nreqs := nreqs (pool S) + 1\<rparr>, main := M_group req\<rparr>)"
| group_result: "main S = M_group req \<Longrightarrow> room (res_queue (pool S)) \<Longrightarrow>
    put_result req (pool S) = Some s' \<Longrightarrow>
    step S Tau (S\<lparr>pool := s', main := M_client\<rparr>)"
| poll: "main S = M_client \<Longrightarrow> step S Tau (S\<lparr>main := M_start In_poll\<rparr>)"
| maybe_start: "start_read (pool S) (main S) = Some m \<Longrightarrow> step S Tau (S\<lparr>main := m\<rparr>)"
| create: "main S = M_create c \<Longrightarrow> wrk \<noteq> wrk_first \<Longrightarrow> wrks (pool S) wrk = None \<Longrightarrow>
    etp_start_thread (Some wrk) created (pool S) = Some s' \<Longrightarrow>
    step S Tau
      (S\<lparr>pool := s', main := return_to c,
         workers := (if wrks s' wrk = None then [] else [(wrk, At_loop)]) @ workers S\<rparr>)"
| poll_take: "main S = M_poll \<Longrightarrow> take_result (pool S) = Some (req, s') \<Longrightarrow>
    step S Tau (S\<lparr>pool := s', main := (case req of None \<Rightarrow> M_client | Some a \<Rightarrow> M_took a)\<rparr>)"
| poll_deliver: "main S = M_took req \<Longrightarrow>
    step S (Deliver req)
      (S\<lparr>pool := (pool S)\<lparr>nreqs := nreqs (pool S) - 1\<rparr>, main := M_client\<rparr>)"
| end_push: "main S = M_client \<Longrightarrow> reqs (pool S) mem = None \<Longrightarrow> room (req_queue (pool S)) \<Longrightarrow>
    push_req mem ((pool S)\<lparr>reqs := (reqs (pool S))(mem \<mapsto> terminator)\<rparr>) = Some (n, s') \<Longrightarrow>
    step S Tau (S\<lparr>pool := trace_if True Cond_signal s', main := M_end, ended := Suc (ended S)\<rparr>)"
| end_count: "main S = M_end \<Longrightarrow>
    step S Tau (S\<lparr>pool := (pool S)\<lparr>started := started (pool S) - 1\<rparr>, main := M_client\<rparr>)"
| shift: "workers S = ws @ (self, At_loop) # vs \<Longrightarrow> proc_shift self (pool S) = Some (req, s') \<Longrightarrow>
    step S Tau (S\<lparr>pool := s', workers := ws @ (self, next_pc req) # vs\<rparr>)"
| wake: "workers S = ws @ (self, pc) # vs \<Longrightarrow> pc = Timed_wait \<or> pc = Long_wait \<Longrightarrow>
    proc_wake self (pool S) = Some (req, s') \<Longrightarrow>
    step S Tau (S\<lparr>pool := s', workers := ws @ (self, next_pc req) # vs\<rparr>)"
| timeout: "workers S = ws @ (self, Timed_wait) # vs \<Longrightarrow> proc_timeout (pool S) = (stop, s') \<Longrightarrow>
    step S Tau (S\<lparr>pool := s',
                  workers := ws @ (self, if stop then Stopping else Long_wait) # vs\<rparr>)"
| stop: "workers S = ws @ (self, Stopping) # vs \<Longrightarrow>
    step S Tau (S\<lparr>pool := proc_stop (pool S), workers := ws @ (self, Quitting) # vs\<rparr>)"
| quit_terminator: "workers S = ws @ (self, Took req) # vs \<Longrightarrow> reqs (pool S) req = Some r \<Longrightarrow>
    req_type r < 0 \<Longrightarrow>
    step S Tau (S\<lparr>workers := ws @ (self, Quitting) # vs\<rparr>)"
| skip_cancelled: "workers S = ws @ (self, Took req) # vs \<Longrightarrow> reqs (pool S) req = Some r \<Longrightarrow>
    0 \<le> req_type r \<Longrightarrow> EIO_CANCELLED r \<Longrightarrow>
    step S Tau (S\<lparr>workers := ws @ (self, Ran req) # vs\<rparr>)"
| execute: "workers S = ws @ (self, Took req) # vs \<Longrightarrow> reqs (pool S) req = Some r \<Longrightarrow>
    0 \<le> req_type r \<Longrightarrow> \<not> EIO_CANCELLED r \<Longrightarrow> exec_step self req (pool S) s' \<Longrightarrow>
    step S Tau (S\<lparr>pool := s', workers := ws @ (self, Ran req) # vs\<rparr>)"
| hand_over: "workers S = ws @ (self, Ran req) # vs \<Longrightarrow> room (res_queue (pool S)) \<Longrightarrow>
    proc_done self req (pool S) = Some s' \<Longrightarrow>
    step S Tau (S\<lparr>pool := s', workers := ws @ (self, At_loop) # vs\<rparr>)"
| quit: "workers S = ws @ (self, Quitting) # vs \<Longrightarrow> proc_quit self (pool S) = Some s' \<Longrightarrow>
    step S Tau (S\<lparr>pool := s', workers := ws @ vs\<rparr>)"

inductive reachable :: "code_ptr \<Rightarrow> code_ptr \<Rightarrow> sys \<Rightarrow> bool" for wp dp where
  reach_start: "reachable wp dp (sys_start wp dp h)"
| reach_step: "reachable wp dp S \<Longrightarrow> step S l S' \<Longrightarrow> reachable wp dp S'"

text \<open>The terminators \<open>etp_end_thread\<close> queues, and the submitted requests in the pool.\<close>

definition is_term :: "heap \<Rightarrow> addr \<Rightarrow> bool" where
  "is_term h a \<longleftrightarrow> (case h a of None \<Rightarrow> False | Some r \<Rightarrow> req_type r < 0)"

definition pool_reqs :: "sys \<Rightarrow> addr set" where
  "pool_reqs S = {a \<in> owned S. \<not> is_term (reqs (pool S)) a}"

definition waiting :: "wpc \<Rightarrow> bool" where
  "waiting pc \<longleftrightarrow> pc = Timed_wait \<or> pc = Long_wait"

text \<open>
  \<open>alternates tr b\<close>: in the trace (newest first) the want-poll and done-poll calls alternate, the
  oldest is a want-poll, and \<open>b\<close> tells whether the newest is a want-poll.
\<close>

fun alternates :: "event list \<Rightarrow> bool \<Rightarrow> bool" where
  "alternates [] b \<longleftrightarrow> \<not> b"
| "alternates (Want_poll # tr) b \<longleftrightarrow> b \<and> alternates tr False"
| "alternates (Done_poll # tr) b \<longleftrightarrow> \<not> b \<and> alternates tr True"
| "alternates (_ # tr) b \<longleftrightarrow> alternates tr b"

lemma quiet_ext_refl [simp]: "quiet_ext tr tr"
  by (simp add: quiet_ext_def)

lemma quiet_ext_cons:
  assumes "quiet_ext tr tr'" and "e \<noteq> Want_poll" and "e \<noteq> Done_poll" and "e \<noteq> Cond_signal"
  shows "quiet_ext tr (e # tr')"
proof -
  from assms(1) obtain ev where "tr' = ev @ tr" "Want_poll \<notin> set ev" "Done_poll \<notin> set ev" "Cond_signal \<notin> set ev"
    by (auto simp: quiet_ext_def)
  with assms(2-4) show ?thesis unfolding quiet_ext_def by (intro exI [of _ "e # ev"]) auto
qed

lemma quiet_ext_trans: "quiet_ext tr tr' \<Longrightarrow> quiet_ext tr' tr'' \<Longrightarrow> quiet_ext tr tr''"
  by (fastforce simp: quiet_ext_def)

lemma alternates_quiet:
  assumes "quiet_ext tr tr'"
  shows "alternates tr' b = alternates tr b"
proof -
  have "alternates (ev @ tr) b = alternates tr b" if "Want_poll \<notin> set ev" "Done_poll \<notin> set ev" for ev
    using that
  proof (induction ev)
    case (Cons e ev)
    then show ?case by (cases e) auto
  qed simp
  with assms show ?thesis by (auto simp: quiet_ext_def)
qed

section \<open>Runs\<close>

inductive runs :: "sys \<Rightarrow> label list \<Rightarrow> sys \<Rightarrow> bool" where
  runs_nil: "runs S [] S"
| runs_step: "step S l S' \<Longrightarrow> runs S' ls S'' \<Longrightarrow> runs S (l # ls) S''"

text \<open>The requests a run delivers, and the runs in which nothing is submitted.\<close>

fun delivered :: "label list \<Rightarrow> addr list" where
  "delivered [] = []"
| "delivered (Deliver a # ls) = a # delivered ls"
| "delivered (_ # ls) = delivered ls"

fun submits :: "label list \<Rightarrow> bool" where
  "submits [] \<longleftrightarrow> False"
| "submits (Submit a # ls) \<longleftrightarrow> True"
| "submits (_ # ls) \<longleftrightarrow> submits ls"

lemma runs_append: "runs S ls S' \<Longrightarrow> runs S' ls' S'' \<Longrightarrow> runs S (ls @ ls') S''"
  by (induction rule: runs.induct) (auto intro: runs_step)

lemma runs_one: "step S l S' \<Longrightarrow> runs S [l] S'"
  by (auto intro: runs.intros)

lemma submits_append [simp]: "submits (ls @ ls') \<longleftrightarrow> submits ls \<or> submits ls'"
  by (induction ls rule: submits.induct) auto

lemma delivered_append [simp]: "delivered (ls @ ls') = delivered ls @ delivered ls'"
  by (induction ls rule: delivered.induct) auto

lemma internal_labels [simp]: "\<not> submits (replicate k Tau)" "delivered (replicate k Tau) = []"
  by (induction k) simp_all

lemma runs_reachable: "runs S ls S' \<Longrightarrow> reachable wp dp S \<Longrightarrow> reachable wp dp S'"
  by (induction rule: runs.induct) (auto intro: reach_step)

text \<open>The reads of \<open>etp_maybe_start_thread\<close>, run in one go.\<close>

lemma runs_decision:
  assumes "main S = M_start c" and "start_decision (pool S) c = Some m"
  shows "\<exists>k. runs S (replicate k Tau) (S\<lparr>main := m\<rparr>)"
proof -
  have read: "step (S\<lparr>main := m\<rparr>) Tau (S\<lparr>main := m'\<rparr>)" if "start_read (pool S) m = Some m'" for m m'
    using step.maybe_start [of "S\<lparr>main := m\<rparr>" m'] that by simp
  from assms(2) obtain m1 where m1: "start_read (pool S) (M_start c) = Some m1"
    and "m1 = return_to c \<and> m = m1 \<or> m1 \<noteq> return_to c \<and>
      do { m \<leftarrow> start_read (pool S) m1; m \<leftarrow> start_read (pool S) m; start_read (pool S) m } = Some m"
    unfolding start_decision_def by (auto split: bind_splits if_splits)
  moreover have start: "step S Tau (S\<lparr>main := m1\<rparr>)" using step.maybe_start [of S m1] m1 assms(1) by simp
  ultimately show ?thesis
  proof (elim disjE conjE)
    assume "m = m1"
    with start show ?thesis by (intro exI [of _ 1]) (auto intro: runs_one)
  next
    assume "do { m \<leftarrow> start_read (pool S) m1; m \<leftarrow> start_read (pool S) m; start_read (pool S) m } = Some m"
    then obtain m2 m3 where m: "start_read (pool S) m1 = Some m2" "start_read (pool S) m2 = Some m3"
      "start_read (pool S) m3 = Some m" by (auto split: bind_splits)
    have "runs (S\<lparr>main := m1\<rparr>) [Tau, Tau, Tau] (S\<lparr>main := m\<rparr>)"
      by (rule runs_step [OF read [OF m(1)] runs_step [OF read [OF m(2)] runs_step [OF read [OF m(3)] runs_nil]]])
    with start have "runs S [Tau, Tau, Tau, Tau] (S\<lparr>main := m\<rparr>)" by (rule runs_step)
    then show ?thesis by (intro exI [of _ 4]) (simp add: numeral_eq_Suc)
  qed
qed

end
