(* ===== verification/Etp_Inv.thy ===== *)
theory Etp_Inv
  imports Etp_Proc
begin

text \<open>
  The invariant of the thread pool under every interleaving: each request is in exactly one place,
  the counters count what they are named after (\<open>nready\<close> up to the terminators queued so far),
  and the poll callbacks announce exactly the changes between an empty and a non-empty result
  queue. Each critical section is first described on the lists its queues represent.
\<close>

section \<open>Queues of the state\<close>

lemma reqq_rep_unique:
  assumes "reqq_rep h q qss" and "reqq_rep h q qss'"
  shows "qss = qss'"
proof (rule nth_equalityI)
  show "length qss = length qss'" using assms by (simp add: reqq_rep_def)
  fix i assume "i < length qss"
  then have "i < 9" using reqq_repD(3) [OF assms(1)] by simp
  with reqq_repD(4) [OF assms(1)] reqq_repD(4) [OF assms(2)] show "qss ! i = qss' ! i"
    unfolding level_rep_def by (blast intro: chain_unique)
qed

lemma queue_members_eq: "reqq_rep h q qss \<Longrightarrow> queue_members q h = set (concat qss)"
  unfolding queue_members_def by (blast dest: reqq_rep_unique [of h q qss])

text \<open>Both queues, disjoint.\<close>

definition queues :: "etp \<Rightarrow> addr list list \<Rightarrow> addr list list \<Rightarrow> bool" where
  "queues p rq rs \<longleftrightarrow>
     reqq_rep (reqs p) (req_queue p) rq \<and> reqq_rep (reqs p) (res_queue p) rs \<and>
     distinct (concat rq @ concat rs)"

text \<open>What a queue operation keeps of the requests: all but the links.\<close>

definition links_only :: "heap \<Rightarrow> heap \<Rightarrow> bool" where
  "links_only h h' \<longleftrightarrow>
     (\<forall>a. map_option (next_req_update (\<lambda>_. None)) (h' a) = map_option (next_req_update (\<lambda>_. None)) (h a))"

lemma next_only_links: "next_only A h h' \<Longrightarrow> links_only h h'"
  by (simp add: next_only_def links_only_def)

lemma links_only_Some:
  assumes "links_only h h'" and "h a = Some r"
  obtains r' where "h' a = Some r'" "req_type r' = req_type r" "pri r' = pri r" "flags r' = flags r"
proof -
  from assms have "map_option (next_req_update (\<lambda>_. None)) (h' a) = Some (r\<lparr>next_req := None\<rparr>)"
    by (simp add: links_only_def)
  then obtain r' where r': "h' a = Some r'" "r'\<lparr>next_req := None\<rparr> = r\<lparr>next_req := None\<rparr>" by auto
  from arg_cong [OF r'(2), of req_type] arg_cong [OF r'(2), of pri] arg_cong [OF r'(2), of flags]
  show thesis using that r'(1) by simp
qed

lemma links_only_None: "links_only h h' \<Longrightarrow> h a = None \<Longrightarrow> h' a = None"
  by (simp add: links_only_def) (metis map_option_is_None)

lemma links_only_term: "links_only h h' \<Longrightarrow> is_term h' a = is_term h a"
  by (cases "h a") (auto simp: is_term_def links_only_None elim: links_only_Some)

text \<open>One queue changes, the other one stays what it was.\<close>

lemma push_beside:
  assumes q: "reqq_rep h q qss" and q2: "reqq_rep h q2 rss"
    and dist: "distinct (concat qss @ concat rss)"
    and r: "h a = Some r" and k: "pri_index r = Some k" and fresh: "a \<notin> set (concat qss @ concat rss)"
    and room: "room q" and push: "reqq_push q a h = Some (n, q', h')"
  shows "reqq_rep h' q' (fifo_push k a qss) \<and> reqq_rep h' q2 rss \<and> links_only h h' \<and>
    mset (concat (fifo_push k a qss)) = add_mset a (mset (concat qss)) \<and>
    n = int (length (concat qss)) \<and> qsize q' = qsize q + 1"
proof -
  have "int (length (concat qss)) < INT_MAX" using room reqq_repD(6) [OF q] by (simp add: room_def)
  from reqq_push_rep [OF q r k _ this] fresh push have
    h': "n = int (length (concat qss))" "reqq_rep h' q' (fifo_push k a qss)"
      "next_only (insert a (set (qss ! k))) h h'" by auto
  have "k < 9" using k by (simp add: pri_index_Some)
  have "x \<notin> insert a (set (qss ! k))" if "x \<in> set (concat rss)" for x
    using that fresh reqq_rep_in [OF q \<open>k < 9\<close>] dist by (auto simp del: set_concat)
  then have "same_links (set (concat rss)) h h'"
    using next_only_frame [OF h'(3)] by (intro same_links_eq) blast
  then have "reqq_rep h' q2 rss" by (rule reqq_rep_frame [OF q2])
  moreover have m: "mset (concat (fifo_push k a qss)) = add_mset a (mset (concat qss))"
    using \<open>k < 9\<close> reqq_repD(3) [OF q] by (simp add: fifo_push_def mset_concat_snoc)
  moreover have "qsize q' = qsize q + 1"
    using mset_eq_length [of "concat (fifo_push k a qss)" "a # concat qss"] m
      reqq_repD(6) [OF q] reqq_repD(6) [OF h'(2)] by simp
  ultimately show ?thesis using h' next_only_links by blast
qed

lemma push_defined:
  assumes q: "reqq_rep h q qss" and r: "h a = Some r" and k: "pri_index r \<noteq> None"
    and fresh: "a \<notin> set (concat qss)" and room: "room q"
  shows "reqq_push q a h \<noteq> None"
proof -
  have "int (length (concat qss)) < INT_MAX" using room reqq_repD(6) [OF q] by (simp add: room_def)
  with reqq_push_rep [OF q r _ fresh] k show ?thesis by fastforce
qed

lemma shift_queue:
  assumes q: "reqq_rep h q qss" and size: "qsize q \<le> INT_MAX"
  shows "(concat qss = [] \<and> reqq_shift q h = Some (None, q)) \<or>
    (\<exists>a q' qss'. reqq_shift q h = Some (Some a, q') \<and> fifo_take 9 qss = Some (a, qss') \<and>
       reqq_rep h q' qss' \<and> mset (concat qss) = add_mset a (mset (concat qss')) \<and>
       qsize q' = qsize q - 1)"
proof (cases "fifo_take 9 qss")
  case None
  then have "concat qss = []" using fifo_take_concat_None [OF reqq_repD(3) [OF q]] by simp
  with reqq_shift_empty [OF q] show ?thesis by blast
next
  case (Some p)
  obtain a qss' where take: "fifo_take 9 qss = Some (a, qss')" using Some by (cases p) auto
  have "int (length (concat qss)) \<le> INT_MAX" using size reqq_repD(6) [OF q] by simp
  from reqq_shift_rep [OF q take this] obtain q' where
    q': "reqq_shift q h = Some (Some a, q')" "reqq_rep h q' qss'" by blast
  have m: "mset (concat qss) = add_mset a (mset (concat qss'))"
    using fifo_take_mset(1) [OF take] reqq_repD(3) [OF q] by simp
  with mset_eq_length [of "concat qss" "a # concat qss'"] reqq_repD(6) [OF q] reqq_repD(6) [OF q'(2)]
  have "qsize q' = qsize q - 1" by simp
  with q' take m show ?thesis by blast
qed

section \<open>The invariant\<close>

definition holds :: "sys \<Rightarrow> addr list" where
  "holds S = concat (map (held \<circ> snd) (workers S)) @ main_held (main S)"

definition members :: "sys \<Rightarrow> addr list list \<Rightarrow> addr list list \<Rightarrow> addr multiset" where
  "members S rq rs = mset (concat rq) + mset (concat rs) + mset (holds S)"

text \<open>The requests past the type test of a worker: no terminator is among them.\<close>

definition past_test :: "sys \<Rightarrow> addr list list \<Rightarrow> addr set" where
  "past_test S rs = set (concat rs) \<union> {a. Ran a \<in> snd ` set (workers S)} \<union> set (main_held (main S))"

definition terms :: "heap \<Rightarrow> addr multiset \<Rightarrow> nat" where
  "terms h M = size {#a \<in># M. is_term h a#}"

definition works :: "heap \<Rightarrow> addr multiset \<Rightarrow> addr multiset" where
  "works h M = {#a \<in># M. \<not> is_term h a#}"

definition count_pc :: "(wpc \<Rightarrow> bool) \<Rightarrow> sys \<Rightarrow> nat" where
  "count_pc P S = length (filter (P \<circ> snd) (workers S))"

definition queued :: "heap \<Rightarrow> addr \<Rightarrow> bool" where
  "queued h a \<longleftrightarrow> (\<exists>r. h a = Some r \<and> pri_index r \<noteq> None)"

text \<open>The structure: places, links and the ring of workers.\<close>

definition struct_inv :: "sys \<Rightarrow> addr list list \<Rightarrow> addr list list \<Rightarrow> bool" where
  "struct_inv S rq rs \<longleftrightarrow>
     reqq_rep (reqs (pool S)) (req_queue (pool S)) rq \<and>
     reqq_rep (reqs (pool S)) (res_queue (pool S)) rs \<and>
     qsize (req_queue (pool S)) \<le> INT_MAX \<and> qsize (res_queue (pool S)) \<le> INT_MAX \<and>
     (\<forall>a. count (members S rq rs) a \<le> 1) \<and>
     (\<forall>a \<in># members S rq rs. queued (reqs (pool S)) a) \<and>
     (\<forall>a \<in> past_test S rs. \<not> is_term (reqs (pool S)) a) \<and>
     ring (wrks (pool S)) (map fst (workers S))"

text \<open>The counters.\<close>

definition count_inv :: "sys \<Rightarrow> addr multiset \<Rightarrow> bool" where
  "count_inv S M \<longleftrightarrow>
     npending (pool S) = of_int (qsize (res_queue (pool S))) \<and>
     nready (pool S) = of_int (qsize (req_queue (pool S))) - of_nat (ended S) \<and>
     nreqs (pool S) = of_nat (size (works (reqs (pool S)) M)) \<and>
     idle (pool S) = of_nat (count_pc waiting S) \<and>
     of_nat (length (workers S)) + (if main S = M_end then 1 else 0) =
       started (pool S) + of_nat (terms (reqs (pool S)) M + count_pc ((=) Quitting) S)"

definition edge_inv :: "etp \<Rightarrow> bool" where
  "edge_inv p \<longleftrightarrow> (want_poll_cb p \<noteq> None \<and> done_poll_cb p \<noteq> None \<longrightarrow>
     alternates (trace p) (0 < qsize (res_queue p)))"

text \<open>\<open>sys_inv S W\<close>: the invariant holds, and \<open>W\<close> are the submitted requests in the pool.\<close>

definition sys_inv :: "sys \<Rightarrow> addr multiset \<Rightarrow> bool" where
  "sys_inv S W \<longleftrightarrow> edge_inv (pool S) \<and>
     (\<exists>rq rs. struct_inv S rq rs \<and> count_inv S (members S rq rs) \<and>
        W = works (reqs (pool S)) (members S rq rs))"

lemma sys_invI:
  "struct_inv S rq rs \<Longrightarrow> count_inv S (members S rq rs) \<Longrightarrow> edge_inv (pool S) \<Longrightarrow>
    works (reqs (pool S)) (members S rq rs) = W \<Longrightarrow> sys_inv S W"
  by (auto simp: sys_inv_def)

lemma sys_invE:
  assumes "sys_inv S W"
  obtains rq rs where "struct_inv S rq rs" "count_inv S (members S rq rs)" "edge_inv (pool S)"
    "W = works (reqs (pool S)) (members S rq rs)"
  using assms by (auto simp: sys_inv_def)

lemma struct_invD:
  assumes "struct_inv S rq rs"
  shows "reqq_rep (reqs (pool S)) (req_queue (pool S)) rq"
    and "reqq_rep (reqs (pool S)) (res_queue (pool S)) rs"
    and "qsize (req_queue (pool S)) \<le> INT_MAX" and "qsize (res_queue (pool S)) \<le> INT_MAX"
    and "\<And>a. count (members S rq rs) a \<le> 1"
    and "\<And>a. a \<in># members S rq rs \<Longrightarrow> queued (reqs (pool S)) a"
    and "\<And>a. a \<in> past_test S rs \<Longrightarrow> \<not> is_term (reqs (pool S)) a"
    and "ring (wrks (pool S)) (map fst (workers S))"
  using assms by (auto simp: struct_inv_def)

lemma count_one_distinct: "(\<forall>a. count (mset xs) a \<le> 1) \<longleftrightarrow> distinct xs"
  by (auto simp: distinct_count_atmost_1 count_mset_0_iff le_Suc_eq)

lemma struct_inv_distinct:
  "struct_inv S rq rs \<Longrightarrow> distinct (concat rq @ concat rs @ holds S)"
  using struct_invD(5) [of S rq rs]
  by (simp add: count_one_distinct [symmetric] members_def add.assoc del: distinct_append)

lemma struct_inv_owned:
  "struct_inv S rq rs \<Longrightarrow> owned S = set_mset (members S rq rs)"
  by (auto simp: owned_def members_def holds_def queue_members_eq [OF struct_invD(1)]
      queue_members_eq [OF struct_invD(2)])

lemma past_test_members: "past_test S rs \<subseteq> set_mset (members S rq rs)"
proof
  fix a assume "a \<in> past_test S rs"
  then consider "a \<in> set (concat rs @ main_held (main S))" | wrk where "(wrk, Ran a) \<in> set (workers S)"
    by (auto simp: past_test_def)
  then show "a \<in># members S rq rs"
  proof cases
    case 2
    then have "a \<in> set (concat (map (held \<circ> snd) (workers S)))"
      by (auto intro!: bexI [of _ "(wrk, Ran a)"])
    then show ?thesis by (simp add: members_def holds_def)
  qed (auto simp: members_def holds_def)
qed

lemma terms_cong: "(\<And>a. a \<in># M \<Longrightarrow> is_term h' a = is_term h a) \<Longrightarrow> terms h' M = terms h M"
  unfolding terms_def by (intro arg_cong [where f = size] filter_mset_cong) auto

lemma works_cong: "(\<And>a. a \<in># M \<Longrightarrow> is_term h' a = is_term h a) \<Longrightarrow> works h' M = works h M"
  unfolding works_def by (intro filter_mset_cong) auto

lemma terms_work_add [simp]:
  "terms h (add_mset a M) = (if is_term h a then 1 else 0) + terms h M"
  "works h (add_mset a M) = (if is_term h a then works h M else add_mset a (works h M))"
  by (simp_all add: terms_def works_def)

lemma links_only_queued: "links_only h h' \<Longrightarrow> queued h' a = queued h a"
  by (cases "h a") (auto simp: queued_def links_only_None pri_index_def elim!: links_only_Some)

lemma same_req_queued: "same_req r r' \<Longrightarrow> queued (h(a \<mapsto> r)) a = queued (h'(a \<mapsto> r')) a"
  by (simp add: queued_def same_req_def pri_index_def)

text \<open>A step of code outside the pool: the requests in it keep links, priorities and types.\<close>

definition heap_step :: "addr set \<Rightarrow> heap \<Rightarrow> heap \<Rightarrow> bool" where
  "heap_step A h h' \<longleftrightarrow> (\<forall>a \<in> A. \<exists>r r'. h a = Some r \<and> h' a = Some r' \<and> same_req r r')"

lemma heap_step_queued: "heap_step A h h' \<Longrightarrow> a \<in> A \<Longrightarrow> queued h' a = queued h a"
  by (auto simp: heap_step_def queued_def same_req_def pri_index_def dest!: bspec)

lemma heap_step_term: "heap_step A h h' \<Longrightarrow> a \<in> A \<Longrightarrow> is_term h' a = is_term h a"
  by (auto simp: heap_step_def is_term_def same_req_def dest!: bspec)

lemma heap_step_rep:
  "heap_step A h h' \<Longrightarrow> reqq_rep h q qss \<Longrightarrow> set (concat qss) \<subseteq> A \<Longrightarrow> reqq_rep h' q qss"
  by (erule reqq_rep_frame) (fastforce simp: heap_step_def same_links_def same_req_def)

text \<open>Changing the requests, the counters not in the invariant, and nothing else.\<close>

lemma heap_step_inv:
  assumes inv: "sys_inv S W" and heap: "heap_step (owned S) (reqs (pool S)) (reqs p')"
    and eq: "req_queue p' = req_queue (pool S)" "res_queue p' = res_queue (pool S)"
      "npending p' = npending (pool S)" "nready p' = nready (pool S)" "nreqs p' = nreqs (pool S)"
      "idle p' = idle (pool S)" "started p' = started (pool S)"
      "want_poll_cb p' = want_poll_cb (pool S)" "done_poll_cb p' = done_poll_cb (pool S)"
    and ring: "ring (wrks p') (map fst (workers S))" and calls: "quiet_ext (trace (pool S)) (trace p')"
  shows "sys_inv (S\<lparr>pool := p'\<rparr>) W"
proof -
  from inv obtain rq rs where s: "struct_inv S rq rs" and c: "count_inv S (members S rq rs)"
    and e: "edge_inv (pool S)" and W: "W = works (reqs (pool S)) (members S rq rs)" by (rule sys_invE)
  note D = struct_invD [OF s]
  have m: "members (S\<lparr>pool := p'\<rparr>) rq rs = members S rq rs" by (simp add: members_def holds_def)
  have sub: "set (concat rq) \<subseteq> owned S" "set (concat rs) \<subseteq> owned S" "past_test S rs \<subseteq> owned S"
    unfolding struct_inv_owned [OF s] using past_test_members by (auto simp: members_def)
  have past: "\<not> is_term (reqs p') a" if "a \<in> past_test S rs" for a
    using that D(7) [OF that] sub(3) heap_step_term [OF heap] by blast
  have queued: "queued (reqs p') a" if "a \<in># members S rq rs" for a
    using D(6) [OF that] heap_step_queued [OF heap] that by (simp add: struct_inv_owned [OF s])
  have "past_test (S\<lparr>pool := p'\<rparr>) rs = past_test S rs" by (simp add: past_test_def)
  then have "struct_inv (S\<lparr>pool := p'\<rparr>) rq rs"
    using D(3-5) heap_step_rep [OF heap D(1) sub(1)] heap_step_rep [OF heap D(2) sub(2)] ring past queued
    by (simp add: struct_inv_def m eq)
  moreover have "count_inv (S\<lparr>pool := p'\<rparr>) (members S rq rs)"
    using c terms_cong [of "members S rq rs" "reqs p'" "reqs (pool S)"]
      works_cong [of "members S rq rs" "reqs p'" "reqs (pool S)"] heap_step_term [OF heap]
    by (simp add: count_inv_def eq struct_inv_owned [OF s] count_pc_def)
  moreover have "edge_inv p'" using e by (simp add: edge_inv_def eq alternates_quiet [OF calls])
  moreover have "works (reqs p') (members S rq rs) = W"
    unfolding W using heap_step_term [OF heap] by (intro works_cong) (simp add: struct_inv_owned [OF s])
  ultimately show ?thesis using m by (intro sys_invI [of _ rq rs]) simp_all
qed

section \<open>The steps\<close>

lemma client_inv:
  assumes "sys_inv S W" and "client_step (owned S) (pool S) s'"
  shows "sys_inv (S\<lparr>pool := s'\<rparr>) W"
proof -
  from assms(1) obtain rq rs where "struct_inv S rq rs" by (rule sys_invE)
  from struct_invD(8) [OF this] assms show ?thesis
    by (intro heap_step_inv) (auto simp: client_step_def heap_step_def)
qed

text \<open>A worker's program counter moves on while it keeps what it holds.\<close>

lemma pc_inv:
  assumes inv: "sys_inv S W" and w: "workers S = ws @ (self, pc) # vs"
    and pc: "held pc' = held pc" "waiting pc' = waiting pc" "pc' = Quitting \<longleftrightarrow> pc = Quitting"
    and past: "\<And>a. pc' = Ran a \<Longrightarrow> \<not> is_term (reqs (pool S)) a"
  shows "sys_inv (S\<lparr>workers := ws @ (self, pc') # vs\<rparr>) W"
proof -
  from inv obtain rq rs where s: "struct_inv S rq rs" and c: "count_inv S (members S rq rs)"
    and e: "edge_inv (pool S)" and W: "W = works (reqs (pool S)) (members S rq rs)" by (rule sys_invE)
  let ?S = "S\<lparr>workers := ws @ (self, pc') # vs\<rparr>"
  have m: "members ?S rq rs = members S rq rs" using w pc(1) by (simp add: members_def holds_def)
  have "past_test ?S rs \<subseteq> past_test S rs \<union> {a. pc' = Ran a}" using w by (auto simp: past_test_def)
  then have "\<not> is_term (reqs (pool S)) a" if "a \<in> past_test ?S rs" for a
    using past struct_invD(7) [OF s] that by auto
  then have "struct_inv ?S rq rs"
    using struct_invD [OF s] w by (auto simp: struct_inv_def m)
  moreover have "count_inv ?S (members S rq rs)"
    using c w pc by (simp add: count_inv_def count_pc_def eq_commute [of Quitting])
  ultimately show ?thesis using e m W by (intro sys_invI [of _ rq rs]) simp_all
qed

lemma heap_step_one:
  assumes "\<And>a. a \<in> A \<Longrightarrow> queued h a" and "h req = Some r" and "same_req r r'"
  shows "heap_step A h (h(req \<mapsto> r'))"
proof -
  have "\<exists>r. h a = Some r" if "a \<in> A" for a using assms(1) [OF that] by (auto simp: queued_def)
  with assms(2,3) show ?thesis unfolding heap_step_def same_req_def by (metis fun_upd_apply option.inject)
qed

lemma execute_inv:
  assumes inv: "sys_inv S W" and w: "workers S = ws @ (self, Took req) # vs"
    and r: "reqs (pool S) req = Some r" "0 \<le> req_type r" and ex: "exec_step self req (pool S) s'"
  shows "sys_inv (S\<lparr>pool := s', workers := ws @ (self, Ran req) # vs\<rparr>) W"
proof -
  from inv obtain rq rs where s: "struct_inv S rq rs" by (rule sys_invE)
  from ex r(1) obtain r' wk b d where
    s': "s' = pool S\<lparr>reqs := (reqs (pool S))(req \<mapsto> r'), wrks := (wrks (pool S))(self \<mapsto> wk\<lparr>dbuf := b, dirp := d\<rparr>)\<rparr>"
      "same_req r r'" "wrks (pool S) self = Some wk" by (auto simp: exec_step_def)
  have "ring (wrks s') (map fst (workers S)) = ring (wrks (pool S)) (map fst (workers S))"
    using s'(1,3) by (intro ring_frame) auto
  moreover have "heap_step (owned S) (reqs (pool S)) (reqs s')"
    using heap_step_one [where h = "reqs (pool S)", OF _ r(1) s'(2)] struct_invD(6) [OF s] s'(1)
    by (simp add: struct_inv_owned [OF s])
  ultimately have "sys_inv (S\<lparr>pool := s'\<rparr>) W"
    using struct_invD(8) [OF s] s'(1) inv by (intro heap_step_inv) auto
  then show ?thesis
    using pc_inv [of "S\<lparr>pool := s'\<rparr>" W ws self "Took req" vs "Ran req"] w r(2) s'(1,2)
    by (simp add: waiting_def is_term_def same_req_def)
qed

text \<open>A fresh request enters the request queue.\<close>

lemma enter_inv:
  assumes s: "struct_inv S rq rs" and fresh: "a \<notin> owned S" and r: "pri_index r \<noteq> None"
    and room: "room (req_queue (pool S))"
    and push: "push_req a (p\<lparr>reqs := (reqs (pool S))(a \<mapsto> r)\<rparr>) = Some (n, p')"
    and p: "req_queue p = req_queue (pool S)" "res_queue p = res_queue (pool S)" "wrks p = wrks (pool S)"
  shows "\<exists>q h rq'. p' = p\<lparr>req_queue := q, reqs := h\<rparr> \<and> struct_inv (S\<lparr>pool := p'\<rparr>) rq' rs \<and>
    members (S\<lparr>pool := p'\<rparr>) rq' rs = add_mset a (members S rq rs) \<and>
    is_term h = is_term ((reqs (pool S))(a \<mapsto> r)) \<and> qsize q = qsize (req_queue (pool S)) + 1"
proof -
  note D = struct_invD [OF s]
  let ?h = "(reqs (pool S))(a \<mapsto> r)"
  have a: "a \<notin># members S rq rs" using fresh by (simp add: struct_inv_owned [OF s])
  then have frame: "same_links (set (concat rq)) (reqs (pool S)) ?h" "same_links (set (concat rs)) (reqs (pool S)) ?h"
    by (auto simp: members_def intro!: same_links_upd_other)
  from r obtain k where k: "pri_index r = Some k" by blast
  obtain q h where q: "reqq_push (req_queue (pool S)) a ?h = Some (n, q, h)"
    "p' = p\<lparr>req_queue := q, reqs := h\<rparr>"
    using push p by (auto simp: push_req_def split: bind_splits)
  have "a \<notin> set (concat rq @ concat rs)" using a by (auto simp: members_def)
  from push_beside [OF reqq_rep_frame [OF D(1) frame(1)] reqq_rep_frame [OF D(2) frame(2)] _ _ k this room q(1)]
    struct_inv_distinct [OF s]
  have h: "reqq_rep h q (fifo_push k a rq)" "reqq_rep h (res_queue (pool S)) rs" "links_only ?h h"
    "mset (concat (fifo_push k a rq)) = add_mset a (mset (concat rq))" "qsize q = qsize (req_queue (pool S)) + 1"
    by auto
  let ?S = "S\<lparr>pool := p'\<rparr>" and ?rq = "fifo_push k a rq"
  have m: "members ?S ?rq rs = add_mset a (members S rq rs)"
    using h(4) by (simp add: members_def holds_def)
  have t: "is_term h = is_term ?h" using links_only_term [OF h(3)] by blast
  have "queued h b" if "b \<in># add_mset a (members S rq rs)" for b
    using that D(6) r unfolding links_only_queued [OF h(3)] by (auto simp: queued_def)
  moreover have "\<not> is_term h b" if "b \<in> past_test S rs" for b
    using that D(7) past_test_members [of S rs rq] a t by (auto simp: is_term_def)
  moreover have "count (add_mset a (members S rq rs)) b \<le> 1" for b
    using D(5) [of b] a by (auto simp: not_in_iff)
  ultimately have "struct_inv ?S ?rq rs"
    using h D q(2) p room unfolding struct_inv_def m by (simp add: room_def past_test_def)
  with q(2) m t h(5) show ?thesis by blast
qed

text \<open>A worker at the head of its loop, or woken from a wait.\<close>

lemma shift_inv:
  assumes inv: "sys_inv S W" and w: "workers S = ws @ (self, pc) # vs"
    and pc: "held pc = []" "pc \<noteq> Quitting"
    and sh: "proc_shift self ((pool S)\<lparr>idle := idle (pool S) - (if waiting pc then 1 else 0)\<rparr>) = Some (req, s')"
  shows "sys_inv (S\<lparr>pool := s', workers := ws @ (self, next_pc req) # vs\<rparr>) W"
proof -
  from inv obtain rq rs where s: "struct_inv S rq rs" and c: "count_inv S (members S rq rs)"
    and e: "edge_inv (pool S)" and W: "W = works (reqs (pool S)) (members S rq rs)" by (rule sys_invE)
  note D = struct_invD [OF s]
  let ?p = "pool S" and ?S = "S\<lparr>pool := s', workers := ws @ (self, next_pc req) # vs\<rparr>"
  from sh obtain q wk where q: "reqq_shift (req_queue ?p) (reqs ?p) = Some (req, q)"
    and wk: "wrks ?p self = Some wk"
    and s': "s' = ?p\<lparr>req_queue := q, wrks := (wrks ?p)(self \<mapsto> wk\<lparr>wrk_req := req\<rparr>),
        idle := idle ?p - (if waiting pc then 1 else 0) + (if req = None then 1 else 0),
        nready := nready ?p - (if req = None then 0 else 1)\<rparr>"
    by (auto simp: proc_shift_def shift_req_def wupd_def Let_def split: bind_splits option.splits if_splits)
  have ring: "ring (wrks s') (map fst (workers ?S))"
  proof -
    have "ring (wrks s') (map fst (workers S)) = ring (wrks ?p) (map fst (workers S))"
      using s' wk by (intro ring_frame) auto
    with D(8) w show ?thesis by simp
  qed
  have edge: "edge_inv s'" using e s' by (simp add: edge_inv_def)
  from shift_queue [OF D(1,3)] q consider
      "req = None" "q = req_queue ?p"
    | a rq' where "req = Some a" "reqq_rep (reqs ?p) q rq'"
      "mset (concat rq) = add_mset a (mset (concat rq'))" "qsize q = qsize (req_queue ?p) - 1"
    by fastforce
  then show ?thesis
  proof cases
    case 1
    have m: "members ?S rq rs = members S rq rs"
      using 1 w pc by (simp add: members_def holds_def next_pc_def)
    have "past_test ?S rs \<subseteq> past_test S rs" using w 1 by (auto simp: past_test_def next_pc_def)
    then have "struct_inv ?S rq rs"
      unfolding struct_inv_def m using D s' 1 ring by auto
    moreover have "count_inv ?S (members S rq rs)"
      using c w pc s' 1 by (simp add: count_inv_def count_pc_def next_pc_def waiting_def)
    ultimately show ?thesis using edge m W s' by (intro sys_invI [of _ rq rs]) simp_all
  next
    case (2 a rq')
    have m: "members ?S rq' rs = members S rq rs"
      using 2 w pc by (simp add: members_def holds_def next_pc_def)
    have "past_test ?S rs \<subseteq> past_test S rs" using w 2 by (auto simp: past_test_def next_pc_def)
    then have "struct_inv ?S rq' rs"
      unfolding struct_inv_def m using D s' 2 ring by auto
    moreover have "count_inv ?S (members S rq rs)"
      using c w pc s' 2 by (simp add: count_inv_def count_pc_def next_pc_def waiting_def)
    ultimately show ?thesis using edge m W s' by (intro sys_invI [of _ rq' rs]) simp_all
  qed
qed

text \<open>A request some program counter holds goes to the result queue.\<close>

lemma put_result_spec:
  assumes s: "struct_inv S rq rs" and a: "a \<in> set (holds S)" and room: "room (res_queue (pool S))"
    and put: "put_result a (pool S) = Some p'" and edge: "edge_inv (pool S)"
  shows "\<exists>q h rs' tr. p' = (pool S)\<lparr>npending := npending (pool S) + 1, res_queue := q, reqs := h, trace := tr\<rparr> \<and>
    reqq_rep h (req_queue (pool S)) rq \<and> reqq_rep h q rs' \<and> links_only (reqs (pool S)) h \<and>
    mset (concat rs') = add_mset a (mset (concat rs)) \<and> qsize q = qsize (res_queue (pool S)) + 1 \<and>
    edge_inv p'"
proof -
  note D = struct_invD [OF s]
  have "a \<in># members S rq rs" using a by (simp add: members_def)
  from D(6) [OF this] obtain r k where r: "reqs (pool S) a = Some r" "pri_index r = Some k"
    by (auto simp: queued_def)
  from put obtain n q h where q: "reqq_push (res_queue (pool S)) a (reqs (pool S)) = Some (n, q, h)"
    and p': "p' = trace_if (n = 0 \<and> want_poll_cb (pool S) \<noteq> None) Want_poll
      ((pool S)\<lparr>npending := npending (pool S) + 1, res_queue := q, reqs := h\<rparr>)"
    by (auto simp: put_result_def push_res_def split: bind_splits)
  have dist: "distinct (concat rs @ concat rq)" "a \<notin> set (concat rs @ concat rq)"
    using struct_inv_distinct [OF s] a by auto
  from push_beside [OF D(2,1) dist(1) r dist(2) room q] have
    h: "reqq_rep h q (fifo_push k a rs)" "reqq_rep h (req_queue (pool S)) rq" "links_only (reqs (pool S)) h"
      "mset (concat (fifo_push k a rs)) = add_mset a (mset (concat rs))"
      "n = int (length (concat rs))" "qsize q = qsize (res_queue (pool S)) + 1" by blast+
  have "n = qsize (res_queue (pool S))" "0 \<le> n" using h(5) reqq_repD(6) [OF D(2)] by simp_all
  then have "edge_inv p'"
    using edge h(6) p' by (auto simp: edge_inv_def trace_if_def)
  moreover have "p' = (pool S)\<lparr>npending := npending (pool S) + 1, res_queue := q, reqs := h, trace := trace p'\<rparr>"
    by (rule etp.equality) (simp_all add: p' trace_if_def)
  ultimately show ?thesis using h by blast
qed

lemma count_inv_put:
  assumes "is_term h = is_term (reqs (pool S))"
    and "count_inv S M" and "qsize q = qsize (res_queue (pool S)) + 1"
    and "pool S' = (pool S)\<lparr>npending := npending (pool S) + 1, res_queue := q, reqs := h, trace := tr, wrks := w\<rparr>"
    and "ended S' = ended S" and "length (workers S') = length (workers S)"
    and "count_pc waiting S' = count_pc waiting S" and "count_pc ((=) Quitting) S' = count_pc ((=) Quitting) S"
    and "main S' = M_end \<longleftrightarrow> main S = M_end"
  shows "count_inv S' M"
  using assms by (simp add: count_inv_def terms_def works_def)

lemma links_only_works: "links_only h h' \<Longrightarrow> works h' M = works h M"
  by (rule works_cong) (rule links_only_term)

lemma struct_inv_put:
  assumes s: "struct_inv S rq rs" and h: "reqq_rep h (req_queue (pool S)) rq" "reqq_rep h q rs'"
    "links_only (reqs (pool S)) h" "mset (concat rs') = add_mset a (mset (concat rs))"
    "qsize q = qsize (res_queue (pool S)) + 1" and room: "room (res_queue (pool S))"
    and a: "\<not> is_term (reqs (pool S)) a" and hold: "mset (holds S) = add_mset a (mset (holds S'))"
    and p: "pool S' = (pool S)\<lparr>npending := npending (pool S) + 1, res_queue := q, reqs := h, trace := tr, wrks := w\<rparr>"
    and past: "past_test S' rs \<subseteq> past_test S rs" and ring: "ring w (map fst (workers S'))"
  shows "struct_inv S' rq rs' \<and> members S' rq rs' = members S rq rs"
proof -
  note D = struct_invD [OF s]
  have m: "members S' rq rs' = members S rq rs" using h(4) hold by (simp add: members_def)
  have t: "is_term h = is_term (reqs (pool S))" "queued h = queued (reqs (pool S))"
    using links_only_term [OF h(3)] links_only_queued [OF h(3)] by blast+
  have "set (concat rs') = insert a (set (concat rs))"
    using h(4) by (metis set_mset_add_mset_insert set_mset_mset)
  then have "past_test S' rs' \<subseteq> insert a (past_test S rs)" using past by (auto simp: past_test_def)
  with D(7) a have "\<forall>b \<in> past_test S' rs'. \<not> is_term h b" unfolding t by blast
  then show ?thesis
    unfolding struct_inv_def m using D(3-6) h(1,2,5) p ring room t by (simp add: room_def)
qed

lemma group_result_inv:
  assumes inv: "sys_inv S W" and m: "main S = M_group req" and room: "room (res_queue (pool S))"
    and put: "put_result req (pool S) = Some s'"
  shows "sys_inv (S\<lparr>pool := s', main := M_client\<rparr>) W"
proof -
  from inv obtain rq rs where s: "struct_inv S rq rs" and c: "count_inv S (members S rq rs)"
    and e: "edge_inv (pool S)" and W: "W = works (reqs (pool S)) (members S rq rs)" by (rule sys_invE)
  let ?S = "S\<lparr>pool := s', main := M_client\<rparr>"
  have hold: "req \<in> set (holds S)" using m by (simp add: holds_def)
  from put_result_spec [OF s hold room put e] obtain q h rs' tr where
    s': "s' = (pool S)\<lparr>npending := npending (pool S) + 1, res_queue := q, reqs := h, trace := tr\<rparr>"
    and h: "reqq_rep h (req_queue (pool S)) rq" "reqq_rep h q rs'" "links_only (reqs (pool S)) h"
      "mset (concat rs') = add_mset req (mset (concat rs))" "qsize q = qsize (res_queue (pool S)) + 1"
    and edge: "edge_inv s'" by blast
  have eq: "pool ?S = (pool S)\<lparr>npending := npending (pool S) + 1, res_queue := q, reqs := h,
      trace := tr, wrks := wrks (pool S)\<rparr>" using s' by simp
  have t: "\<not> is_term (reqs (pool S)) req"
    using struct_invD(7) [OF s, of req] m by (simp add: past_test_def)
  have "struct_inv ?S rq rs' \<and> members ?S rq rs' = members S rq rs"
    by (rule struct_inv_put [OF s h room t _ eq])
      (use m struct_invD(8) [OF s] in \<open>auto simp: holds_def past_test_def\<close>)
  moreover have "count_inv ?S (members S rq rs)"
    by (rule count_inv_put [OF _ c h(5) eq])
      (use m links_only_term [OF h(3)] in \<open>auto simp: count_pc_def\<close>)
  moreover have "works h (members S rq rs) = W" unfolding W by (rule links_only_works [OF h(3)])
  ultimately show ?thesis using edge s' by (intro sys_invI [of _ rq rs']) simp_all
qed

lemma hand_over_inv:
  assumes inv: "sys_inv S W" and w: "workers S = ws @ (self, Ran req) # vs"
    and room: "room (res_queue (pool S))" and don: "proc_done self req (pool S) = Some s'"
  shows "sys_inv (S\<lparr>pool := s', workers := ws @ (self, At_loop) # vs\<rparr>) W"
proof -
  from inv obtain rq rs where s: "struct_inv S rq rs" and c: "count_inv S (members S rq rs)"
    and e: "edge_inv (pool S)" and W: "W = works (reqs (pool S)) (members S rq rs)" by (rule sys_invE)
  let ?S = "S\<lparr>pool := s', workers := ws @ (self, At_loop) # vs\<rparr>"
  from don obtain p wk bufs dirs where put: "put_result req (pool S) = Some p"
    and wk: "wrks p self = Some wk" and s0: "s' = p\<lparr>wrks := (wrks p)(self \<mapsto> wk\<lparr>wrk_req := None, dbuf := 0, dirp := 0\<rparr>),
      trace := map Close_dir dirs @ map Free_buf bufs @ trace p\<rparr>"
    by (auto simp: proc_done_def etp_worker_clear_def wupd_def split: bind_splits option.splits)
  have hold: "req \<in> set (holds S)" using w by (simp add: holds_def)
  from put_result_spec [OF s hold room put e] obtain q h rs' tr where
    p: "p = (pool S)\<lparr>npending := npending (pool S) + 1, res_queue := q, reqs := h, trace := tr\<rparr>"
    and h: "reqq_rep h (req_queue (pool S)) rq" "reqq_rep h q rs'" "links_only (reqs (pool S)) h"
      "mset (concat rs') = add_mset req (mset (concat rs))" "qsize q = qsize (res_queue (pool S)) + 1"
    and edge: "edge_inv p" by blast
  have eq: "pool ?S = (pool S)\<lparr>npending := npending (pool S) + 1, res_queue := q, reqs := h,
      trace := map Close_dir dirs @ map Free_buf bufs @ trace p, wrks := wrks s'\<rparr>"
    using s0 p by (intro etp.equality) simp_all
  have alt: "alternates (map Close_dir dirs @ map Free_buf bufs @ tr) b = alternates tr b" for tr b
  proof -
    have "alternates (map Free_buf bufs @ tr) b = alternates tr b" by (induction bufs) auto
    then show ?thesis by (induction dirs) auto
  qed
  have edge': "edge_inv s'" using edge s0 by (simp add: edge_inv_def alt)
  have "ring (wrks s') (map fst (workers S)) = ring (wrks (pool S)) (map fst (workers S))"
    using s0 p wk by (intro ring_frame) auto
  then have ring: "ring (wrks s') (map fst (workers ?S))" using struct_invD(8) [OF s] w by simp
  have t: "\<not> is_term (reqs (pool S)) req"
    using struct_invD(7) [OF s, of req] w by (simp add: past_test_def)
  have "struct_inv ?S rq rs' \<and> members ?S rq rs' = members S rq rs"
    by (rule struct_inv_put [OF s h room t _ eq])
      (use w ring in \<open>auto simp: holds_def past_test_def\<close>)
  moreover have "count_inv ?S (members S rq rs)"
    by (rule count_inv_put [OF _ c h(5) eq])
      (use w links_only_term [OF h(3)] in \<open>auto simp: count_pc_def waiting_def\<close>)
  moreover have "works (reqs s') (members S rq rs) = W"
    using links_only_works [OF h(3)] s0 p by (simp add: W)
  ultimately show ?thesis using edge' by (intro sys_invI [of _ rq rs']) simp_all
qed

lemma poll_take_inv:
  assumes inv: "sys_inv S W" and m: "main S = M_poll" and take: "take_result (pool S) = Some (req, s')"
  shows "sys_inv (S\<lparr>pool := s', main := (case req of None \<Rightarrow> M_client | Some a \<Rightarrow> M_took a)\<rparr>) W"
proof -
  from inv obtain rq rs where s: "struct_inv S rq rs" and c: "count_inv S (members S rq rs)"
    and e: "edge_inv (pool S)" and W: "W = works (reqs (pool S)) (members S rq rs)" by (rule sys_invE)
  note D = struct_invD [OF s]
  let ?p = "pool S" and ?S = "S\<lparr>pool := s', main := (case req of None \<Rightarrow> M_client | Some a \<Rightarrow> M_took a)\<rparr>"
  from take obtain q where q: "reqq_shift (res_queue ?p) (reqs ?p) = Some (req, q)"
    by (auto simp: take_result_def shift_res_def split: bind_splits option.splits)
  from shift_queue [OF D(2,4)] q consider
      "req = None" "q = res_queue ?p" "concat rs = []"
    | a rs' where "req = Some a" "reqq_rep (reqs ?p) q rs'"
      "mset (concat rs) = add_mset a (mset (concat rs'))" "qsize q = qsize (res_queue ?p) - 1"
    by fastforce
  then show ?thesis
  proof cases
    case 1
    then have s': "s' = ?p" using take q by (simp add: take_result_def shift_res_def)
    have mm: "members ?S rq rs = members S rq rs" using 1 m by (simp add: members_def holds_def)
    have "past_test ?S rs = past_test S rs" using 1 m by (simp add: past_test_def)
    then have "struct_inv ?S rq rs" unfolding struct_inv_def mm using D s' by simp
    moreover have "count_inv ?S (members S rq rs)"
      using c m 1 s' by (simp add: count_inv_def count_pc_def)
    ultimately show ?thesis using e mm s' W by (intro sys_invI [of _ rq rs]) simp_all
  next
    case (2 a rs')
    then have s': "s' = trace_if (qsize q = 0 \<and> done_poll_cb ?p \<noteq> None) Done_poll
        (?p\<lparr>res_queue := q, npending := npending ?p - 1\<rparr>)"
      using take q by (simp add: take_result_def shift_res_def)
    have size: "0 < qsize (res_queue ?p)" "0 \<le> qsize q"
      using reqq_repD(6) [OF D(2)] reqq_repD(6) [OF 2(2)] mset_eq_length [of "concat rs" "a # concat rs'"] 2(3)
      by simp_all
    have s'_sel: "reqs s' = reqs ?p" "req_queue s' = req_queue ?p" "res_queue s' = q" "wrks s' = wrks ?p"
      "npending s' = npending ?p - 1" "nready s' = nready ?p" "nreqs s' = nreqs ?p" "idle s' = idle ?p"
      "started s' = started ?p" by (simp_all add: s' trace_if_def)
    have mm: "members ?S rq rs' = members S rq rs" using 2 m by (simp add: members_def holds_def)
    have "set (concat rs) = insert a (set (concat rs'))"
      using 2(3) by (metis set_mset_add_mset_insert set_mset_mset)
    then have "past_test ?S rs' \<subseteq> past_test S rs" using 2(1) by (auto simp: past_test_def)
    with D 2 have "struct_inv ?S rq rs'" unfolding struct_inv_def mm by (auto simp: s'_sel)
    moreover have "count_inv ?S (members S rq rs)"
      using c m 2 by (simp add: count_inv_def count_pc_def s'_sel)
    moreover have "edge_inv s'" using e 2(4) size by (auto simp: s' edge_inv_def trace_if_def)
    ultimately show ?thesis using mm W s'_sel by (intro sys_invI [of _ rq rs']) simp_all
  qed
qed

lemma submit_pri_range: "0 \<le> sint (submit_pri p)" "sint (submit_pri p) \<le> 8"
proof -
  have "sint (to_schar 0) = 0" "sint (to_schar 8) = 8" by (simp_all add: sint_to_schar)
  then show "0 \<le> sint (submit_pri p)" "sint (submit_pri p) \<le> 8"
    by (auto simp: submit_pri_def eio_pri_defs Let_def)
qed

lemma submit_pri_index: "pri_index (r\<lparr>pri := submit_pri p\<rparr>) \<noteq> None"
  using submit_pri_range [of p] by (simp add: pri_index_def)

lemma is_term_upd_other: "a \<notin># M \<Longrightarrow> terms (h(a \<mapsto> r)) M = terms h M" "a \<notin># M \<Longrightarrow> works (h(a \<mapsto> r)) M = works h M"
  by (rule terms_cong, simp add: is_term_def, blast) (rule works_cong, simp add: is_term_def, blast)

lemma terms_work_eq: "is_term h = is_term h' \<Longrightarrow> terms h = terms h'" "is_term h = is_term h' \<Longrightarrow> works h = works h'"
  by (auto simp: terms_def works_def)

lemma submit_inv:
  assumes inv: "sys_inv S W" and m: "main S = M_client" and fresh: "req \<notin> owned S"
    and ty: "0 \<le> req_type r" and room: "room (req_queue (pool S))"
    and put: "put_request req ((pool S)\<lparr>reqs := (reqs (pool S))(req \<mapsto> r\<lparr>pri := submit_pri (pri r)\<rparr>)\<rparr>) = Some s'"
  shows "sys_inv (S\<lparr>pool := s', main := M_start In_submit\<rparr>) (add_mset req W) \<and> req \<notin># W"
proof -
  from inv obtain rq rs where s: "struct_inv S rq rs" and c: "count_inv S (members S rq rs)"
    and e: "edge_inv (pool S)" and W: "W = works (reqs (pool S)) (members S rq rs)" by (rule sys_invE)
  let ?r = "r\<lparr>pri := submit_pri (pri r)\<rparr>" and ?p = "pool S"
  let ?p1 = "?p\<lparr>nreqs := nreqs ?p + 1, nready := nready ?p + 1\<rparr>"
  from put obtain n p' where push: "push_req req (?p1\<lparr>reqs := (reqs ?p)(req \<mapsto> ?r)\<rparr>) = Some (n, p')"
    and s': "s' = p'\<lparr>trace := Cond_signal # trace p'\<rparr>"
  proof -
    have "?p\<lparr>reqs := (reqs ?p)(req \<mapsto> ?r), nreqs := nreqs ?p + 1, nready := nready ?p + 1\<rparr> =
        ?p1\<lparr>reqs := (reqs ?p)(req \<mapsto> ?r)\<rparr>" by simp
    with put that show thesis by (auto simp: put_request_def trace_if_def split: bind_splits)
  qed
  from enter_inv [OF s fresh submit_pri_index room push] obtain q h rq' where
    p': "p' = ?p1\<lparr>req_queue := q, reqs := h\<rparr>" and st: "struct_inv (S\<lparr>pool := p'\<rparr>) rq' rs"
    and mm: "members (S\<lparr>pool := p'\<rparr>) rq' rs = add_mset req (members S rq rs)"
    and t: "is_term h = is_term ((reqs ?p)(req \<mapsto> ?r))" and sz: "qsize q = qsize (req_queue ?p) + 1" by auto
  let ?S = "S\<lparr>pool := s', main := M_start In_submit\<rparr>"
  have mm': "members ?S rq' rs = members (S\<lparr>pool := p'\<rparr>) rq' rs" using m by (simp add: members_def holds_def)
  have "struct_inv ?S rq' rs"
    using st m unfolding struct_inv_def mm' by (simp add: s' past_test_def)
  moreover have n: "req \<notin># members S rq rs" using fresh by (simp add: struct_inv_owned [OF s])
  moreover have nt: "\<not> is_term ((reqs ?p)(req \<mapsto> ?r)) req" using ty by (simp add: is_term_def)
  moreover have "count_inv ?S (members ?S rq' rs)"
  proof -
    from nt c m n sz show ?thesis unfolding count_inv_def mm' mm
      by (simp add: s' p' terms_work_eq [OF t] is_term_upd_other count_pc_def)
  qed
  moreover have "edge_inv s'" using e by (simp add: edge_inv_def s' p')
  moreover have "works (reqs (pool ?S)) (members ?S rq' rs) = add_mset req W"
    unfolding mm' mm W using nt n by (simp add: s' p' terms_work_eq [OF t] is_term_upd_other)
  moreover have "req \<notin># W" using n by (simp add: W works_def)
  ultimately show ?thesis by (intro conjI sys_invI [of _ rq' rs]) simp_all
qed

lemma end_push_inv:
  assumes inv: "sys_inv S W" and m: "main S = M_client" and fresh: "reqs (pool S) mem = None"
    and room: "room (req_queue (pool S))"
    and push: "push_req mem ((pool S)\<lparr>reqs := (reqs (pool S))(mem \<mapsto> terminator)\<rparr>) = Some (n, s')"
  shows "sys_inv (S\<lparr>pool := trace_if True Cond_signal s', main := M_end, ended := Suc (ended S)\<rparr>) W"
proof -
  from inv obtain rq rs where s: "struct_inv S rq rs" and c: "count_inv S (members S rq rs)"
    and e: "edge_inv (pool S)" and W: "W = works (reqs (pool S)) (members S rq rs)" by (rule sys_invE)
  let ?p = "pool S"
  have out: "mem \<notin> owned S"
    using struct_invD(6) [OF s, of mem] fresh by (auto simp: struct_inv_owned [OF s] queued_def)
  have "pri_index terminator \<noteq> None"
    by (simp add: pri_index_def terminator_def eio_pri_defs sint_to_schar)
  from enter_inv [OF s out this room push] obtain q h rq' where
    p': "s' = ?p\<lparr>req_queue := q, reqs := h\<rparr>" and st: "struct_inv (S\<lparr>pool := s'\<rparr>) rq' rs"
    and mm: "members (S\<lparr>pool := s'\<rparr>) rq' rs = add_mset mem (members S rq rs)"
    and t: "is_term h = is_term ((reqs ?p)(mem \<mapsto> terminator))" and sz: "qsize q = qsize (req_queue ?p) + 1" by auto
  let ?S = "S\<lparr>pool := trace_if True Cond_signal s', main := M_end, ended := Suc (ended S)\<rparr>"
  have mm': "members ?S rq' rs = members (S\<lparr>pool := s'\<rparr>) rq' rs" using m by (simp add: members_def holds_def)
  have "struct_inv ?S rq' rs"
    using st m unfolding struct_inv_def mm' by (simp add: trace_if_def past_test_def)
  moreover have "count_inv ?S (members ?S rq' rs)"
  proof -
    have n: "mem \<notin># members S rq rs" using out by (simp add: struct_inv_owned [OF s])
    have "is_term ((reqs ?p)(mem \<mapsto> terminator)) mem" by (simp add: is_term_def terminator_def)
    with c m n sz show ?thesis unfolding count_inv_def mm' mm
      by (simp add: trace_if_def p' terms_work_eq [OF t] is_term_upd_other count_pc_def)
  qed
  moreover have "edge_inv (pool ?S)" using e by (simp add: edge_inv_def trace_if_def p')
  moreover have "works (reqs (pool ?S)) (members ?S rq' rs) = W"
  proof -
    have "mem \<notin># members S rq rs" using out by (simp add: struct_inv_owned [OF s])
    moreover have "is_term ((reqs ?p)(mem \<mapsto> terminator)) mem" by (simp add: is_term_def terminator_def)
    ultimately show ?thesis
      unfolding mm' mm W by (simp add: trace_if_def p' terms_work_eq [OF t] is_term_upd_other)
  qed
  ultimately show ?thesis by (intro sys_invI [of _ rq' rs]) simp_all
qed

lemma submit_group_inv:
  assumes inv: "sys_inv S W" and m: "main S = M_client" and fresh: "req \<notin> owned S"
    and ty: "0 \<le> req_type r"
  shows "sys_inv (S\<lparr>pool := (pool S)\<lparr>reqs := (reqs (pool S))(req \<mapsto> r\<lparr>pri := submit_pri (pri r)\<rparr>),
      nreqs := nreqs (pool S) + 1\<rparr>, main := M_group req\<rparr>) (add_mset req W) \<and> req \<notin># W"
    (is "sys_inv ?S _ \<and> _")
proof -
  from inv obtain rq rs where s: "struct_inv S rq rs" and c: "count_inv S (members S rq rs)"
    and e: "edge_inv (pool S)" and W: "W = works (reqs (pool S)) (members S rq rs)" by (rule sys_invE)
  note D = struct_invD [OF s]
  let ?r = "r\<lparr>pri := submit_pri (pri r)\<rparr>" and ?p = "pool S"
  let ?h = "(reqs ?p)(req \<mapsto> ?r)"
  have a: "req \<notin># members S rq rs" using fresh by (simp add: struct_inv_owned [OF s])
  have mm: "members ?S rq rs = add_mset req (members S rq rs)"
    using m by (simp add: members_def holds_def)
  have "same_links (set (concat rq)) (reqs ?p) ?h" "same_links (set (concat rs)) (reqs ?p) ?h"
    using a by (auto simp: members_def intro!: same_links_upd_other)
  then have rep: "reqq_rep ?h (req_queue ?p) rq" "reqq_rep ?h (res_queue ?p) rs"
    using D(1,2) by (blast intro: reqq_rep_frame)+
  have "\<not> is_term ?h b" if "b \<in> past_test ?S rs" for b
  proof (cases "b = req")
    case False
    then have "b \<in> past_test S rs" using that m by (auto simp: past_test_def)
    with D(7) False show ?thesis by (simp add: is_term_def)
  qed (use ty in \<open>simp add: is_term_def\<close>)
  moreover have "queued ?h b" if "b \<in># add_mset req (members S rq rs)" for b
    using that D(6) submit_pri_index [of "pri r" r] by (auto simp: queued_def)
  moreover have "count (add_mset req (members S rq rs)) b \<le> 1" for b
    using D(5) [of b] a by (auto simp: not_in_iff)
  ultimately have "struct_inv ?S rq rs"
    unfolding struct_inv_def mm using D(3,4,8) rep by simp
  moreover have "count_inv ?S (members ?S rq rs)"
    using c m a ty unfolding count_inv_def mm
    by (simp add: is_term_upd_other count_pc_def is_term_def)
  moreover have "edge_inv (pool ?S)" using e by (simp add: edge_inv_def)
  moreover have "works (reqs (pool ?S)) (members ?S rq rs) = add_mset req W"
    unfolding mm W using a ty by (simp add: is_term_upd_other) (simp add: is_term_def)
  moreover have "req \<notin># W" using a by (simp add: W works_def)
  ultimately show ?thesis by (intro conjI sys_invI)
qed

text \<open>Steps that touch the queues not at all.\<close>

lemma deliver_inv:
  assumes inv: "sys_inv S W" and m: "main S = M_took req"
  shows "sys_inv (S\<lparr>pool := (pool S)\<lparr>nreqs := nreqs (pool S) - 1\<rparr>, main := M_client\<rparr>) (W - {#req#}) \<and> req \<in># W"
    (is "sys_inv ?S _ \<and> _")
proof -
  from inv obtain rq rs where s: "struct_inv S rq rs" and c: "count_inv S (members S rq rs)"
    and e: "edge_inv (pool S)" and W: "W = works (reqs (pool S)) (members S rq rs)" by (rule sys_invE)
  note D = struct_invD [OF s]
  have mm: "members S rq rs = add_mset req (members ?S rq rs)"
    using m by (simp add: members_def holds_def)
  have t: "\<not> is_term (reqs (pool S)) req" using D(7) [of req] m by (simp add: past_test_def)
  have "past_test ?S rs \<subseteq> past_test S rs" by (auto simp: past_test_def)
  moreover have "count (members ?S rq rs) b \<le> 1" for b
    using D(5) [of b] unfolding mm by (simp split: if_splits)
  ultimately have "struct_inv ?S rq rs"
    using D unfolding struct_inv_def mm by auto
  moreover have "count_inv ?S (members ?S rq rs)"
    using c m t unfolding count_inv_def mm by (simp add: count_pc_def diff_eq_eq add.commute)
  moreover have "edge_inv (pool ?S)" using e by (simp add: edge_inv_def)
  moreover have "works (reqs (pool ?S)) (members ?S rq rs) = W - {#req#}" "req \<in># W"
    using t unfolding W mm by simp_all
  ultimately show ?thesis by (intro conjI sys_invI)
qed

lemma end_count_inv:
  assumes inv: "sys_inv S W" and m: "main S = M_end"
  shows "sys_inv (S\<lparr>pool := (pool S)\<lparr>started := started (pool S) - 1\<rparr>, main := M_client\<rparr>) W" (is "sys_inv ?S _")
proof -
  from inv obtain rq rs where s: "struct_inv S rq rs" and c: "count_inv S (members S rq rs)"
    and e: "edge_inv (pool S)" and W: "W = works (reqs (pool S)) (members S rq rs)" by (rule sys_invE)
  have mm: "members ?S rq rs = members S rq rs" using m by (simp add: members_def holds_def)
  have "past_test ?S rs = past_test S rs" using m by (simp add: past_test_def)
  then have "struct_inv ?S rq rs" using s unfolding struct_inv_def mm by simp
  moreover have "count_inv ?S (members ?S rq rs)"
    using c m unfolding count_inv_def mm by (simp add: count_pc_def algebra_simps)
  moreover have "edge_inv (pool ?S)" using e by (simp add: edge_inv_def)
  moreover have "works (reqs (pool ?S)) (members ?S rq rs) = W" unfolding W mm by simp
  ultimately show ?thesis by (intro sys_invI)
qed

text \<open>
  A worker changes its counter, dropping nothing or a terminator, while \<open>idle\<close> and \<open>started\<close>
  move along.
\<close>

lemma worker_inv:
  assumes inv: "sys_inv S W" and w: "workers S = ws @ (self, pc) # vs"
    and pc: "held pc' = []" "held pc = [] \<or> (\<exists>a. pc = Took a \<and> is_term (reqs (pool S)) a)"
    and p': "p' = (pool S)\<lparr>idle := i, started := n\<rparr>"
    and i: "i + (if waiting pc then 1 else 0) = idle (pool S) + (if waiting pc' then 1 else 0)"
    and n: "n + (if pc' = Quitting then 1 else 0) =
      started (pool S) + (if pc = Quitting then 1 else 0) + (if held pc = [] then 0 else 1)"
  shows "sys_inv (S\<lparr>pool := p', workers := ws @ (self, pc') # vs\<rparr>) W" (is "sys_inv ?S _")
proof -
  from inv obtain rq rs where s: "struct_inv S rq rs" and c: "count_inv S (members S rq rs)"
    and e: "edge_inv (pool S)" and W: "W = works (reqs (pool S)) (members S rq rs)" by (rule sys_invE)
  note D = struct_invD [OF s]
  have mm: "members S rq rs = mset (held pc) + members ?S rq rs"
    using w pc by (simp add: members_def holds_def)
  have "Ran a \<noteq> pc'" for a using pc(1) by auto
  then have "past_test ?S rs \<subseteq> past_test S rs" using w by (auto simp: past_test_def)
  moreover have "count (members ?S rq rs) b \<le> 1" for b
    using D(5) [of b] unfolding mm by simp
  ultimately have "struct_inv ?S rq rs"
    using D w unfolding struct_inv_def mm by (auto simp: p')
  moreover have "count_inv ?S (members ?S rq rs)"
  proof -
    let ?M = "members ?S rq rs" and ?h = "reqs (pool S)"
    have t: "terms ?h (members S rq rs) = (if held pc = [] then 0 else 1) + terms ?h ?M"
      "works ?h (members S rq rs) = works ?h ?M"
      using pc(2) unfolding mm by auto
    have k: "count_pc P S + (if P pc' then 1 else 0) = count_pc P ?S + (if P pc then 1 else 0)" for P
      using w by (simp add: count_pc_def)
    have k': "of_nat (count_pc P ?S) =
        of_nat (count_pc P S) + (if P pc' then 1 else 0) - (if P pc then 1 else 0 :: 32 word)" for P
      using arg_cong [OF k [of P], of "of_nat :: nat \<Rightarrow> 32 word"]
      by (simp add: eq_diff_eq split: if_splits)
    have i': "i = idle (pool S) + (if waiting pc' then 1 else 0) - (if waiting pc then 1 else 0)"
      using i by (simp add: eq_diff_eq)
    have n': "n = started (pool S) + (if pc = Quitting then 1 else 0) + (if held pc = [] then 0 else 1) -
        (if pc' = Quitting then 1 else 0)"
      using n by (simp add: eq_diff_eq)
    have "i = of_nat (count_pc waiting ?S)" using c by (simp add: i' k' count_inv_def)
    moreover have "n + of_nat (terms ?h ?M + count_pc ((=) Quitting) ?S) =
        started (pool S) + of_nat (terms ?h (members S rq rs) + count_pc ((=) Quitting) S)"
      unfolding of_nat_add t k' n' by (auto simp: algebra_simps)
    moreover have "length (workers ?S) = length (workers S)" using w by simp
    ultimately show ?thesis using c t(2) by (simp add: count_inv_def p')
  qed
  moreover have "edge_inv (pool ?S)" using e by (simp add: edge_inv_def p')
  moreover have "works (reqs (pool ?S)) (members ?S rq rs) = W" using pc(2) unfolding W mm by (auto simp: p')
  ultimately show ?thesis by (intro sys_invI)
qed

lemma timeout_inv:
  assumes inv: "sys_inv S W" and w: "workers S = ws @ (self, Timed_wait) # vs"
    and out: "proc_timeout (pool S) = (stop, s')"
  shows "sys_inv (S\<lparr>pool := s', workers := ws @ (self, if stop then Stopping else Long_wait) # vs\<rparr>) W"
proof (cases stop)
  case True
  with out have "s' = (pool S)\<lparr>idle := idle (pool S) - 1, started := started (pool S)\<rparr>"
    by (auto simp: proc_timeout_def split: if_splits)
  with True show ?thesis
    using worker_inv [OF inv w, of Stopping] by (simp add: waiting_def)
next
  case False
  with out have "s' = (pool S)\<lparr>idle := idle (pool S), started := started (pool S)\<rparr>"
    by (auto simp: proc_timeout_def split: if_splits)
  with False show ?thesis
    using worker_inv [OF inv w, of Long_wait] by (simp add: waiting_def)
qed

lemma stop_inv:
  assumes inv: "sys_inv S W" and w: "workers S = ws @ (self, Stopping) # vs"
  shows "sys_inv (S\<lparr>pool := proc_stop (pool S), workers := ws @ (self, Quitting) # vs\<rparr>) W"
  by (rule worker_inv [OF inv w, where i = "idle (pool S)" and n = "started (pool S) - 1"])
    (simp_all add: proc_stop_def waiting_def)

lemma quit_terminator_inv:
  assumes inv: "sys_inv S W" and w: "workers S = ws @ (self, Took req) # vs"
    and r: "reqs (pool S) req = Some r" "req_type r < 0"
  shows "sys_inv (S\<lparr>workers := ws @ (self, Quitting) # vs\<rparr>) W"
proof -
  have "sys_inv (S\<lparr>pool := pool S, workers := ws @ (self, Quitting) # vs\<rparr>) W"
    by (rule worker_inv [OF inv w, where i = "idle (pool S)" and n = "started (pool S)"])
      (simp_all add: waiting_def is_term_def r)
  then show ?thesis by simp
qed

lemma quit_inv:
  assumes inv: "sys_inv S W" and w: "workers S = ws @ (self, Quitting) # vs"
    and quit: "proc_quit self (pool S) = Some s'"
  shows "sys_inv (S\<lparr>pool := s', workers := ws @ vs\<rparr>) W" (is "sys_inv ?S _")
proof -
  from inv obtain rq rs where s: "struct_inv S rq rs" and c: "count_inv S (members S rq rs)"
    and e: "edge_inv (pool S)" and W: "W = works (reqs (pool S)) (members S rq rs)" by (rule sys_invE)
  note D = struct_invD [OF s]
  have "self \<in> set (map fst (workers S))" using w by simp
  from worker_free_ring [OF D(8) this] quit obtain wh where
    s': "s' = (pool S)\<lparr>wrks := wh\<rparr>" and ring: "ring wh (remove1 self (map fst (workers S)))"
    by (auto simp: proc_quit_def)
  have "distinct (map fst (workers S))" using D(8) by (simp add: ring_def)
  then have "remove1 self (map fst (workers S)) = map fst (ws @ vs)"
    using w by (simp add: remove1_append image_iff)
  with ring have ring': "ring wh (map fst (workers ?S))" by simp
  have mm: "members ?S rq rs = members S rq rs" using w by (simp add: members_def holds_def)
  have "past_test ?S rs = past_test S rs" using w by (auto simp: past_test_def)
  then have "struct_inv ?S rq rs" using D(1-7) ring' unfolding struct_inv_def mm by (simp add: s')
  moreover have "count_inv ?S (members ?S rq rs)"
    using c w unfolding count_inv_def mm by (simp add: count_pc_def s' waiting_def algebra_simps)
  moreover have "edge_inv (pool ?S)" using e by (simp add: edge_inv_def s')
  moreover have "works (reqs (pool ?S)) (members ?S rq rs) = W" unfolding W mm by (simp add: s')
  ultimately show ?thesis by (intro sys_invI)
qed

text \<open>Starting a thread, if the counters ask for it.\<close>

lemma return_held [simp]: "main_held (return_to c) = []"
  by (cases c) simp_all

lemma start_read_quiet:
  "start_read s m = Some m' \<Longrightarrow> main_held m = [] \<and> main_held m' = [] \<and> m \<noteq> M_end \<and> m' \<noteq> M_end"
  by (induction s m rule: start_read.induct) (auto split: if_splits)

text \<open>A step of the submitting thread that only moves its program counter.\<close>

lemma main_inv:
  assumes inv: "sys_inv S W" and m: "main_held (main S) = []" "main S \<noteq> M_end" "main_held m' = []" "m' \<noteq> M_end"
  shows "sys_inv (S\<lparr>main := m'\<rparr>) W" (is "sys_inv ?S _")
proof -
  from inv obtain rq rs where s: "struct_inv S rq rs" and c: "count_inv S (members S rq rs)"
    and e: "edge_inv (pool S)" and W: "W = works (reqs (pool S)) (members S rq rs)" by (rule sys_invE)
  note D = struct_invD [OF s]
  have mm: "members ?S rq rs = members S rq rs" using m by (simp add: members_def holds_def)
  have "past_test ?S rs = past_test S rs" using m by (simp add: past_test_def)
  with D have "struct_inv ?S rq rs" unfolding struct_inv_def mm by simp
  moreover have "count_inv ?S (members ?S rq rs)"
    using c m unfolding count_inv_def mm by (simp add: count_pc_def)
  moreover have "edge_inv (pool ?S)" using e by simp
  moreover have "works (reqs (pool ?S)) (members ?S rq rs) = W" unfolding W mm by simp
  ultimately show ?thesis by (intro sys_invI)
qed

lemma start_thread_cases:
  assumes "etp_start_thread (Some wrk) created p = Some p'"
  shows "p' = p \<or> (\<exists>w. etp_worker_link wrk ((wrks p)(wrk \<mapsto> zero_worker)) = Some w \<and>
    p' = p\<lparr>wrks := w, started := started p + 1\<rparr>)"
  using assms by (auto simp: etp_start_thread_def split: if_splits bind_splits)

lemma start_read_inv:
  assumes "sys_inv S W" and "start_read (pool S) (main S) = Some m"
  shows "sys_inv (S\<lparr>main := m\<rparr>) W"
  using main_inv [OF assms(1)] start_read_quiet [OF assms(2)] by blast

lemma poll_inv: "sys_inv S W \<Longrightarrow> main S = M_client \<Longrightarrow> sys_inv (S\<lparr>main := M_start In_poll\<rparr>) W"
  by (rule main_inv) simp_all

lemma create_inv:
  assumes inv: "sys_inv S W" and m: "main S = M_create cl"
    and wrk: "wrk \<noteq> wrk_first" "wrks (pool S) wrk = None"
    and st: "etp_start_thread (Some wrk) created (pool S) = Some s'"
  shows "sys_inv (S\<lparr>pool := s', main := return_to cl,
    workers := (if wrks s' wrk = None then [] else [(wrk, At_loop)]) @ workers S\<rparr>) W" (is "sys_inv ?S _")
proof -
  from start_thread_cases [OF st] consider "s' = pool S" | w where
    "etp_worker_link wrk ((wrks (pool S))(wrk \<mapsto> zero_worker)) = Some w"
    "s' = (pool S)\<lparr>wrks := w, started := started (pool S) + 1\<rparr>" by blast
  then show ?thesis
  proof cases
    case 1
    then have "?S = S\<lparr>main := return_to cl\<rparr>" using wrk by simp
    with main_inv [OF inv, of "return_to cl"] m show ?thesis by simp
  next
    case (2 w)
    from inv obtain rq rs where s: "struct_inv S rq rs" and c: "count_inv S (members S rq rs)"
      and e: "edge_inv (pool S)" and W: "W = works (reqs (pool S)) (members S rq rs)" by (rule sys_invE)
    note D = struct_invD [OF s]
    have mm: "members ?S rq rs = members S rq rs" using m by (simp add: members_def holds_def)
    have past: "past_test ?S rs = past_test S rs" using m by (auto simp: past_test_def)
    have out: "wrk \<notin> set (wrk_first # map fst (workers S))"
      using wrk ring_alloc [OF D(8), of wrk] by auto
    have "ring ((wrks (pool S))(wrk \<mapsto> zero_worker)) (map fst (workers S)) =
        ring (wrks (pool S)) (map fst (workers S))"
      using out by (intro ring_frame) auto
    with worker_link_ring [OF _ out, of "(wrks (pool S))(wrk \<mapsto> zero_worker)" zero_worker] D(8) 2(1)
    have ring: "ring w (wrk # map fst (workers S))" by auto
    then have some: "wrks s' wrk \<noteq> None" using ring_alloc [of w "wrk # map fst (workers S)" wrk] 2 by simp
    have "struct_inv ?S rq rs" using D(1-7) 2(2) ring some unfolding struct_inv_def mm past by auto
    moreover have "count_inv ?S (members ?S rq rs)"
      using c m some unfolding count_inv_def mm
      by (auto simp: count_pc_def waiting_def 2(2) algebra_simps)
    moreover have "edge_inv (pool ?S)" using e by (simp add: edge_inv_def 2(2))
    moreover have "works (reqs (pool ?S)) (members ?S rq rs) = W" unfolding W mm by (simp add: 2(2))
    ultimately show ?thesis by (intro sys_invI)
  qed
qed

text \<open>What a step does to the submitted requests in the pool.\<close>

fun label_effect :: "label \<Rightarrow> addr multiset \<Rightarrow> addr multiset" where
  "label_effect (Submit a) W = add_mset a W"
| "label_effect (Deliver a) W = W - {#a#}"
| "label_effect Tau W = W"

fun label_ok :: "label \<Rightarrow> addr multiset \<Rightarrow> bool" where
  "label_ok (Submit a) W \<longleftrightarrow> a \<notin># W"
| "label_ok (Deliver a) W \<longleftrightarrow> a \<in># W"
| "label_ok Tau W \<longleftrightarrow> True"

lemma step_inv: "step S l S' \<Longrightarrow> sys_inv S W \<Longrightarrow> sys_inv S' (label_effect l W) \<and> label_ok l W"
proof (induction rule: step.induct)
  case (submit S req r s')
  then show ?case by (simp add: submit_inv)
next
  case (submit_group S req r)
  then have "0 \<le> req_type r" by simp
  with submit_group_inv [where r = r, OF submit_group(5,1,2) this] show ?case by simp
next
  case (poll_deliver S req)
  then show ?case by (simp add: deliver_inv)
next
  case (shift S ws self vs req s')
  then have "sys_inv (S\<lparr>pool := s', workers := ws @ (self, next_pc req) # vs\<rparr>) W"
    by (intro shift_inv [where pc = At_loop]) (simp_all add: waiting_def)
  then show ?case by simp
next
  case (wake S ws self pc vs req s')
  then have "sys_inv (S\<lparr>pool := s', workers := ws @ (self, next_pc req) # vs\<rparr>) W"
    by (intro shift_inv [where pc = pc]) (auto simp: waiting_def proc_wake_def)
  then show ?case by simp
next
  case (skip_cancelled S ws self req vs r)
  then have "sys_inv (S\<lparr>workers := ws @ (self, Ran req) # vs\<rparr>) W"
    by (intro pc_inv [where pc = "Took req"]) (simp_all add: waiting_def is_term_def)
  then show ?case by simp
qed (unfold label_effect.simps label_ok.simps simp_thms,
    ((rule client_inv; assumption) |
     (rule group_result_inv; assumption) |
     (rule poll_inv; assumption) |
     (rule start_read_inv; assumption) |
     (rule create_inv; assumption) |
     (rule poll_take_inv; assumption) |
     (rule end_push_inv; assumption) |
     (rule end_count_inv; assumption) |
     (rule timeout_inv; assumption) |
     (rule stop_inv; assumption) |
     (rule quit_terminator_inv; assumption) |
     (rule execute_inv; assumption) |
     (rule hand_over_inv; assumption) |
     (rule quit_inv; assumption))+)

lemma start_inv: "sys_inv (sys_start wp dp h) {#}"
proof (rule sys_invI)
  let ?S = "sys_start wp dp h" and ?e = "replicate ETP_NUM_PRI [] :: addr list list"
  have p: "pool ?S = (etp_start h)\<lparr>want_poll_cb := wp, done_poll_cb := dp\<rparr>"
    by (simp add: sys_start_def etp_init_def)
  have m: "members ?S ?e ?e = {#}" by (simp add: members_def holds_def sys_start_def)
  have size: "qsize reqq_empty = 0" by (simp add: reqq_empty_def)
  show "struct_inv ?S ?e ?e"
    unfolding struct_inv_def m p using ring_init reqq_rep_empty [of h]
    by (simp add: etp_start_def past_test_def sys_start_def size INT_MAX_def del: ETP_NUM_PRI_eq)
  show "count_inv ?S (members ?S ?e ?e)"
    unfolding count_inv_def m p
    by (simp add: etp_start_def sys_start_def terms_def works_def count_pc_def reqq_empty_def)
  show "works (reqs (pool ?S)) (members ?S ?e ?e) = {#}" unfolding m by (simp add: works_def)
  show "edge_inv (pool ?S)"
    unfolding p by (simp add: edge_inv_def etp_start_def reqq_empty_def)
qed

lemma reachable_inv:
  assumes "reachable wp dp S"
  obtains W where "sys_inv S W"
proof -
  from assms have "\<exists>W. sys_inv S W"
    by (induction rule: reachable.induct) (blast intro: start_inv dest: step_inv)+
  with that show thesis by blast
qed

end
