(* ===== verification/Etp_Props.thy ===== *)
theory Etp_Props
  imports Etp_Inv
begin

text \<open>
  The properties of the thread pool of \<open>src/libeio/eio.c\<close>, for every interleaving of the workers
  with the submitting thread, and the sequential properties of submitting and of the limits.
\<close>

section \<open>From the invariant to the state\<close>

lemma mset_set_single:
  assumes "\<And>a. count W a \<le> 1"
  shows "mset_set (set_mset W) = W"
proof (rule multiset_eqI)
  fix a
  have "a \<in># W \<Longrightarrow> count W a = 1" using assms [of a] by (metis count_greater_eq_one_iff le_antisym)
  then show "count (mset_set (set_mset W)) a = count W a"
    by (cases "a \<in># W") (simp_all add: not_in_iff)
qed

lemma set_mset_remove_single:
  assumes "count W a \<le> 1"
  shows "set_mset (W - {#a#}) = set_mset W - {a}"
proof (rule set_eqI)
  fix b show "b \<in># W - {#a#} \<longleftrightarrow> b \<in> set_mset W - {a}"
    using assms by (cases "b = a") (simp_all add: in_diff_count not_in_iff)
qed

lemma sys_inv_reqs:
  assumes "sys_inv S W"
  shows "pool_reqs S = set_mset W" and "card (pool_reqs S) = size W" and "count W a \<le> 1"
proof -
  from assms obtain rq rs where s: "struct_inv S rq rs"
    and W: "W = works (reqs (pool S)) (members S rq rs)" by (rule sys_invE)
  have c: "count W a \<le> 1" for a
    using struct_invD(5) [OF s, of a] by (simp add: W works_def)
  then show "count W a \<le> 1" .
  show p: "pool_reqs S = set_mset W"
    by (auto simp: pool_reqs_def struct_inv_owned [OF s] W works_def)
  have "mset_set (set_mset W) = W" by (rule mset_set_single) (rule c)
  then show "card (pool_reqs S) = size W"
    unfolding p by (metis size_mset_set)
qed

lemma queued_members:
  assumes "struct_inv S rq rs"
  shows "queue_members (req_queue (pool S)) (reqs (pool S)) = set (concat rq)"
    and "queue_members (res_queue (pool S)) (reqs (pool S)) = set (concat rs)"
  by (rule queue_members_eq, rule struct_invD [OF assms])+

lemma holds_worker: "(self, pc) \<in> set (workers S) \<Longrightarrow> a \<in> set (held pc) \<Longrightarrow> a \<in> set (holds S)"
  by (auto simp: holds_def intro!: bexI [of _ "(self, pc)"])

lemma worker_alloc:
  assumes "struct_inv S rq rs" and "(self, pc) \<in> set (workers S)"
  obtains w where "wrks (pool S) self = Some w"
proof -
  have "self \<in> set (map fst (workers S))" using assms(2) by force
  with ring_alloc [OF struct_invD(8) [OF assms(1)]] that show thesis by blast
qed

section \<open>Sections that are due are defined\<close>

lemma shift_defined:
  assumes s: "struct_inv S rq rs" and w: "(self, pc) \<in> set (workers S)"
    and p: "req_queue p = req_queue (pool S)" "reqs p = reqs (pool S)" "wrks p = wrks (pool S)"
  shows "proc_shift self p \<noteq> None"
proof -
  obtain wk where "wrks (pool S) self = Some wk" by (rule worker_alloc [OF s w])
  with shift_queue [OF struct_invD(1,3) [OF s]] p show ?thesis
    by (auto simp: proc_shift_def shift_req_def Let_def)
qed

lemma put_defined:
  assumes s: "struct_inv S rq rs" and a: "a \<in> set (holds S)" and room: "room (res_queue (pool S))"
  shows "\<exists>p. put_result a (pool S) = Some p \<and> wrks p = wrks (pool S)"
proof -
  have "a \<in># members S rq rs" using a by (simp add: members_def)
  from struct_invD(6) [OF s this] obtain r where
    r: "reqs (pool S) a = Some r" "pri_index r \<noteq> None" by (auto simp: queued_def)
  have "a \<notin> set (concat rs)" using struct_inv_distinct [OF s] a by auto
  from push_defined [OF struct_invD(2) [OF s] r this room] show ?thesis
    by (auto simp: put_result_def push_res_def trace_if_def)
qed

lemma step_conserves:
  assumes "reachable wp dp S" and "step S l S'"
  shows "case l of
      Submit a \<Rightarrow> a \<notin> pool_reqs S \<and> pool_reqs S' = insert a (pool_reqs S)
    | Deliver a \<Rightarrow> a \<in> pool_reqs S \<and> pool_reqs S' = pool_reqs S - {a}
    | Tau \<Rightarrow> pool_reqs S' = pool_reqs S"
proof -
  from assms(1) obtain W where W: "sys_inv S W" by (rule reachable_inv)
  from step_inv [OF assms(2) W] have W': "sys_inv S' (label_effect l W)" "label_ok l W" by auto
  note eq = sys_inv_reqs(1) [OF W] sys_inv_reqs(1) [OF W'(1)]
  show ?thesis
  proof (cases l)
    case (Deliver a)
    have "count W a \<le> 1" by (rule sys_inv_reqs(3) [OF W])
    from set_mset_remove_single [OF this] Deliver eq W'(2) show ?thesis by simp
  qed (use eq W'(2) in simp_all)
qed

section \<open>Properties\<close>

text \<open>C1: no interleaving loses or duplicates a request. Submitting adds exactly the submitted
  request to the pool (queued, being executed, or finished), the poll that delivers a request to
  \<open>eio_finish\<close> removes exactly that one, which was in the pool, and no other step, of a worker or
  of the submitting thread, changes which requests are in the pool.\<close>

theorem pool_conserves:
  assumes "reachable wp dp S" and "step S l S'"
  shows "case l of
      Submit a \<Rightarrow> a \<notin> pool_reqs S \<and> pool_reqs S' = insert a (pool_reqs S)
    | Deliver a \<Rightarrow> a \<in> pool_reqs S \<and> pool_reqs S' = pool_reqs S - {a}
    | Tau \<Rightarrow> pool_reqs S' = pool_reqs S"
  using assms by (rule step_conserves)


text \<open>C30: \<open>nready\<close> is not what its name and its documentation say: it falls behind the number of
  queued requests by one for each terminator \<open>etp_end_thread\<close> has ever queued, because queueing
  one does not raise the counter and taking it lowers it.\<close>

theorem nready_drifts:
  assumes "reachable wp dp S"
  shows "nready (pool S) =
    of_nat (card (queue_members (req_queue (pool S)) (reqs (pool S)))) - of_nat (ended S)"
proof -
  from assms obtain W where W: "sys_inv S W" by (rule reachable_inv)
  then obtain rq rs where s: "struct_inv S rq rs" and c: "count_inv S (members S rq rs)"
    by (rule sys_invE)
  have "card (set (concat rq)) = length (concat rq)"
    using struct_inv_distinct [OF s] by (intro distinct_card) simp
  with reqq_repD(6) [OF struct_invD(1) [OF s]] c show ?thesis
    by (simp add: queued_members [OF s] count_inv_def)
qed

text \<open>C17: with both callbacks installed, want-poll and done-poll calls alternate, beginning with
  want-poll, and in every reachable state the last call was a want-poll exactly when results wait
  to be polled.\<close>

theorem poll_calls_alternate:
  assumes "reachable wp dp S" and "want_poll_cb (pool S) \<noteq> None" and "done_poll_cb (pool S) \<noteq> None"
  shows "alternates (trace (pool S))
    (queue_members (res_queue (pool S)) (reqs (pool S)) \<noteq> {})"
proof -
  from assms(1) obtain W where W: "sys_inv S W" by (rule reachable_inv)
  then obtain rq rs where s: "struct_inv S rq rs" and e: "edge_inv (pool S)" by (rule sys_invE)
  have "0 < qsize (res_queue (pool S)) \<longleftrightarrow> set (concat rs) \<noteq> {}"
    using reqq_repD(6) [OF struct_invD(2) [OF s]] by (cases "concat rs") auto
  with e assms(2,3) show ?thesis by (simp add: edge_inv_def queued_members [OF s])
qed

text \<open>C28: \<open>started\<close> counts the live threads less those already told, or already decided, to end: in
  every reachable state the number of worker records is \<open>started\<close> plus the terminators queued
  or taken plus the threads about to quit (plus one between the two sections of
  \<open>etp_end_thread\<close>), modulo \<open>2^32\<close>.\<close>

theorem started_counts:
  assumes "reachable wp dp S"
  shows "of_nat (length (workers S)) + (if main S = M_end then 1 else 0) =
    started (pool S) + of_nat (card (owned S - pool_reqs S)) +
    of_nat (length (filter ((=) Quitting \<circ> snd) (workers S)))"
proof -
  from assms obtain W where W: "sys_inv S W" by (rule reachable_inv)
  then obtain rq rs where s: "struct_inv S rq rs" and c: "count_inv S (members S rq rs)"
    by (rule sys_invE)
  let ?T = "{#a \<in># members S rq rs. is_term (reqs (pool S)) a#}"
  have T: "set_mset ?T = owned S - pool_reqs S"
    by (auto simp: pool_reqs_def struct_inv_owned [OF s])
  have "count ?T a \<le> 1" for a using struct_invD(5) [OF s, of a] by simp
  then have "mset_set (set_mset ?T) = ?T" by (rule mset_set_single)
  then have "card (owned S - pool_reqs S) = terms (reqs (pool S)) (members S rq rs)"
    unfolding T [symmetric] terms_def by (metis size_mset_set)
  with c show ?thesis by (simp add: count_inv_def count_pc_def add.assoc)
qed

text \<open>C6: no worker runs into undefined behaviour: in every reachable state, while the queues have
  room to count one more request, the section a worker is due to run is defined (no null or
  dangling pointer, no index out of range, no \<open>abort\<close>).\<close>

theorem workers_defined:
  assumes "reachable wp dp S" and "(self, pc) \<in> set (workers S)" and "room (res_queue (pool S))"
  shows "case pc of
      At_loop \<Rightarrow> proc_shift self (pool S) \<noteq> None
    | Timed_wait \<Rightarrow> proc_wake self (pool S) \<noteq> None
    | Long_wait \<Rightarrow> proc_wake self (pool S) \<noteq> None
    | Took a \<Rightarrow> reqs (pool S) a \<noteq> None
    | Ran a \<Rightarrow> proc_done self a (pool S) \<noteq> None
    | Stopping \<Rightarrow> True
    | Quitting \<Rightarrow> proc_quit self (pool S) \<noteq> None"
proof -
  from assms(1) obtain W where W: "sys_inv S W" by (rule reachable_inv)
  then obtain rq rs where s: "struct_inv S rq rs" by (rule sys_invE)
  note sd = shift_defined [OF s assms(2)]
  obtain wk where wk: "wrks (pool S) self = Some wk" by (rule worker_alloc [OF s assms(2)])
  show ?thesis
  proof (cases pc)
    case (Took a)
    have "a \<in># members S rq rs"
      using holds_worker [OF assms(2)] Took by (simp add: members_def)
    with struct_invD(6) [OF s] Took show ?thesis by (auto simp: queued_def)
  next
    case (Ran a)
    have "a \<in> set (holds S)" using holds_worker [OF assms(2)] Ran by simp
    from put_defined [OF s this assms(3)] wk Ran show ?thesis
      by (auto simp: proc_done_def etp_worker_clear_def)
  next
    case Quitting
    have "self \<in> set (map fst (workers S))" using assms(2) by force
    from worker_free_ring [OF struct_invD(8) [OF s] this] Quitting show ?thesis
      by (auto simp: proc_quit_def)
  qed (use sd in \<open>simp_all add: proc_wake_def\<close>)
qed

text \<open>A worker takes a request of the highest priority there is: none of the queued requests has
  a higher one, and if none is taken none is queued.\<close>

theorem highest_first:
  assumes "reachable wp dp S" and "proc_shift self (pool S) = Some (req, s')"
  shows "case req of
      None \<Rightarrow> queue_members (req_queue (pool S)) (reqs (pool S)) = {}
    | Some a \<Rightarrow> \<forall>b \<in> queue_members (req_queue (pool S)) (reqs (pool S)).
        \<exists>ra rb. reqs (pool S) a = Some ra \<and> reqs (pool S) b = Some rb \<and> sint (pri rb) \<le> sint (pri ra)"
proof -
  from assms(1) obtain W where W: "sys_inv S W" by (rule reachable_inv)
  then obtain rq rs where s: "struct_inv S rq rs" by (rule sys_invE)
  note rep = struct_invD(1) [OF s]
  from assms(2) obtain q where q: "reqq_shift (req_queue (pool S)) (reqs (pool S)) = Some (req, q)"
    by (auto simp: proc_shift_def shift_req_def Let_def split: bind_splits if_splits)
  from shift_queue [OF rep struct_invD(3) [OF s]] q consider
      "req = None" "concat rq = []"
    | a rq' where "req = Some a" "fifo_take 9 rq = Some (a, rq')" by fastforce
  then show ?thesis
  proof cases
    case 2
    then obtain p xs where p: "p < 9" "rq ! p = a # xs" "\<forall>k. p < k \<and> k < 9 \<longrightarrow> rq ! k = []"
      unfolding fifo_take_Some by blast
    have "\<exists>ra rb. reqs (pool S) a = Some ra \<and> reqs (pool S) b = Some rb \<and> sint (pri rb) \<le> sint (pri ra)"
      if b: "b \<in> set (concat rq)" for b
    proof -
      obtain k rb where k: "k < 9" "b \<in> set (rq ! k)" "reqs (pool S) b = Some rb" "pri_index rb = Some k"
        using reqq_rep_member [OF rep b] by blast
      obtain ra where ra: "reqs (pool S) a = Some ra" "pri_index ra = Some p"
        using reqq_repD(4) [OF rep p(1)] p(2) by (auto simp: level_rep_def)
      have "k \<le> p" using p(3) k(1,2) by (cases "p < k") auto
      with k ra show ?thesis by (auto simp: pri_index_Some)
    qed
    with 2(1) show ?thesis by (simp add: queued_members [OF s])
  qed (simp add: queued_members [OF s])
qed

section \<open>Submitting and the limits\<close>

lemma sint_to_schar_wrap: "128 \<le> i \<Longrightarrow> i \<le> 383 \<Longrightarrow> sint (to_schar i) = i - 256"
proof -
  assume i: "128 \<le> i" "i \<le> 383"
  have "to_schar i = to_schar (i - 256)"
    unfolding to_schar_def word_of_int_eq_iff by (simp add: take_bit_eq_mod mod_diff_right_eq [symmetric, of i 256])
  with i show ?thesis by (simp add: sint_to_schar)
qed

text \<open>\<open>etp_submit\<close> turns the priority into a queue index from 0 to 8, clamped at both ends, for
  every priority up to 123. From 124 on the addition of 4 wraps in the \<open>signed char\<close>, and the
  highest priorities a client can write become the lowest one.\<close>

theorem submit_pri_value:
  "sint (submit_pri p) = (if sint p \<le> 123 then max 0 (min 8 (sint p + 4)) else 0)"
proof -
  have b: "- 128 \<le> sint p" "sint p \<le> 127" using sint_ge [of p] sint_lt [of p] by simp_all
  have k: "sint (to_schar 0) = 0" "sint (to_schar 8) = 8" by (simp_all add: sint_to_schar)
  show ?thesis
  proof (cases "sint p \<le> 123")
    case True
    then have "sint (to_schar (sint p + 4)) = sint p + 4" using b by (simp add: sint_to_schar)
    with True k show ?thesis by (simp add: submit_pri_def eio_pri_defs Let_def)
  next
    case False
    then have "sint (to_schar (sint p + 4)) = sint p - 252" using b by (simp add: sint_to_schar_wrap)
    with False b k show ?thesis by (simp add: submit_pri_def eio_pri_defs Let_def)
  qed
qed

lemma links_only_alloc: "links_only h h' \<Longrightarrow> (h' a = None) = (h a = None)"
  by (cases "h a") (auto simp: links_only_None elim: links_only_Some)

lemma end_thread_step:
  assumes rep: "reqq_rep (reqs s) (req_queue s) rq" and room: "room (req_queue s)"
    and m: "mem = Some a" "reqs s a = None"
  shows "\<exists>s' rq'. etp_end_thread mem s = Some s' \<and> reqq_rep (reqs s') (req_queue s') rq' \<and>
    qsize (req_queue s') = qsize (req_queue s) + 1 \<and> started s' = started s - 1 \<and>
    wanted s' = wanted s \<and> nready s' = nready s \<and>
    (\<forall>b. b \<noteq> a \<longrightarrow> (reqs s' b = None) = (reqs s b = None))"
proof -
  let ?h = "(reqs s)(a \<mapsto> terminator)"
  have out: "a \<notin> set (concat rq)"
    using m(2) reqq_rep_member [OF rep] by (metis option.distinct(1))
  have rep': "reqq_rep ?h (req_queue s) rq"
    by (rule reqq_rep_frame [OF rep]) (rule same_links_upd_other [OF out])
  have k: "pri_index terminator = Some 8"
    by (simp add: pri_index_def terminator_def eio_pri_defs sint_to_schar)
  have "int (length (concat rq)) < INT_MAX" using room reqq_repD(6) [OF rep] by (simp add: room_def)
  from reqq_push_rep [OF rep' _ k out this] obtain q h where
    push: "reqq_push (req_queue s) a ?h = Some (int (length (concat rq)), q, h)"
      "reqq_rep h q (fifo_push 8 a rq)" "next_only (insert a (set (rq ! 8))) ?h h" by auto
  have "mset (concat (fifo_push 8 a rq)) = add_mset a (mset (concat rq))"
    using reqq_repD(3) [OF rep] by (simp add: fifo_push_def mset_concat_snoc)
  from mset_eq_length [of _ "a # concat rq", simplified, OF this]
  have "qsize q = qsize (req_queue s) + 1" using reqq_repD(6) [OF rep] reqq_repD(6) [OF push(2)] by simp
  moreover have "(h b = None) = (reqs s b = None)" if "b \<noteq> a" for b
    using links_only_alloc [OF next_only_links [OF push(3)], of b] that by simp
  moreover have "etp_end_thread mem s = Some (s\<lparr>reqs := h, req_queue := q,
      trace := Cond_signal # trace s, started := started s - 1\<rparr>)"
    using push(1) m by (simp add: etp_end_thread_def push_req_def trace_if_def Let_def)
  ultimately show ?thesis using push(2)
    by (intro exI [of _ "s\<lparr>reqs := h, req_queue := q, trace := Cond_signal # trace s,
      started := started s - 1\<rparr>"] exI [of _ "fifo_push 8 a rq"]) simp
qed

lemma end_threads_returns:
  assumes "reqq_rep (reqs s) (req_queue s) rq"
    and "k = unat (started s) - unat (wanted s)" and "qsize (req_queue s) + int k \<le> INT_MAX"
    and "\<And>j. i \<le> j \<Longrightarrow> j < i + k \<Longrightarrow> \<exists>a. mem j = Some a \<and> reqs s a = None" and "inj_on mem {i..<i + k}"
  shows "\<exists>s'. end_threads mem i s = Some s' \<and> started s' = min (started s) (wanted s) \<and>
    wanted s' = wanted s \<and> nready s' = nready s \<and> qsize (req_queue s') = qsize (req_queue s) + int k"
  using assms
proof (induction k arbitrary: i s rq)
  case 0
  then have "started s \<le> wanted s" by (simp add: word_le_nat_alt)
  then show ?case by (subst end_threads.simps) (auto simp: min_def)
next
  case (Suc k)
  then have gt: "wanted s < started s" by (simp add: word_less_nat_alt)
  from Suc.prems(4) [of i] obtain a where a: "mem i = Some a" "reqs s a = None" by auto
  have "room (req_queue s)" using Suc.prems(3) by (simp add: room_def)
  from end_thread_step [OF Suc.prems(1) this a] obtain s' rq' where
    s': "etp_end_thread (mem i) s = Some s'" "reqq_rep (reqs s') (req_queue s') rq'"
      "qsize (req_queue s') = qsize (req_queue s) + 1" "started s' = started s - 1"
      "wanted s' = wanted s" "nready s' = nready s"
      "\<forall>b. b \<noteq> a \<longrightarrow> (reqs s' b = None) = (reqs s b = None)" by blast
  have dec: "unat (started s - 1) = unat (started s) - 1"
    using gt by (intro unat_minus_one) auto
  have "k = unat (started s') - unat (wanted s')"
    using Suc.prems(2) dec s'(4,5) by simp
  moreover have "\<exists>b. mem j = Some b \<and> reqs s' b = None" if "Suc i \<le> j" "j < Suc i + k" for j
  proof -
    from Suc.prems(4) [of j] that obtain b where b: "mem j = Some b" "reqs s b = None" by auto
    have "mem j \<noteq> mem i" using Suc.prems(5) that by (auto dest: inj_onD [of mem _ j i])
    with a b s'(7) show ?thesis by auto
  qed
  moreover have "inj_on mem {Suc i..<Suc i + k}" by (rule inj_on_subset [OF Suc.prems(5)]) auto
  ultimately obtain t where "end_threads mem (Suc i) s' = Some t" "started t = min (started s') (wanted s')"
    "wanted t = wanted s'" "nready t = nready s'" "qsize (req_queue t) = qsize (req_queue s') + int k"
    using Suc.IH [OF s'(2), of "Suc i"] Suc.prems(3) s'(3) by auto
  moreover have "min (started s') (wanted s') = min (started s) (wanted s)"
  proof -
    have "wanted s \<le> started s - 1" using gt dec by (simp add: word_le_nat_alt word_less_nat_alt)
    with gt s'(4,5) show ?thesis by (simp add: min_absorb2)
  qed
  ultimately show ?case
    using gt s' by (subst end_threads.simps) simp
qed

text \<open>C31: \<open>etp_set_max_parallel\<close> returns: with memory for the terminators it queues exactly one for
  each thread over the limit, lowers \<open>wanted\<close> to the limit if it is above and \<open>started\<close> to it,
  and leaves \<open>nready\<close> behind by all the requests it queued.\<close>

theorem set_max_parallel_returns:
  assumes "reqq_rep (reqs s) (req_queue s) rq"
    and "k = unat (started s) - unat (min (wanted s) n)" and "qsize (req_queue s) + int k \<le> INT_MAX"
    and "\<And>j. j < k \<Longrightarrow> \<exists>a. mem j = Some a \<and> reqs s a = None" and "inj_on mem {..<k}"
  shows "\<exists>s'. etp_set_max_parallel mem n s = Some s' \<and> wanted s' = min (wanted s) n \<and>
    started s' = min (started s) (min (wanted s) n) \<and>
    qsize (req_queue s') = qsize (req_queue s) + int k \<and> nready s' = nready s"
proof -
  let ?s = "if wanted s > n then s\<lparr>wanted := n\<rparr> else s"
  have f: "reqs ?s = reqs s" "req_queue ?s = req_queue s" "started ?s = started s"
    "wanted ?s = min (wanted s) n" "nready ?s = nready s"
    by (auto simp: min_def not_le not_less)
  have "{..<k} = {0..<0 + k}" by auto
  with end_threads_returns [of ?s rq k 0 mem] assms show ?thesis
    unfolding etp_set_max_parallel_def f by auto
qed

theorem set_max_parallel_returns_witness:
  "\<exists>s'. etp_set_max_parallel (\<lambda>j. Some (word_of_nat (100 + j))) 1 ((etp_start Map.empty)\<lparr>started := 3\<rparr>) = Some s' \<and>
    wanted s' = 1 \<and> started s' = 1 \<and> qsize (req_queue s') = 2 \<and> nready s' = 0"
proof -
  let ?s = "(etp_start Map.empty)\<lparr>started := 3\<rparr>"
  have q: "req_queue ?s = reqq_empty" "wanted ?s = 4" "started ?s = 3" "nready ?s = 0"
    by (simp_all add: etp_start_def)
  have "{..<2} = {0, 1 :: nat}" by auto
  then have "inj_on (\<lambda>j. Some (word_of_nat (100 + j) :: addr)) {..<2}" by (simp add: inj_on_def)
  moreover have m: "min (4 :: 32 word) 1 = 1" by (simp add: min_def word_le_nat_alt)
  then have "unat (started ?s) - unat (min (wanted ?s) 1) = 2" by (simp add: q)
  ultimately show ?thesis
    using set_max_parallel_returns [of ?s "replicate ETP_NUM_PRI []" 2 1 "\<lambda>j. Some (word_of_nat (100 + j))"]
      reqq_rep_empty [of "reqs ?s"] unfolding q
    by (simp add: reqq_empty_def INT_MAX_def m min_def word_le_nat_alt) (simp add: etp_start_def)
qed

end
