(* ===== verification/Etp_Race.thy ===== *)
theory Etp_Race
  imports Etp_Props
begin

text \<open>
  A run of the thread pool of \<open>src/libeio/eio.c\<close> that ends with a wrong count of its threads:
  a thread times out while \<open>etp_set_max_parallel\<close> queues a terminator for it: \<open>started\<close> is
  lowered twice. These are the states of the run, with one no-op request at address 32 and a worker record
  at 16; \<open>max_idle\<close> is 0.
\<close>

definition race_heap :: heap where
  "race_heap = [32 \<mapsto> zero_req\<lparr>req_type := type_code EIO_NOP\<rparr>]"

definition race_start :: etp where
  "race_start = (pool (sys_start None None race_heap))\<lparr>max_idle := 0\<rparr>"

definition race_submitted :: etp where
  "race_submitted = the (put_request 32 (race_start\<lparr>reqs := (reqs race_start)
     (32 \<mapsto> zero_req\<lparr>req_type := type_code EIO_NOP, pri := submit_pri 0\<rparr>)\<rparr>))"

definition race_running :: etp where
  "race_running = the (etp_maybe_start_thread (Some 16) True race_submitted)"

definition race_took :: etp where "race_took = snd (the (proc_shift 16 race_running))"
definition race_ran :: etp where "race_ran = the (proc_done 16 32 race_took)"
definition race_idle :: etp where "race_idle = snd (the (proc_shift 16 race_ran))"

definition race_pushed :: etp where
  "race_pushed = trace_if True Cond_signal
     (snd (the (push_req 64 (race_idle\<lparr>reqs := (reqs race_idle)(64 \<mapsto> terminator)\<rparr>))))"

definition race_timed :: etp where "race_timed = snd (proc_timeout race_pushed)"
definition race_gone :: etp where "race_gone = the (proc_quit 16 (proc_stop race_timed))"

definition race_end :: etp where "race_end = race_gone\<lparr>started := started race_gone - 1\<rparr>"

lemma is_none_the: "\<not> Option.is_none x \<Longrightarrow> x = Some (the x)"
  by (cases x) simp_all

lemma is_none_snd: "map_option fst x = Some a \<Longrightarrow> x = Some (a, snd (the x))"
  by (cases x) auto

lemma race_steps:
  "put_request 32 (race_start\<lparr>reqs := (reqs race_start)
     (32 \<mapsto> zero_req\<lparr>req_type := type_code EIO_NOP, pri := submit_pri 0\<rparr>)\<rparr>) = Some race_submitted"
  "etp_maybe_start_thread (Some 16) True race_submitted = Some race_running"
  "proc_shift 16 race_running = Some (Some 32, race_took)"
  "proc_done 16 32 race_took = Some race_ran"
  "proc_shift 16 race_ran = Some (None, race_idle)"
  "push_req 64 (race_idle\<lparr>reqs := (reqs race_idle)(64 \<mapsto> terminator)\<rparr>) =
     Some (0, snd (the (push_req 64 (race_idle\<lparr>reqs := (reqs race_idle)(64 \<mapsto> terminator)\<rparr>))))"
  "proc_timeout race_pushed = (True, race_timed)"
  "proc_quit 16 (proc_stop race_timed) = Some race_gone"
  subgoal unfolding race_submitted_def by (rule is_none_the) code_simp
  subgoal unfolding race_running_def by (rule is_none_the) code_simp
  subgoal unfolding race_took_def by (rule is_none_snd) code_simp
  subgoal unfolding race_ran_def by (rule is_none_the) code_simp
  subgoal unfolding race_idle_def by (rule is_none_snd) code_simp
  subgoal by (rule is_none_snd) code_simp
  subgoal
  proof -
    have "fst (proc_timeout race_pushed)" by code_simp
    then show ?thesis by (simp add: race_timed_def prod_eq_iff)
  qed
  subgoal unfolding race_gone_def by (rule is_none_the) code_simp
  done

lemma race_facts:
  "reqs race_start 32 = Some (zero_req\<lparr>req_type := type_code EIO_NOP\<rparr>)"
  "room (req_queue race_start)" "wrks race_submitted 16 = None" "\<not> Option.is_none (wrks race_running 16)"
  "room (res_queue race_took)" "reqs race_idle 64 = None" "room (req_queue race_idle)"
  "map_option req_type (reqs race_took 32) = Some (type_code EIO_NOP)"
  "map_option EIO_CANCELLED (reqs race_took 32) = Some False"
  "started race_end = 0xffffffff"
  subgoal by (simp add: race_start_def sys_start_def etp_init_def etp_start_def race_heap_def)
  subgoal by code_simp
  subgoal by code_simp
  subgoal by code_simp
  subgoal by code_simp
  subgoal by code_simp
  subgoal by code_simp
  subgoal by code_simp
  subgoal by code_simp
  subgoal by code_simp
  done

text \<open>The program points of the run.\<close>

definition race_at :: "etp \<Rightarrow> (addr \<times> wpc) list \<Rightarrow> mpc \<Rightarrow> nat \<Rightarrow> sys" where
  "race_at p ws m n = \<lparr>pool = p, workers = ws, main = m, ended = n\<rparr>"

lemma race_sel [simp]:
  "pool (race_at p ws m n) = p" "workers (race_at p ws m n) = ws" "main (race_at p ws m n) = m"
  "ended (race_at p ws m n) = n"
  "(race_at p ws m n)\<lparr>pool := p'\<rparr> = race_at p' ws m n"
  "(race_at p ws m n)\<lparr>workers := ws'\<rparr> = race_at p ws' m n"
  "(race_at p ws m n)\<lparr>main := m'\<rparr> = race_at p ws m' n"
  "(race_at p ws m n)\<lparr>ended := n'\<rparr> = race_at p ws m n'"
  by (simp_all add: race_at_def)

abbreviation race_reach :: "sys \<Rightarrow> bool" where "race_reach \<equiv> reachable None None"

lemma owned_start: "owned (sys_start wp dp h) = {}"
proof -
  have "queue_members reqq_empty h = {}" unfolding queue_members_eq [OF reqq_rep_empty] by simp
  then show ?thesis by (simp add: owned_def sys_start_def etp_init_def etp_start_def)
qed

lemma race_client: "step (sys_start None None race_heap) Tau (race_at race_start [] M_client 0)"
proof -
  let ?S = "sys_start None None race_heap"
  have "owned ?S = {}" by (rule owned_start)
  then have "client_step (owned ?S) (pool ?S) race_start"
    unfolding client_step_def race_start_def
    by (intro exI [of _ "reqs (pool ?S)"] exI [of _ "wanted (pool ?S)"] exI [of _ "0 :: 32 word"]
        exI [of _ "idle_timeout (pool ?S)"] exI [of _ "max_poll_reqs (pool ?S)"]
        exI [of _ "max_poll_time (pool ?S)"] exI [of _ "trace (pool ?S)"]) simp
  from step.client [OF this] show ?thesis by (simp add: race_at_def sys_start_def)
qed

lemma race_begin: "race_reach (race_at race_start [] M_client 0)"
  by (rule reach_step [OF reach_start race_client])

lemma race_submit:
  "step (race_at race_start [] M_client 0) (Submit 32) (race_at race_submitted [] (M_start In_submit) 0)"
proof -
  have "req_queue race_start = reqq_empty" "res_queue race_start = reqq_empty"
    by (simp_all add: race_start_def sys_start_def etp_init_def etp_start_def)
  moreover have "queue_members reqq_empty (reqs race_start) = {}"
    unfolding queue_members_eq [OF reqq_rep_empty] by simp
  ultimately have "32 \<notin> owned (race_at race_start [] M_client 0)" by (simp add: owned_def)
  from step.submit [OF _ this] race_facts(1,2) race_steps(1) show ?thesis by (simp add: zero_req_def)
qed

lemma race_reach_running: "race_reach (race_at race_running [(16, At_loop)] M_client 0)"
proof -
  have d: "start_decision race_submitted In_submit = Some (M_create In_submit)" by code_simp
  from race_steps(2) d have created: "etp_start_thread (Some 16) True race_submitted = Some race_running"
    unfolding maybe_start_sections [of _ _ _ In_submit] by simp
  from runs_decision [of "race_at race_submitted [] (M_start In_submit) 0"] d
    runs_reachable [OF _ reach_step [OF race_begin race_submit]]
  have "race_reach (race_at race_submitted [] (M_create In_submit) 0)" by fastforce
  from reach_step [OF this step.create [where wrk = 16 and created = True and s' = race_running]]
    race_facts(3,4) created
  show ?thesis by (auto simp: wrk_first_def split: if_splits)
qed

lemma race_reach_ran: "race_reach (race_at race_took [(16, Ran 32)] M_client 0)"
proof -
  from reach_step [OF race_reach_running step.shift [where ws = "[]" and self = 16 and req = "Some 32"]]
    race_steps(3)
  have took: "race_reach (race_at race_took [(16, Took 32)] M_client 0)" by (simp add: next_pc_def)
  obtain r where r: "reqs race_took 32 = Some r" "0 \<le> req_type r" "\<not> EIO_CANCELLED r"
    using race_facts(8,9) by auto
  from took obtain W rq rs where "struct_inv (race_at race_took [(16, Took 32)] M_client 0) rq rs"
    by (meson reachable_inv sys_invE)
  from worker_alloc [OF this, of 16 "Took 32"] obtain w where "wrks race_took 16 = Some w" by auto
  with r have ex: "exec_step 16 32 race_took race_took"
    unfolding exec_step_def
    by (intro exI [of _ r] exI [of _ w] exI [of _ "dbuf w"] exI [of _ "dirp w"])
      (simp add: same_req_def map_upd_triv)
  from reach_step [OF took step.execute [where ws = "[]" and self = 16 and req = 32 and s' = race_took]] r ex
  show ?thesis by simp
qed

lemma race_run: "race_reach (race_at race_end [] M_client 1)"
proof -
  note go = reach_step [where wp = None and dp = None]
  from go [OF race_reach_ran step.hand_over [where ws = "[]"]] race_facts(5) race_steps(4)
  have "race_reach (race_at race_ran [(16, At_loop)] M_client 0)" by simp
  from go [OF this step.shift [where ws = "[]" and self = 16 and req = None]] race_steps(5)
  have "race_reach (race_at race_idle [(16, Timed_wait)] M_client 0)" by (simp add: next_pc_def)
  from go [OF this step.end_push] race_facts(6,7) race_steps(6)
  have "race_reach (race_at race_pushed [(16, Timed_wait)] M_end 1)" by (simp add: race_pushed_def)
  from go [OF this step.timeout [where ws = "[]"]] race_steps(7)
  have "race_reach (race_at race_timed [(16, Stopping)] M_end 1)" by (auto split: if_splits)
  from go [OF this step.stop [where ws = "[]"]]
  have "race_reach (race_at (proc_stop race_timed) [(16, Quitting)] M_end 1)" by simp
  from go [OF this step.quit [where ws = "[]"]] race_steps(8)
  have "race_reach (race_at race_gone [] M_end 1)" by simp
  from go [OF this step.end_count]
  show ?thesis by (simp add: race_end_def)
qed


section \<open>The properties at the states of the run\<close>

theorem pool_conserves_witness:
  "32 \<notin> pool_reqs (race_at race_start [] M_client 0) \<and>
    pool_reqs (race_at race_submitted [] (M_start In_submit) 0) = insert 32 (pool_reqs (race_at race_start [] M_client 0))"
  using pool_conserves [OF race_begin race_submit] by simp


theorem nready_drifts_witness:
  "nready race_end = of_nat (card (queue_members (req_queue race_end) (reqs race_end))) - 1"
  using nready_drifts [OF race_run] by simp

theorem poll_calls_alternate_witness:
  "alternates [] (queue_members reqq_empty Map.empty \<noteq> {})"
  using poll_calls_alternate [OF reach_start [of "Some 1" "Some 2" Map.empty]]
  by (simp add: sys_start_def etp_init_def etp_start_def)

theorem started_counts_witness:
  "started race_end + of_nat (card (owned (race_at race_end [] M_client 1) -
     pool_reqs (race_at race_end [] M_client 1))) = 0"
  using started_counts [OF race_run] by simp

theorem workers_defined_witness: "proc_done 16 32 race_took \<noteq> None"
  using workers_defined [OF race_reach_ran, of 16 "Ran 32"] race_facts(5) by simp

theorem highest_first_witness:
  "\<exists>ra rb. reqs race_running 32 = Some ra \<and> reqs race_running 32 = Some rb \<and> sint (pri rb) \<le> sint (pri ra)"
proof -
  from race_reach_running obtain W rq rs where s: "struct_inv (race_at race_running [(16, At_loop)] M_client 0) rq rs"
    by (meson reachable_inv sys_invE)
  obtain q where "reqq_shift (req_queue race_running) (reqs race_running) = Some (Some 32, q)"
    using race_steps(3) by (auto simp: proc_shift_def shift_req_def Let_def split: bind_splits if_splits)
  with shift_queue [OF struct_invD(1,3) [OF s]] have "32 \<in># mset (concat rq)"
    by (auto simp del: set_concat set_mset_mset)
  then have "32 \<in> queue_members (req_queue race_running) (reqs race_running)"
    using queued_members(1) [OF s] by simp
  with highest_first [OF race_reach_running, of 16] race_steps(3) show ?thesis by auto
qed

section \<open>A waiting result\<close>

text \<open>A group is submitted and its result waits.\<close>

definition group_heap :: heap where
  "group_heap = [32 \<mapsto> zero_req\<lparr>req_type := type_code EIO_GROUP, destroy := Some 4\<rparr>]"

definition group_entered :: etp where
  "group_entered = (pool (sys_start (Some 1) (Some 2) group_heap))\<lparr>
     reqs := [32 \<mapsto> zero_req\<lparr>req_type := type_code EIO_GROUP, pri := submit_pri 0, destroy := Some 4\<rparr>], nreqs := 1\<rparr>"

definition group_waits :: etp where "group_waits = the (put_result 32 group_entered)"

lemma group_steps:
  "put_result 32 group_entered = Some group_waits" "room (res_queue group_entered)"
  "trace group_waits = [Want_poll]" "qsize (res_queue group_waits) = 1"
  "Option.is_none (want_poll_cb group_waits) = False" "Option.is_none (done_poll_cb group_waits) = False"
  subgoal unfolding group_waits_def by (rule is_none_the) code_simp
  by code_simp+

lemma group_reach: "reachable (Some 1) (Some 2) \<lparr>pool = group_waits, workers = [], main = M_client, ended = 0\<rparr>"
proof -
  let ?S = "sys_start (Some 1) (Some 2) group_heap"
  have start: "main ?S = M_client" "32 \<notin> owned ?S"
    "reqs (pool ?S) 32 = Some (zero_req\<lparr>req_type := type_code EIO_GROUP, destroy := Some 4\<rparr>)"
    unfolding owned_start by (simp_all add: sys_start_def etp_init_def etp_start_def group_heap_def)
  from reach_step [OF reach_start step.submit_group [OF start]]
  have "reachable (Some 1) (Some 2) \<lparr>pool = group_entered, workers = [], main = M_group 32, ended = 0\<rparr>"
    by (simp add: group_entered_def sys_start_def etp_init_def etp_start_def group_heap_def zero_req_def)
  from reach_step [OF this step.group_result [of _ 32]] group_steps(1,2) show ?thesis by simp
qed

end
