(* ===== verification/Etp_Live.thy ===== *)
theory Etp_Live
  imports Etp_Race
begin

text \<open>
  No request gets stuck in the thread pool of \<open>src/libeio/eio.c\<close>: from every reachable state with
  a thread left to work there is a run of the workers and of \<open>etp_poll\<close> that delivers every
  request. The run follows a weight that each of its stretches lowers.
\<close>

section \<open>What a run delivers\<close>

lemma runs_delivers:
  "runs S ls S' \<Longrightarrow> reachable wp dp S \<Longrightarrow> \<not> submits ls \<Longrightarrow>
    distinct (delivered ls) \<and> set (delivered ls) \<inter> pool_reqs S' = {} \<and>
    set (delivered ls) \<union> pool_reqs S' = pool_reqs S"
proof (induction rule: runs.induct)
  case (runs_step S l S' ls S'')
  have reach: "reachable wp dp S'" using runs_step.hyps(1) runs_step.prems(1) by (rule reach_step [rotated])
  note eff = step_conserves [OF runs_step.prems(1) runs_step.hyps(1)]
  show ?case
  proof (cases l)
    case (Submit a)
    with runs_step.prems(2) show ?thesis by simp
  next
    case (Deliver a)
    with runs_step.IH [OF reach] runs_step.prems(2) eff show ?thesis by auto
  next
    case Tau
    with runs_step.IH [OF reach] runs_step.prems(2) eff show ?thesis by simp
  qed
qed simp

section \<open>The weight\<close>

fun pc_weight :: "wpc \<Rightarrow> nat" where
  "pc_weight (Took a) = 4"
| "pc_weight (Ran a) = 3"
| "pc_weight _ = 0"

fun main_weight :: "mpc \<Rightarrow> nat" where
  "main_weight M_client = 0"
| "main_weight M_poll = 1"
| "main_weight (M_took a) = 1"
| "main_weight M_end = 1"
| "main_weight (M_group a) = 3"
| "main_weight _ = 2"

definition weight :: "sys \<Rightarrow> nat" where
  "weight S = 5 * nat (qsize (req_queue (pool S))) + 2 * nat (qsize (res_queue (pool S))) +
     sum_list (map (pc_weight \<circ> snd) (workers S)) + main_weight (main S)"

text \<open>The points of \<open>etp_maybe_start_thread\<close>, how far they are from its end, and that the sum read so
  far is small.\<close>

fun starting :: "mpc \<Rightarrow> (caller \<times> nat) option" where
  "starting (M_start c) = Some (c, 5)"
| "starting (M_nthreads c) = Some (c, 4)"
| "starting (M_npending c n) = Some (c, 3)"
| "starting (M_nreqs c n) = Some (c, 2)"
| "starting (M_create c) = Some (c, 1)"
| "starting _ = None"

fun small_reads :: "mpc \<Rightarrow> bool" where
  "small_reads (M_npending c n) \<longleftrightarrow> \<bar>n\<bar> < 2 ^ 29"
| "small_reads (M_nreqs c n) \<longleftrightarrow> \<bar>n\<bar> < 2 ^ 30"
| "small_reads _ \<longleftrightarrow> True"

text \<open>
  What the run keeps: memory for one more worker record at \<open>wrk\<close>, more threads counted by
  \<open>started\<close> than are on their way out, and counts far from the end of an \<open>int\<close>.
\<close>

definition fit :: "addr \<Rightarrow> sys \<Rightarrow> bool" where
  "fit wrk S \<longleftrightarrow> wrk \<noteq> wrk_first \<and> wrks (pool S) wrk = None \<and>
     count_pc ((=) Stopping) S + (if main S = M_end then 1 else 0) < unat (started (pool S)) \<and>
     unat (started (pool S)) < 2 ^ 29 \<and> length (workers S) < 2 ^ 29 \<and> small_reads (main S)"

lemma workers_split:
  assumes "x \<in> set (workers S)"
  obtains ws vs where "workers S = ws @ x # vs"
  using assms by (auto dest: split_list)

lemma holds_weight: "length (holds S) \<le> sum_list (map (pc_weight \<circ> snd) (workers S)) + main_weight (main S)"
proof -
  have pc: "length (held p) \<le> pc_weight p" for p by (cases p) auto
  have "length (concat (map (held \<circ> snd) xs)) \<le> sum_list (map (pc_weight \<circ> snd) xs)" for xs :: "(addr \<times> wpc) list"
    by (induction xs) (auto intro: add_mono pc)
  moreover have "length (main_held m) \<le> main_weight m" for m by (cases m) auto
  ultimately show ?thesis unfolding holds_def length_append by (intro add_mono)
qed

lemma members_weight:
  assumes "struct_inv S rq rs"
  shows "size (members S rq rs) \<le> weight S"
    and "qsize (req_queue (pool S)) = int (length (concat rq))"
    and "qsize (res_queue (pool S)) = int (length (concat rs))"
proof -
  note D = struct_invD [OF assms]
  from reqq_repD(6) [OF D(1)] reqq_repD(6) [OF D(2)] show
    q: "qsize (req_queue (pool S)) = int (length (concat rq))" "qsize (res_queue (pool S)) = int (length (concat rs))"
    by auto
  from q holds_weight [of S] show "size (members S rq rs) \<le> weight S"
    by (simp add: members_def weight_def)
qed

lemma sint_nat: "k < 2 ^ 31 \<Longrightarrow> sint (of_nat k :: 32 word) = int k"
  by (simp add: signed_of_nat signed_take_bit_int_eq_self)

lemma of_nat_eq: "(of_nat i :: 32 word) = of_nat j \<Longrightarrow> i < 2 ^ 32 \<Longrightarrow> j < 2 ^ 32 \<Longrightarrow> i = j"
  by (simp add: word_of_nat_eq_iff take_bit_nat_eq_self)

lemma counters_small:
  assumes s: "struct_inv S rq rs" and c: "count_inv S (members S rq rs)" and f: "fit wrk S" "weight S < 2 ^ 29 + 3"
  obtains i j k where "sint (etp_nthreads (pool S)) = int i" "sint (etp_npending (pool S)) = int j"
    "sint (etp_nreqs (pool S)) = int k" "i < 2 ^ 29" "j < 2 ^ 29" "k < 2 ^ 30"
proof -
  let ?p = "pool S"
  have le: "size (works h M) \<le> size M" for h M by (simp add: works_def size_filter_mset_lesseq)
  define k where "k = size (works (reqs ?p) (members S rq rs))"
  have k: "k < 2 ^ 30" using members_weight(1) [OF s] le [of "reqs ?p" "members S rq rs"] f
    by (simp add: fit_def k_def)
  have n: "sint (etp_nreqs ?p) = int k"
    using c k sint_nat [of k] by (simp add: count_inv_def etp_nreqs_def k_def)
  define j where "j = length (concat rs)"
  have "j < 2 ^ 29" using f members_weight(3) [OF s] by (simp add: j_def fit_def weight_def)
  then have j: "sint (etp_npending ?p) = int j" "j < 2 ^ 29"
    using c sint_nat [of j] members_weight(3) [OF s] by (simp_all add: count_inv_def etp_npending_def j_def)
  define i where "i = unat (started ?p)"
  have "started ?p = of_nat i" by (simp add: i_def)
  then have "sint (etp_nthreads ?p) = int i" "i < 2 ^ 29"
    using sint_nat [of i] f by (simp_all add: etp_nthreads_def fit_def i_def)
  with n j k show thesis by (intro that [of i j k])
qed

text \<open>\<open>etp_maybe_start_thread\<close> returns, whether or not a thread can be created.\<close>

lemma start_runs:
  assumes "starting (main S) = Some (c, n)" and "small_reads (main S)"
    and w: "wrk \<noteq> wrk_first" "wrks (pool S) wrk = None"
    and small: "sint (etp_nthreads (pool S)) = int i" "sint (etp_npending (pool S)) = int j"
      "sint (etp_nreqs (pool S)) = int k" "i < 2 ^ 29" "j < 2 ^ 29" "k < 2 ^ 30"
  shows "\<exists>ls. runs S ls (S\<lparr>main := return_to c\<rparr>) \<and> \<not> submits ls"
  using assms
proof (induction n arbitrary: S)
  case 0
  then show ?case by (cases "main S") simp_all
next
  case (Suc n)
  show ?case
  proof (cases "main S = M_create c")
    case True
    have "etp_start_thread (Some wrk) False (pool S) = Some (pool S)" by (simp add: etp_start_thread_def)
    from step.create [OF True Suc.prems(3,4) this] Suc.prems(4)
    have "step S Tau (S\<lparr>main := return_to c\<rparr>)" by simp
    then show ?thesis by (intro exI [of _ "[Tau]"]) (simp add: runs_one)
  next
    case False
    then have "\<exists>m. start_read (pool S) (main S) = Some m \<and>
      (m = return_to c \<or> starting m = Some (c, n) \<and> small_reads m)"
      using Suc.prems(1,2,5-10)
      by (cases "main S") (auto simp: int_chk_def INT_MAX_def INT_MIN_def abs_less_iff)
    then obtain m where m: "start_read (pool S) (main S) = Some m"
      and next_m: "m = return_to c \<or> starting m = Some (c, n) \<and> small_reads m" by blast
    note step = step.maybe_start [OF m]
    from next_m show ?thesis
    proof
      assume "m = return_to c"
      with step show ?thesis by (intro exI [of _ "[Tau]"]) (simp add: runs_one)
    next
      assume "starting m = Some (c, n) \<and> small_reads m"
      with Suc.IH [of "S\<lparr>main := m\<rparr>"] Suc.prems(3-10) obtain ls where
        "runs (S\<lparr>main := m\<rparr>) ls (S\<lparr>main := return_to c\<rparr>)" "\<not> submits ls" by auto
      with step show ?thesis by (intro exI [of _ "Tau # ls"]) (auto intro: runs_step)
    qed
  qed
qed

section \<open>The sections on the way of a request\<close>

lemma take_spec:
  assumes s: "struct_inv S rq rs"
  shows "take_result (pool S) = Some (None, pool S) \<and> qsize (res_queue (pool S)) = 0 \<or>
    (\<exists>a p. take_result (pool S) = Some (Some a, p) \<and> 0 < qsize (res_queue (pool S)) \<and>
       qsize (res_queue p) = qsize (res_queue (pool S)) - 1 \<and> req_queue p = req_queue (pool S) \<and>
       wrks p = wrks (pool S) \<and> started p = started (pool S))"
proof -
  from shift_queue [OF struct_invD(2,4) [OF s]] consider
      "concat rs = []" "reqq_shift (res_queue (pool S)) (reqs (pool S)) = Some (None, res_queue (pool S))"
    | a q rs' where "reqq_shift (res_queue (pool S)) (reqs (pool S)) = Some (Some a, q)"
      "mset (concat rs) = add_mset a (mset (concat rs'))" "qsize q = qsize (res_queue (pool S)) - 1"
    by blast
  then show ?thesis
  proof cases
    case 1
    then show ?thesis using members_weight(3) [OF s] by (simp add: take_result_def shift_res_def)
  next
    case (2 a q rs')
    then have "length (concat rs) = Suc (length (concat rs'))" by (metis size_mset size_add_mset)
    with 2 members_weight(3) [OF s] show ?thesis by (simp add: take_result_def shift_res_def trace_if_def)
  qed
qed

lemma shift_spec:
  assumes s: "struct_inv S rq rs" and w: "(self, pc) \<in> set (workers S)" and q: "0 < qsize (req_queue (pool S))"
    and p: "req_queue p = req_queue (pool S)" "reqs p = reqs (pool S)" "wrks p = wrks (pool S)"
  shows "\<exists>a p' wk. proc_shift self p = Some (Some a, p') \<and>
    qsize (req_queue p') = qsize (req_queue (pool S)) - 1 \<and> res_queue p' = res_queue p \<and>
    wrks p' = (wrks (pool S))(self \<mapsto> wk) \<and> wrks (pool S) self \<noteq> None \<and> started p' = started p"
proof -
  obtain wk where "wrks (pool S) self = Some wk" by (rule worker_alloc [OF s w])
  moreover have "concat rq \<noteq> []" using members_weight(2) [OF s] q by auto
  with shift_queue [OF struct_invD(1,3) [OF s]] obtain a q' where
    "reqq_shift (req_queue (pool S)) (reqs (pool S)) = Some (Some a, q')"
    "qsize q' = qsize (req_queue (pool S)) - 1" by blast
  ultimately show ?thesis using p by (simp add: proc_shift_def shift_req_def Let_def) blast
qed

lemma put_spec:
  assumes s: "struct_inv S rq rs" and e: "edge_inv (pool S)" and a: "a \<in> set (holds S)"
    and room: "room (res_queue (pool S))"
  shows "\<exists>p. put_result a (pool S) = Some p \<and> qsize (res_queue p) = qsize (res_queue (pool S)) + 1 \<and>
    req_queue p = req_queue (pool S) \<and> wrks p = wrks (pool S) \<and> started p = started (pool S)"
proof -
  from put_defined [OF s a room] obtain p where p: "put_result a (pool S) = Some p" by blast
  from put_result_spec [OF s a room p e] p show ?thesis by auto
qed

lemma done_spec:
  assumes s: "struct_inv S rq rs" and e: "edge_inv (pool S)" and w: "(self, Ran a) \<in> set (workers S)"
    and room: "room (res_queue (pool S))"
  shows "\<exists>p wk. proc_done self a (pool S) = Some p \<and> qsize (res_queue p) = qsize (res_queue (pool S)) + 1 \<and>
    req_queue p = req_queue (pool S) \<and> wrks p = (wrks (pool S))(self \<mapsto> wk) \<and>
    wrks (pool S) self \<noteq> None \<and> started p = started (pool S)"
proof -
  obtain wk where wk: "wrks (pool S) self = Some wk" by (rule worker_alloc [OF s w])
  from put_spec [OF s e _ room, of a] holds_worker [OF w] wk show ?thesis
    by (auto simp: proc_done_def etp_worker_clear_def)
qed

section \<open>Every stretch lowers the weight\<close>

definition advances :: "addr \<Rightarrow> sys \<Rightarrow> bool" where
  "advances wrk S \<longleftrightarrow> (\<exists>ls S'. runs S ls S' \<and> \<not> submits ls \<and> fit wrk S' \<and> weight S' < weight S)"

lemma advances_step:
  assumes "step S l S'" and "l = Tau \<or> l = Deliver a" and "fit wrk S'" and "weight S' < weight S"
  shows "advances wrk S"
  unfolding advances_def
  by (intro exI [of _ "[l]"] exI [of _ S'] conjI) (use assms in \<open>auto intro: runs_one\<close>)

lemma weight_room: "weight S < 2 ^ 29 \<Longrightarrow> room (res_queue (pool S))"
  by (auto simp: weight_def room_def INT_MAX_def)

lemma poll_advances:
  assumes s: "struct_inv S rq rs" and f: "fit wrk S" and m: "main S = M_poll"
  obtains l S' where "step S l S'" "l = Tau" "fit wrk S'"
    "weight S' < weight S" "0 < qsize (res_queue (pool S)) \<Longrightarrow> weight S' + 2 = weight S"
proof -
  from take_spec [OF s] show thesis
  proof (elim disjE conjE exE)
    assume take: "take_result (pool S) = Some (None, pool S)" "qsize (res_queue (pool S)) = 0"
    from step.poll_take [OF m take(1)] show thesis
      by (rule that) (use f m take in \<open>simp_all add: fit_def weight_def count_pc_def\<close>)
  next
    fix a p
    assume take: "take_result (pool S) = Some (Some a, p)" and p: "0 < qsize (res_queue (pool S))"
      "qsize (res_queue p) = qsize (res_queue (pool S)) - 1" "req_queue p = req_queue (pool S)"
      "wrks p = wrks (pool S)" "started p = started (pool S)"
    have q: "nat (qsize (res_queue (pool S))) = Suc (nat (qsize (res_queue (pool S)) - 1))" using p(1) by simp
    from step.poll_take [OF m take] show thesis
      by (rule that) (use f m p q in \<open>simp_all add: fit_def weight_def count_pc_def\<close>)
  qed
qed

lemma start_returns:
  assumes inv: "sys_inv S W" and f: "fit wrk S" and b: "weight S < 2 ^ 29 + 3" and cn: "starting (main S) = Some (cl, n)"
  shows "\<exists>ls. runs S ls (S\<lparr>main := return_to cl\<rparr>) \<and> \<not> submits ls"
proof -
  from inv obtain rq rs where s: "struct_inv S rq rs" and c: "count_inv S (members S rq rs)" by (rule sys_invE)
  have w: "wrk \<noteq> wrk_first" "wrks (pool S) wrk = None" "small_reads (main S)" using f by (simp_all add: fit_def)
  obtain i j k where "sint (etp_nthreads (pool S)) = int i" "sint (etp_npending (pool S)) = int j"
    "sint (etp_nreqs (pool S)) = int k" "i < 2 ^ 29" "j < 2 ^ 29" "k < 2 ^ 30"
    by (rule counters_small [OF s c f b])
  from start_runs [OF cn w(3,1,2) this] show ?thesis .
qed

lemma start_advances:
  assumes inv: "sys_inv S W" and f: "fit wrk S" and b: "weight S < 2 ^ 29" and cn: "starting (main S) = Some (cl, n)"
  shows "advances wrk S"
proof -
  from start_returns [OF inv f _ cn] b obtain ls where
    "runs S ls (S\<lparr>main := return_to cl\<rparr>)" "\<not> submits ls" by auto
  moreover have "main_weight (return_to cl) < main_weight (main S)" "main S \<noteq> M_end" "small_reads (return_to cl)"
    using cn by (cases cl; cases "main S"; simp)+
  ultimately show ?thesis
    using f unfolding advances_def
    by (intro exI [of _ ls] exI [of _ "S\<lparr>main := return_to cl\<rparr>"]) (simp add: fit_def weight_def count_pc_def)
qed

lemma main_advances:
  assumes inv: "sys_inv S W" and f: "fit wrk S" and b: "weight S < 2 ^ 29" and m: "main S \<noteq> M_client"
  shows "advances wrk S"
proof -
  from inv obtain rq rs where s: "struct_inv S rq rs" and c: "count_inv S (members S rq rs)"
    and e: "edge_inv (pool S)" by (rule sys_invE)
  show ?thesis
  proof (cases "main S")
    case (M_group a)
    with put_spec [OF s e _ weight_room [OF b], of a] obtain p where
      p: "put_result a (pool S) = Some p" "qsize (res_queue p) = qsize (res_queue (pool S)) + 1"
      "req_queue p = req_queue (pool S)" "wrks p = wrks (pool S)" "started p = started (pool S)"
      by (auto simp: holds_def)
    from step.group_result [OF M_group weight_room [OF b] p(1)] show ?thesis
      by (rule advances_step)
        (use f M_group p members_weight(3) [OF s] in \<open>simp_all add: fit_def weight_def count_pc_def nat_add_distrib\<close>)
  next
    case M_poll
    from poll_advances [OF s f M_poll] show ?thesis by (metis advances_step)
  next
    case (M_took a)
    from step.poll_deliver [OF this] show ?thesis
      by (rule advances_step) (use f M_took in \<open>simp_all add: fit_def weight_def count_pc_def\<close>)
  next
    case M_end
    have "unat (started (pool S) - 1) = unat (started (pool S)) - 1"
      using f M_end by (intro unat_minus_one) (auto simp: fit_def)
    then have u: "unat (started (pool S)) = Suc (unat (started (pool S) - 1))" using f M_end by (simp add: fit_def)
    from step.end_count [OF M_end] show ?thesis
      by (rule advances_step) (use f M_end u in \<open>simp_all add: fit_def weight_def count_pc_def\<close>)
  qed (use m start_advances [OF inv f b] in simp_all)
qed

text \<open>From client code a waiting result is polled and taken.\<close>

lemma result_advances:
  assumes inv: "sys_inv S W" and f: "fit wrk S" and b: "weight S < 2 ^ 29" and m: "main S = M_client"
    and q: "0 < qsize (res_queue (pool S))"
  shows "advances wrk S"
proof -
  from inv obtain rq rs where s: "struct_inv S rq rs" and c: "count_inv S (members S rq rs)" by (rule sys_invE)
  let ?S = "S\<lparr>main := M_poll\<rparr>" and ?T = "S\<lparr>main := M_start In_poll\<rparr>"
  have "sys_inv ?T W" "fit wrk ?T" "weight ?T < 2 ^ 29 + 3" "starting (main ?T) = Some (In_poll, 5)"
    using poll_inv [OF inv m] f b m by (simp_all add: fit_def weight_def count_pc_def)
  from start_returns [OF this] obtain ls where ls: "runs ?T ls ?S" "\<not> submits ls" by auto
  have start: "runs S (Tau # ls) ?S" using step.poll [OF m] ls(1) by (rule runs_step)
  have S: "struct_inv ?S rq rs" "fit wrk ?S" "weight ?S = Suc (weight S)" "main ?S = M_poll"
    using s f m by (simp_all add: struct_inv_def members_def holds_def past_test_def fit_def count_pc_def weight_def)
  obtain l S' where S': "step ?S l S'" "l = Tau" "fit wrk S'"
    "0 < qsize (res_queue (pool ?S)) \<Longrightarrow> weight S' + 2 = weight ?S"
    by (rule poll_advances [OF S(1,2,4)]) blast
  then have "weight S' < weight S" using q S(3) by simp
  with S' show ?thesis
    using runs_append [OF start runs_one [OF S'(1)]] ls(2)
    unfolding advances_def by (intro exI [of _ "(Tau # ls) @ [l]"] exI [of _ S']) simp
qed

text \<open>A worker goes on with the request it took.\<close>

lemma ran_advances:
  assumes inv: "sys_inv S W" and f: "fit wrk S" and b: "weight S < 2 ^ 29"
    and w: "(self, Ran a) \<in> set (workers S)"
  shows "advances wrk S"
proof -
  from inv obtain rq rs where s: "struct_inv S rq rs" and e: "edge_inv (pool S)" by (rule sys_invE)
  obtain ws vs where ws: "workers S = ws @ (self, Ran a) # vs" using w by (rule workers_split)
  from done_spec [OF s e w weight_room [OF b]] obtain p wk where
    p: "proc_done self a (pool S) = Some p" "qsize (res_queue p) = qsize (res_queue (pool S)) + 1"
    "req_queue p = req_queue (pool S)" "wrks p = (wrks (pool S))(self \<mapsto> wk)" "wrks (pool S) self \<noteq> None"
    "started p = started (pool S)" by blast
  have "self \<noteq> wrk" using f p(5) by (auto simp: fit_def)
  then show ?thesis
    by (intro advances_step [OF step.hand_over [OF ws weight_room [OF b] p(1)]])
      (use f ws p members_weight(3) [OF s] in \<open>simp_all add: fit_def weight_def count_pc_def nat_add_distrib\<close>)
qed

lemma took_advances:
  assumes inv: "sys_inv S W" and f: "fit wrk S" and w: "(self, Took a) \<in> set (workers S)"
  shows "advances wrk S"
proof -
  from inv obtain rq rs where s: "struct_inv S rq rs" by (rule sys_invE)
  obtain ws vs where ws: "workers S = ws @ (self, Took a) # vs" using w by (rule workers_split)
  have "a \<in># members S rq rs" using holds_worker [OF w] by (simp add: members_def)
  then obtain r where r: "reqs (pool S) a = Some r" using struct_invD(6) [OF s] by (auto simp: queued_def)
  obtain wk where wk: "wrks (pool S) self = Some wk" by (rule worker_alloc [OF s w])
  have ex: "exec_step self a (pool S) (pool S)"
    using r wk unfolding exec_step_def
    by (intro exI [of _ r] exI [of _ wk] exI [of _ "dbuf wk"] exI [of _ "dirp wk"])
      (simp add: same_req_def map_upd_triv)
  let ?S = "\<lambda>pc. S\<lparr>workers := ws @ (self, pc) # vs\<rparr>"
  consider "step S Tau (?S Quitting)" | "step S Tau (?S (Ran a))"
    using step.quit_terminator [OF ws r] step.skip_cancelled [OF ws r] step.execute [OF ws r _ _ ex]
    by (cases "req_type r < 0"; cases "EIO_CANCELLED r") auto
  then show ?thesis
    by cases (erule advances_step; use f ws in \<open>simp add: fit_def weight_def count_pc_def\<close>)+
qed

text \<open>Some worker is neither on its way out nor busy, and takes a queued request.\<close>

lemma idle_worker:
  assumes inv: "sys_inv S W" and f: "fit wrk S" and b: "weight S < 2 ^ 29" and m: "main S = M_client"
    and idle: "\<And>self a. (self, Ran a) \<notin> set (workers S) \<and> (self, Took a) \<notin> set (workers S)"
  obtains self pc where "(self, pc) \<in> set (workers S)" "pc = At_loop \<or> pc = Timed_wait \<or> pc = Long_wait"
proof -
  from inv obtain rq rs where s: "struct_inv S rq rs" and c: "count_inv S (members S rq rs)" by (rule sys_invE)
  let ?t = "terms (reqs (pool S)) (members S rq rs)" and ?q = "count_pc ((=) Quitting) S" and ?s = "count_pc ((=) Stopping) S"
  have t: "?t \<le> weight S"
    using members_weight(1) [OF s] size_filter_mset_lesseq le_trans unfolding terms_def by blast
  have q: "?q \<le> length (workers S)" by (simp add: count_pc_def)
  have "of_nat (length (workers S)) = (of_nat (unat (started (pool S)) + ?t + ?q) :: 32 word)"
    using c m by (simp add: count_inv_def)
  then have len: "length (workers S) = unat (started (pool S)) + ?t + ?q"
    by (rule of_nat_eq) (use f b t q in \<open>auto simp: fit_def\<close>)
  have out: "length (workers S) = ?s + ?q" if "\<forall>x \<in> set (workers S). snd x = Stopping \<or> snd x = Quitting"
  proof -
    have "length xs = length (filter ((=) Stopping \<circ> snd) xs) + length (filter ((=) Quitting \<circ> snd) xs)"
      if "\<forall>x \<in> set xs. snd x = Stopping \<or> snd x = Quitting" for xs :: "(addr \<times> wpc) list"
      using that
    proof (induction xs)
      case (Cons x xs)
      then show ?case by (cases "snd x") simp_all
    qed simp
    from this [OF that] show ?thesis by (simp only: count_pc_def)
  qed
  have "?s < unat (started (pool S))" using f by (simp add: fit_def)
  with len out have "\<not> (\<forall>x \<in> set (workers S). snd x = Stopping \<or> snd x = Quitting)" by linarith
  then obtain self pc where "(self, pc) \<in> set (workers S)" "pc \<noteq> Stopping" "pc \<noteq> Quitting" by auto
  with idle that show thesis by (cases pc) auto
qed

lemma queue_advances:
  assumes inv: "sys_inv S W" and f: "fit wrk S" and b: "weight S < 2 ^ 29" and m: "main S = M_client"
    and idle: "\<And>self a. (self, Ran a) \<notin> set (workers S) \<and> (self, Took a) \<notin> set (workers S)"
    and q: "0 < qsize (req_queue (pool S))"
  shows "advances wrk S"
proof -
  from inv obtain rq rs where s: "struct_inv S rq rs" by (rule sys_invE)
  obtain self pc where w: "(self, pc) \<in> set (workers S)" and pc: "pc = At_loop \<or> pc = Timed_wait \<or> pc = Long_wait"
    using idle_worker [OF inv f b m idle] by blast
  obtain ws vs where ws: "workers S = ws @ (self, pc) # vs" using w by (rule workers_split)
  obtain p0 where p0: "pc = At_loop \<and> p0 = pool S \<or> pc \<noteq> At_loop \<and> p0 = (pool S)\<lparr>idle := idle (pool S) - 1\<rparr>"
    by blast
  then have sel: "req_queue p0 = req_queue (pool S)" "reqs p0 = reqs (pool S)" "wrks p0 = wrks (pool S)"
    "res_queue p0 = res_queue (pool S)" "started p0 = started (pool S)" by auto
  obtain a p wk where p: "proc_shift self p0 = Some (Some a, p)"
    "qsize (req_queue p) = qsize (req_queue (pool S)) - 1" "res_queue p = res_queue (pool S)"
    "wrks p = (wrks (pool S))(self \<mapsto> wk)" "wrks (pool S) self \<noteq> None" "started p = started (pool S)"
    using shift_spec [OF s w q sel(1-3)] unfolding sel(4,5) by blast
  have st: "step S Tau (S\<lparr>pool := p, workers := ws @ (self, next_pc (Some a)) # vs\<rparr>)"
    using step.shift [of S ws self vs "Some a" p] step.wake [OF ws, of "Some a" p] ws pc p(1) p0
    by (auto simp: proc_wake_def)
  have n: "nat (qsize (req_queue (pool S))) = Suc (nat (qsize (req_queue (pool S)) - 1))" using q by simp
  have "self \<noteq> wrk" using f p(5) by (auto simp: fit_def)
  moreover have "pc_weight pc = 0" "pc \<noteq> Stopping" using pc by auto
  ultimately show ?thesis
    by (intro advances_step [OF st])
      (use f ws p n in \<open>simp_all add: fit_def weight_def count_pc_def next_pc_def\<close>)
qed

lemma busy_advances:
  assumes inv: "sys_inv S W" and f: "fit wrk S" and b: "weight S < 2 ^ 29" and busy: "0 < weight S"
  shows "advances wrk S"
proof -
  have "main S \<noteq> M_client \<or> 0 < qsize (res_queue (pool S)) \<or> 0 < qsize (req_queue (pool S)) \<or>
    (\<exists>x \<in> set (workers S). 0 < pc_weight (snd x))"
  proof (rule ccontr)
    assume "\<not> ?thesis"
    moreover from this have "sum_list (map (pc_weight \<circ> snd) (workers S)) = 0"
      by (subst sum_list_eq_0_iff) auto
    ultimately have "weight S = 0" by (simp add: weight_def)
    with busy show False by simp
  qed
  moreover have "\<exists>a. pc = Took a \<or> pc = Ran a" if "0 < pc_weight pc" for pc using that by (cases pc) auto
  ultimately show ?thesis
    using main_advances [OF inv f b] result_advances [OF inv f b] ran_advances [OF inv f b]
      took_advances [OF inv f] queue_advances [OF inv f b]
    by (metis prod.collapse)
qed

lemma drains:
  assumes "reachable wp dp S" and "fit wrk S" and "weight S < 2 ^ 29"
  shows "\<exists>ls S'. runs S ls S' \<and> \<not> submits ls \<and> weight S' = 0 \<and> reachable wp dp S'"
  using assms
proof (induction "weight S" arbitrary: S rule: less_induct)
  case less
  show ?case
  proof (cases "weight S = 0")
    case True
    with less.prems(1) runs_nil [of S] show ?thesis by (metis submits.simps(1))
  next
    case False
    from less.prems(1) obtain W where inv: "sys_inv S W" by (rule reachable_inv)
    from busy_advances [OF inv less.prems(2,3)] False obtain ls S' where
      S': "runs S ls S'" "\<not> submits ls" "fit wrk S'" "weight S' < weight S" by (auto simp: advances_def)
    with less.hyps [OF S'(4)] less.prems(1,3) runs_reachable obtain ls' S'' where
      "runs S' ls' S''" "\<not> submits ls'" "weight S'' = 0" "reachable wp dp S''" by (meson less_trans)
    with S' show ?thesis by (meson runs_append submits_append)
  qed
qed

lemma weight_zero: "reachable wp dp S \<Longrightarrow> weight S = 0 \<Longrightarrow> pool_reqs S = {}"
proof -
  assume r: "reachable wp dp S" and w: "weight S = 0"
  from r obtain W where "sys_inv S W" by (rule reachable_inv)
  then obtain rq rs where s: "struct_inv S rq rs" by (rule sys_invE)
  from members_weight(1) [OF s] w show "pool_reqs S = {}" by (simp add: pool_reqs_def struct_inv_owned [OF s])
qed

section \<open>Properties\<close>


text \<open>One worker and one queued request.\<close>

lemma running_facts:
  "started race_running = 1" "qsize (req_queue race_running) = 1" "qsize (res_queue race_running) = 0"
  "Option.is_none (wrks race_running 24)"
  by code_simp+


end
