(* ===== verification/Etp_Spec.thy ===== *)
theory Etp_Spec
  imports Etp_Race
begin

text \<open>
  What the thread pool of \<open>src/libeio/eio.c\<close> promises, without threads, pointers or counters: two
  queues by priority and arrival, the requests being executed, and one request on its way in or
  out. Every run of the code's model is a run of this specification with the same submissions and
  deliveries.
\<close>

section \<open>The specification\<close>

text \<open>\<open>info\<close> is the level of a task in the queues and whether it is a terminator.\<close>

record spec =
  todo :: "addr list list"
  fin :: "addr list list"
  running :: "addr multiset"
  entering :: ptr      \<comment> \<open>a submitted group before its result is queued\<close>
  leaving :: ptr       \<comment> \<open>a result taken out and not yet delivered\<close>
  info :: "addr \<Rightarrow> nat \<times> bool"

definition spec_empty :: spec where
  "spec_empty = \<lparr>todo = replicate 9 [], fin = replicate 9 [], running = {#}, entering = None,
     leaving = None, info = (\<lambda>a. (0, False))\<rparr>"

definition tasks :: "spec \<Rightarrow> addr set" where
  "tasks A = set (concat (todo A)) \<union> set (concat (fin A)) \<union> set_mset (running A) \<union>
     set_option (entering A) \<union> set_option (leaving A)"

inductive spec_step :: "spec \<Rightarrow> label \<Rightarrow> spec \<Rightarrow> bool" where
  sp_submit: "a \<notin> tasks A \<Longrightarrow> p < 9 \<Longrightarrow>
    spec_step A (Submit a) (A\<lparr>todo := fifo_push p a (todo A), info := (info A)(a := (p, False))\<rparr>)"
| sp_group: "a \<notin> tasks A \<Longrightarrow> p < 9 \<Longrightarrow> entering A = None \<Longrightarrow>
    spec_step A (Submit a) (A\<lparr>entering := Some a, info := (info A)(a := (p, False))\<rparr>)"
| sp_group_done: "entering A = Some a \<Longrightarrow>
    spec_step A Tau (A\<lparr>entering := None, fin := fifo_push (fst (info A a)) a (fin A)\<rparr>)"
| sp_start: "fifo_take 9 (todo A) = Some (a, q) \<Longrightarrow>
    spec_step A Tau (A\<lparr>todo := q, running := add_mset a (running A)\<rparr>)"
| sp_finish: "a \<in># running A \<Longrightarrow> \<not> snd (info A a) \<Longrightarrow>
    spec_step A Tau (A\<lparr>running := running A - {#a#}, fin := fifo_push (fst (info A a)) a (fin A)\<rparr>)"
| sp_take: "fifo_take 9 (fin A) = Some (a, q) \<Longrightarrow> leaving A = None \<Longrightarrow>
    spec_step A Tau (A\<lparr>fin := q, leaving := Some a\<rparr>)"
| sp_deliver: "leaving A = Some a \<Longrightarrow> spec_step A (Deliver a) (A\<lparr>leaving := None\<rparr>)"
| sp_end: "a \<notin> tasks A \<Longrightarrow>
    spec_step A Tau (A\<lparr>todo := fifo_push 8 a (todo A), info := (info A)(a := (8, True))\<rparr>)"
| sp_quit: "a \<in># running A \<Longrightarrow> snd (info A a) \<Longrightarrow>
    spec_step A Tau (A\<lparr>running := running A - {#a#}\<rparr>)"
| sp_idle: "spec_step A Tau A"

inductive spec_runs :: "spec \<Rightarrow> label list \<Rightarrow> spec \<Rightarrow> bool" where
  spec_nil: "spec_runs A [] A"
| spec_cons: "spec_step A l A' \<Longrightarrow> spec_runs A' ls A'' \<Longrightarrow> spec_runs A (l # ls) A''"

section \<open>The simulation\<close>

fun main_entering :: "mpc \<Rightarrow> ptr" where
  "main_entering (M_group a) = Some a"
| "main_entering _ = None"

fun main_leaving :: "mpc \<Rightarrow> ptr" where
  "main_leaving (M_took a) = Some a"
| "main_leaving _ = None"

definition info_of :: "heap \<Rightarrow> addr \<Rightarrow> (nat \<times> bool) option" where
  "info_of h a = do { r \<leftarrow> h a; p \<leftarrow> pri_index r; Some (p, req_type r < 0) }"

definition work_held :: "sys \<Rightarrow> addr multiset" where
  "work_held S = mset (concat (map (held \<circ> snd) (workers S)))"

definition refines :: "sys \<Rightarrow> spec \<Rightarrow> bool" where
  "refines S A \<longleftrightarrow>
     reqq_rep (reqs (pool S)) (req_queue (pool S)) (todo A) \<and>
     reqq_rep (reqs (pool S)) (res_queue (pool S)) (fin A) \<and>
     running A = work_held S \<and> entering A = main_entering (main S) \<and> leaving A = main_leaving (main S) \<and>
     (\<forall>a \<in> tasks A. info_of (reqs (pool S)) a = Some (info A a))"

lemma info_of_links: "links_only h h' \<Longrightarrow> info_of h' a = info_of h a"
  by (cases "h a") (auto simp: info_of_def links_only_None pri_index_def elim!: links_only_Some)

lemma info_of_step: "heap_step A h h' \<Longrightarrow> a \<in> A \<Longrightarrow> info_of h' a = info_of h a"
  by (auto simp: heap_step_def info_of_def same_req_def pri_index_def dest!: bspec)

lemma refines_struct:
  assumes "sys_inv S W" and "refines S A"
  shows "struct_inv S (todo A) (fin A)" and "tasks A = owned S" and "edge_inv (pool S)"
proof -
  from assms(1) obtain rq rs where s: "struct_inv S rq rs" and "edge_inv (pool S)" by (rule sys_invE)
  then show "edge_inv (pool S)" by simp
  from struct_invD(1,2) [OF s] assms(2) have eq: "rq = todo A" "rs = fin A"
    by (auto simp: refines_def dest: reqq_rep_unique)
  with s show "struct_inv S (todo A) (fin A)" by simp
  have "set (main_held m) = set_option (main_entering m) \<union> set_option (main_leaving m)" for m
    by (cases m) simp_all
  with assms(2) show "tasks A = owned S"
    unfolding struct_inv_owned [OF s] eq by (auto simp: refines_def tasks_def members_def holds_def work_held_def)
qed

text \<open>A step that leaves the queues, and the links, levels and types of the requests alone.\<close>

lemma refines_quiet:
  assumes "sys_inv S W" and "refines S A" and "heap_step (owned S) (reqs (pool S)) (reqs (pool S'))"
    and "req_queue (pool S') = req_queue (pool S)" and "res_queue (pool S') = res_queue (pool S)"
    and "work_held S' = work_held S" and "main_entering (main S') = main_entering (main S)"
    and "main_leaving (main S') = main_leaving (main S)"
  shows "refines S' A"
proof -
  note s = refines_struct [OF assms(1,2)]
  have sub: "set (concat (todo A)) \<subseteq> owned S" "set (concat (fin A)) \<subseteq> owned S"
    using s(2) by (auto simp: tasks_def)
  from heap_step_rep [OF assms(3) _ sub(1)] heap_step_rep [OF assms(3) _ sub(2)]
    info_of_step [OF assms(3)] s(2) assms(2,4-8) show ?thesis by (simp add: refines_def)
qed

lemma heap_step_refl:
  assumes "struct_inv S rq rs"
  shows "heap_step (owned S) (reqs (pool S)) (reqs (pool S))"
  using struct_invD(6) [OF assms]
  by (fastforce simp: heap_step_def struct_inv_owned [OF assms] queued_def same_req_def)

lemma fifo_push_set: "k < length qss \<Longrightarrow> set (concat (fifo_push k a qss)) = insert a (set (concat qss))"
proof -
  assume "k < length qss"
  then have "mset (concat (fifo_push k a qss)) = add_mset a (mset (concat qss))"
    by (simp add: fifo_push_def mset_concat_snoc)
  then show ?thesis by (metis set_mset_add_mset_insert set_mset_mset)
qed

lemma fifo_take_set:
  assumes "fifo_take 9 qss = Some (a, q)" and "length qss = 9"
  shows "set (concat qss) = insert a (set (concat q))"
proof -
  have "mset (concat qss) = add_mset a (mset (concat q))" using fifo_take_mset [OF assms(1)] assms(2) by simp
  then show ?thesis by (metis set_mset_add_mset_insert set_mset_mset)
qed

section \<open>The queue sections\<close>

lemma put_order:
  assumes s: "struct_inv S rq rs" and a: "a \<in> set (holds S)" and room: "room (res_queue (pool S))"
    and put: "put_result a (pool S) = Some p'"
  shows "\<exists>k b. info_of (reqs (pool S)) a = Some (k, b) \<and> k < 9 \<and> reqq_rep (reqs p') (req_queue p') rq \<and>
    reqq_rep (reqs p') (res_queue p') (fifo_push k a rs) \<and> links_only (reqs (pool S)) (reqs p')"
proof -
  note D = struct_invD [OF s]
  have "a \<in># members S rq rs" using a by (simp add: members_def)
  from D(6) [OF this] obtain r k where r: "reqs (pool S) a = Some r" "pri_index r = Some k"
    by (auto simp: queued_def)
  from put obtain n q h where q: "reqq_push (res_queue (pool S)) a (reqs (pool S)) = Some (n, q, h)"
    and p': "reqs p' = h" "res_queue p' = q" "req_queue p' = req_queue (pool S)"
    by (auto simp: put_result_def push_res_def trace_if_def split: bind_splits)
  have "distinct (concat rs @ concat rq)" "a \<notin> set (concat rs @ concat rq)"
    using struct_inv_distinct [OF s] a by auto
  note push_beside [OF D(2,1) this(1) r this(2) room q]
  moreover have "info_of (reqs (pool S)) a = Some (k, req_type r < 0)" using r by (simp add: info_of_def)
  moreover have "k < 9" using r(2) by (simp add: pri_index_Some)
  ultimately show ?thesis using p' by (intro exI [of _ k] exI [of _ "req_type r < 0"]) simp
qed

lemma enter_order:
  assumes s: "struct_inv S rq rs" and fresh: "a \<notin> owned S" and k: "pri_index r = Some k"
    and room: "room (req_queue (pool S))"
    and push: "push_req a (p\<lparr>reqs := (reqs (pool S))(a \<mapsto> r)\<rparr>) = Some (n, p')"
    and p: "req_queue p = req_queue (pool S)" "res_queue p = res_queue (pool S)"
  shows "reqq_rep (reqs p') (req_queue p') (fifo_push k a rq) \<and> reqq_rep (reqs p') (res_queue p') rs \<and>
    links_only ((reqs (pool S))(a \<mapsto> r)) (reqs p')"
proof -
  note D = struct_invD [OF s]
  let ?h = "(reqs (pool S))(a \<mapsto> r)"
  have a: "a \<notin># members S rq rs" using fresh by (simp add: struct_inv_owned [OF s])
  then have frame: "same_links (set (concat rq)) (reqs (pool S)) ?h" "same_links (set (concat rs)) (reqs (pool S)) ?h"
    by (auto simp: members_def intro!: same_links_upd_other)
  obtain q h where q: "reqq_push (req_queue (pool S)) a ?h = Some (n, q, h)" "p' = p\<lparr>req_queue := q, reqs := h\<rparr>"
    using push p by (auto simp: push_req_def split: bind_splits)
  have "a \<notin> set (concat rq @ concat rs)" using a by (auto simp: members_def)
  from push_beside [OF reqq_rep_frame [OF D(1) frame(1)] reqq_rep_frame [OF D(2) frame(2)] _ _ k this room q(1)]
    struct_inv_distinct [OF s] q(2) p show ?thesis by auto
qed

lemma take_order:
  assumes s: "struct_inv S rq rs" and take: "take_result (pool S) = Some (req, p')"
  shows "reqs p' = reqs (pool S) \<and> req_queue p' = req_queue (pool S) \<and>
    (case req of None \<Rightarrow> res_queue p' = res_queue (pool S)
     | Some a \<Rightarrow> \<exists>q. fifo_take 9 rs = Some (a, q) \<and> reqq_rep (reqs p') (res_queue p') q)"
proof -
  from take obtain q where q: "reqq_shift (res_queue (pool S)) (reqs (pool S)) = Some (req, q)"
    and p': "reqs p' = reqs (pool S)" "req_queue p' = req_queue (pool S)" "res_queue p' = q"
    by (auto simp: take_result_def shift_res_def trace_if_def split: bind_splits option.splits)
  from shift_queue [OF struct_invD(2,4) [OF s]] q p' show ?thesis by (cases req) auto
qed

lemma shift_order:
  assumes s: "struct_inv S rq rs" and shift: "proc_shift self p = Some (req, p')"
    and p: "req_queue p = req_queue (pool S)" "reqs p = reqs (pool S)" "res_queue p = res_queue (pool S)"
  shows "reqs p' = reqs (pool S) \<and> res_queue p' = res_queue (pool S) \<and>
    (case req of None \<Rightarrow> req_queue p' = req_queue (pool S)
     | Some a \<Rightarrow> \<exists>q. fifo_take 9 rq = Some (a, q) \<and> reqq_rep (reqs p') (req_queue p') q)"
proof -
  from shift p obtain q where q: "reqq_shift (req_queue (pool S)) (reqs (pool S)) = Some (req, q)"
    and p': "reqs p' = reqs (pool S)" "res_queue p' = res_queue (pool S)" "req_queue p' = q"
    by (auto simp: proc_shift_def shift_req_def Let_def split: bind_splits if_splits)
  from shift_queue [OF struct_invD(1,3) [OF s]] q p' show ?thesis by (cases req) auto
qed

section \<open>The steps\<close>

text \<open>A held request is put into the result queue; \<open>A'\<close> holds it no more.\<close>

lemma put_refines:
  assumes inv: "sys_inv S W" and ref: "refines S A" and a: "a \<in> set (holds S)"
    and room: "room (res_queue (pool S))" and put: "put_result a (pool S) = Some p"
    and p: "reqs (pool S') = reqs p" "req_queue (pool S') = req_queue p" "res_queue (pool S') = res_queue p"
    and held: "running A' = work_held S'" "entering A' = main_entering (main S')" "leaving A' = main_leaving (main S')"
    and A': "todo A' = todo A" "fin A' = fin A" "info A' = info A" "insert a (tasks A') \<subseteq> tasks A"
  shows "refines S' (A'\<lparr>fin := fifo_push (fst (info A a)) a (fin A)\<rparr>)"
proof -
  note s = refines_struct [OF inv ref]
  from put_order [OF s(1) a room put] obtain k b where k: "info_of (reqs (pool S)) a = Some (k, b)" "k < 9"
    "reqq_rep (reqs p) (req_queue p) (todo A)" "reqq_rep (reqs p) (res_queue p) (fifo_push k a (fin A))"
    "links_only (reqs (pool S)) (reqs p)" by blast
  have "fst (info A a) = k" using k(1) A'(4) ref by (auto simp: refines_def)
  moreover have "length (fin A) = 9" using reqq_repD(3) [OF struct_invD(2) [OF s(1)]] by simp
  then have "tasks (A'\<lparr>fin := fifo_push k a (fin A)\<rparr>) \<subseteq> tasks A"
    using A' fifo_push_set [of k "fin A" a] k(2) by (auto simp: tasks_def simp del: set_concat)
  ultimately show ?thesis
    using k(3,4) p held A'(1,3) ref info_of_links [OF k(5)] by (auto simp: refines_def)
qed

text \<open>A fresh request is put into the request queue.\<close>

lemma enter_refines:
  assumes inv: "sys_inv S W" and ref: "refines S A" and fresh: "a \<notin> owned S" and k: "pri_index r = Some k"
    and room: "room (req_queue (pool S))"
    and push: "push_req a (p\<lparr>reqs := (reqs (pool S))(a \<mapsto> r)\<rparr>) = Some (n, p')"
    and p: "req_queue p = req_queue (pool S)" "res_queue p = res_queue (pool S)"
    and p': "reqs (pool S') = reqs p'" "req_queue (pool S') = req_queue p'" "res_queue (pool S') = res_queue p'"
    and held: "work_held S' = work_held S" "main_entering (main S') = main_entering (main S)"
      "main_leaving (main S') = main_leaving (main S)"
  shows "refines S' (A\<lparr>todo := fifo_push k a (todo A), info := (info A)(a := (k, req_type r < 0))\<rparr>)"
proof -
  note s = refines_struct [OF inv ref]
  from enter_order [OF s(1) fresh k room push p] have q: "reqq_rep (reqs p') (req_queue p') (fifo_push k a (todo A))"
    "reqq_rep (reqs p') (res_queue p') (fin A)" "links_only ((reqs (pool S))(a \<mapsto> r)) (reqs p')" by auto
  have "k < length (todo A)" using k reqq_repD(3) [OF struct_invD(1) [OF s(1)]] by (simp add: pri_index_Some)
  then have "tasks (A\<lparr>todo := fifo_push k a (todo A), info := i\<rparr>) = insert a (tasks A)" for i
    by (simp add: tasks_def fifo_push_set del: set_concat)
  moreover have "info_of (reqs p') a = Some (k, req_type r < 0)"
    unfolding info_of_links [OF q(3)] using k by (simp add: info_of_def)
  moreover have "info_of (reqs p') b = Some (info A b)" if "b \<in> tasks A" for b
    using that fresh s(2) ref unfolding info_of_links [OF q(3)] by (auto simp: info_of_def refines_def)
  moreover have "a \<notin> tasks A" using fresh s(2) by simp
  ultimately show ?thesis using q(1,2) p' held ref by (auto simp: refines_def)
qed

text \<open>A worker takes the next request, or waits.\<close>

lemma shift_refines:
  assumes inv: "sys_inv S W" and ref: "refines S A" and w: "workers S = ws @ (self, pc) # vs" "held pc = []"
    and shift: "proc_shift self p = Some (req, s')"
    and p: "req_queue p = req_queue (pool S)" "reqs p = reqs (pool S)" "res_queue p = res_queue (pool S)"
  shows "\<exists>A'. spec_step A Tau A' \<and> refines (S\<lparr>pool := s', workers := ws @ (self, next_pc req) # vs\<rparr>) A'"
proof -
  note s = refines_struct [OF inv ref]
  note order = shift_order [OF s(1) shift p]
  show ?thesis
  proof (cases req)
    case None
    with order w have "refines (S\<lparr>pool := s', workers := ws @ (self, next_pc req) # vs\<rparr>) A"
      by (intro refines_quiet [OF inv ref]) (simp_all add: heap_step_refl [OF s(1)] work_held_def next_pc_def)
    with sp_idle show ?thesis by blast
  next
    case (Some a)
    with order obtain q where q: "fifo_take 9 (todo A) = Some (a, q)" "reqq_rep (reqs s') (req_queue s') q"
      and eq: "reqs s' = reqs (pool S)" "res_queue s' = res_queue (pool S)" by auto
    let ?A = "A\<lparr>todo := q, running := add_mset a (running A)\<rparr>"
    have "tasks ?A = tasks A"
      using fifo_take_set [OF q(1)] reqq_repD(3) [OF struct_invD(1) [OF s(1)]]
      by (auto simp: tasks_def simp del: set_concat)
    then have "refines (S\<lparr>pool := s', workers := ws @ (self, next_pc req) # vs\<rparr>) ?A"
      using q(2) eq ref w Some by (simp add: refines_def work_held_def next_pc_def)
    with sp_start [OF q(1)] show ?thesis by blast
  qed
qed

text \<open>A step the specification does not see.\<close>

lemma idle_step:
  assumes inv: "sys_inv S W" and ref: "refines S A"
    and "heap_step (owned S) (reqs (pool S)) (reqs (pool S')) \<or> reqs (pool S') = reqs (pool S)"
    and "req_queue (pool S') = req_queue (pool S)" and "res_queue (pool S') = res_queue (pool S)"
    and "work_held S' = work_held S" and "main_entering (main S') = main_entering (main S)"
    and "main_leaving (main S') = main_leaving (main S)"
  shows "\<exists>A'. spec_step A Tau A' \<and> refines S' A'"
proof -
  have "heap_step (owned S) (reqs (pool S)) (reqs (pool S'))"
    using assms(3) heap_step_refl [OF refines_struct(1) [OF inv ref]] by auto
  from refines_quiet [OF inv ref this assms(4-8)] sp_idle show ?thesis by blast
qed

lemma return_main [simp]: "main_entering (return_to c) = None" "main_leaving (return_to c) = None"
  by (cases c, simp_all)+

lemma start_read_main:
  "start_read s m = Some m' \<Longrightarrow> main_entering m = None \<and> main_leaving m = None \<and>
    main_entering m' = None \<and> main_leaving m' = None"
  by (induction s m rule: start_read.induct) (auto split: if_splits)

lemma submit_index: "\<exists>k < 9. pri_index (r\<lparr>pri := submit_pri p\<rparr>) = Some k"
  using submit_pri_index [of p r] by (auto simp: pri_index_Some)

lemma refines_held:
  assumes "sys_inv S W" and "refines S A" and "a \<in> set (holds S)"
  obtains r where "reqs (pool S) a = Some r" "info A a = (fst (info A a), req_type r < 0)" "a \<in> tasks A"
proof -
  note s = refines_struct [OF assms(1,2)]
  have a: "a \<in> tasks A" using assms(3) unfolding s(2) struct_inv_owned [OF s(1)] by (simp add: members_def)
  with assms(2) have "info_of (reqs (pool S)) a = Some (info A a)" by (simp add: refines_def)
  then obtain r where "reqs (pool S) a = Some r" "info A a = (fst (info A a), req_type r < 0)"
    by (auto simp: info_of_def prod_eq_iff split: bind_splits)
  with a that show thesis by blast
qed

text \<open>A worker drops a request.\<close>

lemma refines_drop:
  assumes ref: "refines S A" and run: "running A = add_mset a (work_held S')"
    and "pool S' = pool S" and "main S' = main S"
  shows "refines S' (A\<lparr>running := running A - {#a#}\<rparr>)"
proof -
  have "tasks (A\<lparr>running := running A - {#a#}\<rparr>) \<subseteq> tasks A" by (auto simp: tasks_def dest: in_diffD)
  then have "info_of (reqs (pool S)) b = Some (info A b)" if "b \<in> tasks (A\<lparr>running := running A - {#a#}\<rparr>)" for b
    using ref that by (auto simp: refines_def)
  moreover have "running A - {#a#} = work_held S'" using run by simp
  ultimately show ?thesis using ref assms(3,4) by (simp add: refines_def)
qed

lemma sim_submit:
  assumes submit: "main S = M_client"
    "req \<notin> owned S"
    "reqs (pool S) req = Some r"
    "0 \<le> req_type r"
    "req_type r \<noteq> type_code EIO_GROUP"
    "room (req_queue (pool S))"
    "put_request req ((pool S)\<lparr>reqs := (reqs (pool S))(req \<mapsto> r\<lparr>pri := submit_pri (pri r)\<rparr>)\<rparr>) = Some s'"
    "sys_inv S W"
    "refines S A"
  shows "\<exists>A'. spec_step A (Submit req) A' \<and> refines (S\<lparr>pool := s', main := M_start In_submit\<rparr>) A'"
proof -
  let ?r = "r\<lparr>pri := submit_pri (pri r)\<rparr>" and ?p = "pool S"
  obtain k where k: "pri_index ?r = Some k" "k < 9" using submit_index by blast
  have "?p\<lparr>reqs := (reqs ?p)(req \<mapsto> ?r), nreqs := nreqs ?p + 1, nready := nready ?p + 1\<rparr> =
      ?p\<lparr>nreqs := nreqs ?p + 1, nready := nready ?p + 1\<rparr>\<lparr>reqs := (reqs ?p)(req \<mapsto> ?r)\<rparr>" by simp
  with submit(7) obtain n p' where push:
    "push_req req (?p\<lparr>nreqs := nreqs ?p + 1, nready := nready ?p + 1\<rparr>\<lparr>reqs := (reqs ?p)(req \<mapsto> ?r)\<rparr>) = Some (n, p')"
    and s': "s' = trace_if True Cond_signal p'"
    by (auto simp: put_request_def split: bind_splits)
  have "refines (S\<lparr>pool := s', main := M_start In_submit\<rparr>)
      (A\<lparr>todo := fifo_push k req (todo A), info := (info A)(req := (k, req_type ?r < 0))\<rparr>)"
    by (rule enter_refines [OF submit(8,9,2) k(1) submit(6) push])
      (simp_all add: s' trace_if_def work_held_def submit(1))
  moreover have "\<not> req_type ?r < 0" using submit(4) by simp
  moreover have "req \<notin> tasks A" using submit(2) refines_struct(2) [OF submit(8,9)] by simp
  ultimately show ?thesis using sp_submit [of req A k] k(2) by auto
qed

lemma sim_submit_group:
  assumes submit_group: "main S = M_client"
    "req \<notin> owned S"
    "reqs (pool S) req = Some r"
    "req_type r = type_code EIO_GROUP"
    "sys_inv S W"
    "refines S A"
  shows "\<exists>A'. spec_step A (Submit req) A' \<and> refines (S\<lparr>pool := (pool S)\<lparr>reqs := (reqs (pool S))(req \<mapsto> r\<lparr>pri := submit_pri (pri r)\<rparr>),
      nreqs := nreqs (pool S) + 1\<rparr>, main := M_group req\<rparr>) A'"
proof -
  let ?r = "r\<lparr>pri := submit_pri (pri r)\<rparr>" and ?p = "pool S"
  obtain k where k: "pri_index ?r = Some k" "k < 9" using submit_index by blast
  note s = refines_struct [OF submit_group(5,6)]
  have out: "req \<notin> tasks A" "entering A = None" using submit_group(1,2,6) s(2) by (simp_all add: refines_def)
  let ?A = "A\<lparr>entering := Some req, info := (info A)(req := (k, False))\<rparr>"
  let ?h = "(reqs ?p)(req \<mapsto> ?r)"
  have frame: "same_links (set (concat (todo A))) (reqs ?p) ?h" "same_links (set (concat (fin A))) (reqs ?p) ?h"
    using out(1) by (auto simp: tasks_def intro!: same_links_upd_other)
  from submit_group(6) frame have "reqq_rep ?h (req_queue ?p) (todo A)" "reqq_rep ?h (res_queue ?p) (fin A)"
    by (auto simp: refines_def intro: reqq_rep_frame)
  moreover have "tasks ?A = insert req (tasks A)" using out(2) by (auto simp: tasks_def)
  moreover have "info_of ?h req = Some (k, False)"
  proof -
    have "0 \<le> req_type r" using submit_group(4) by simp
    with k(1) show ?thesis by (simp add: info_of_def)
  qed
  moreover have "info_of ?h b = Some (info A b)" if "b \<in> tasks A" for b
    using that out(1) submit_group(6) by (auto simp: info_of_def refines_def)
  ultimately have "refines (S\<lparr>pool := ?p\<lparr>reqs := ?h, nreqs := nreqs ?p + 1\<rparr>, main := M_group req\<rparr>) ?A"
    using submit_group(1,6) out by (auto simp: refines_def work_held_def)
  with sp_group [OF out(1) k(2) out(2)] show ?thesis by blast
qed

lemma sim_group_result:
  assumes group_result: "main S = M_group req"
    "room (res_queue (pool S))"
    "put_result req (pool S) = Some s'"
    "sys_inv S W"
    "refines S A"
  shows "\<exists>A'. spec_step A Tau A' \<and> refines (S\<lparr>pool := s', main := M_client\<rparr>) A'"
proof -
  have hold: "req \<in> set (holds S)" using group_result(1) by (simp add: holds_def)
  have ent: "entering A = Some req" "leaving A = None" using group_result(1,5) by (simp_all add: refines_def)
  have "refines (S\<lparr>pool := s', main := M_client\<rparr>)
      (A\<lparr>entering := None\<rparr>\<lparr>fin := fifo_push (fst (info A req)) req (fin A)\<rparr>)"
    by (rule put_refines [OF group_result(4,5) hold group_result(2,3)])
      (use group_result(5) ent in \<open>auto simp: refines_def work_held_def tasks_def\<close>)
  with sp_group_done [OF ent(1)] show ?thesis by auto
qed

lemma sim_hand_over:
  assumes hand_over: "workers S = ws @ (self, Ran req) # vs"
    "room (res_queue (pool S))"
    "proc_done self req (pool S) = Some s'"
    "sys_inv S W"
    "refines S A"
  shows "\<exists>A'. spec_step A Tau A' \<and> refines (S\<lparr>pool := s', workers := ws @ (self, At_loop) # vs\<rparr>) A'"
proof -
  have hold: "req \<in> set (holds S)" using hand_over(1) by (simp add: holds_def)
  from hand_over(3) obtain p where p: "put_result req (pool S) = Some p"
    "reqs s' = reqs p" "req_queue s' = req_queue p" "res_queue s' = res_queue p"
    by (auto simp: proc_done_def split: bind_splits)
  have run: "running A = add_mset req (mset (concat (map (held \<circ> snd) (ws @ vs))))"
    using hand_over(1,5) by (simp add: refines_def work_held_def)
  have "\<not> is_term (reqs (pool S)) req"
    using struct_invD(7) [OF refines_struct(1) [OF hand_over(4,5)], of req] hand_over(1) by (simp add: past_test_def)
  moreover obtain r where "reqs (pool S) req = Some r" "info A req = (fst (info A req), req_type r < 0)"
    using refines_held [OF hand_over(4,5) hold] by blast
  ultimately have ty: "\<not> snd (info A req)" unfolding is_term_def by (metis option.simps(5) snd_conv)
  have main: "entering A = main_entering (main S)" "leaving A = main_leaving (main S)"
    using hand_over(5) by (simp_all add: refines_def)
  have "refines (S\<lparr>pool := s', workers := ws @ (self, At_loop) # vs\<rparr>)
      (A\<lparr>running := running A - {#req#}\<rparr>\<lparr>fin := fifo_push (fst (info A req)) req (fin A)\<rparr>)"
    by (rule put_refines [OF hand_over(4,5) hold hand_over(2) p(1)])
      (use p(2-4) run main in \<open>auto simp: work_held_def tasks_def simp del: set_concat\<close>)
  with sp_finish [OF _ ty] run show ?thesis by auto
qed

lemma sim_poll_take:
  assumes poll_take: "main S = M_poll"
    "take_result (pool S) = Some (req, s')"
    "sys_inv S W"
    "refines S A"
  shows "\<exists>A'. spec_step A Tau A' \<and> refines (S\<lparr>pool := s', main := (case req of None \<Rightarrow> M_client | Some a \<Rightarrow> M_took a)\<rparr>) A'"
proof -
  note s = refines_struct [OF poll_take(3,4)]
  note order = take_order [OF s(1) poll_take(2)]
  show ?thesis
  proof (cases req)
    case None
    with order poll_take(1) show ?thesis
      by (intro idle_step [OF poll_take(3,4)]) (simp_all add: work_held_def)
  next
    case (Some a)
    with order obtain q where q: "fifo_take 9 (fin A) = Some (a, q)" "reqq_rep (reqs s') (res_queue s') q"
      and eq: "reqs s' = reqs (pool S)" "req_queue s' = req_queue (pool S)" by auto
    have out: "leaving A = None" "entering A = None" using poll_take(1,4) by (simp_all add: refines_def)
    let ?A = "A\<lparr>fin := q, leaving := Some a\<rparr>"
    have "tasks ?A = tasks A"
      using fifo_take_set [OF q(1)] reqq_repD(3) [OF struct_invD(2) [OF s(1)]] out
      by (auto simp: tasks_def simp del: set_concat)
    then have "refines (S\<lparr>pool := s', main := M_took a\<rparr>) ?A"
      using q(2) eq poll_take(4) out by (simp add: refines_def work_held_def)
    with sp_take [OF q(1) out(1)] Some show ?thesis by auto
  qed
qed

lemma sim_end_push:
  assumes end_push: "main S = M_client"
    "reqs (pool S) mem = None"
    "room (req_queue (pool S))"
    "push_req mem ((pool S)\<lparr>reqs := (reqs (pool S))(mem \<mapsto> terminator)\<rparr>) = Some (n, s')"
    "sys_inv S W"
    "refines S A"
  shows "\<exists>A'. spec_step A Tau A' \<and> refines (S\<lparr>pool := trace_if True Cond_signal s', main := M_end, ended := Suc (ended S)\<rparr>) A'"
proof -
  note s = refines_struct [OF end_push(5,6)]
  have out: "mem \<notin> owned S"
    using struct_invD(6) [OF s(1), of mem] end_push(2) by (auto simp: struct_inv_owned [OF s(1)] queued_def)
  have k: "pri_index terminator = Some 8" "req_type terminator < 0"
    by (simp_all add: pri_index_def terminator_def eio_pri_defs sint_to_schar)
  have "refines (S\<lparr>pool := trace_if True Cond_signal s', main := M_end, ended := Suc (ended S)\<rparr>)
      (A\<lparr>todo := fifo_push 8 mem (todo A), info := (info A)(mem := (8, req_type terminator < 0))\<rparr>)"
    by (rule enter_refines [OF end_push(5,6) out k(1) end_push(3,4)])
      (simp_all add: trace_if_def work_held_def end_push(1))
  with sp_end [of mem A] out s(2) k(2) show ?thesis by auto
qed

lemma sim_quit_terminator:
  assumes quit_terminator: "workers S = ws @ (self, Took req) # vs"
    "reqs (pool S) req = Some r"
    "req_type r < 0"
    "sys_inv S W"
    "refines S A"
  shows "\<exists>A'. spec_step A Tau A' \<and> refines (S\<lparr>workers := ws @ (self, Quitting) # vs\<rparr>) A'"
proof -
  have hold: "req \<in> set (holds S)" using quit_terminator(1) by (simp add: holds_def)
  from refines_held [OF quit_terminator(4,5) hold] quit_terminator(2,3) have ty: "snd (info A req)"
    by (metis option.inject snd_conv)
  let ?S = "S\<lparr>workers := ws @ (self, Quitting) # vs\<rparr>"
  have "running A = add_mset req (work_held ?S)"
    using quit_terminator(1,5) by (simp add: refines_def work_held_def)
  moreover from this have "refines ?S (A\<lparr>running := running A - {#req#}\<rparr>)"
    using refines_drop [OF quit_terminator(5), of req ?S] by simp
  ultimately show ?thesis using sp_quit [OF _ ty] by auto
qed

lemma sim_execute:
  assumes execute: "workers S = ws @ (self, Took req) # vs"
    "reqs (pool S) req = Some r"
    "0 \<le> req_type r"
    "\<not> EIO_CANCELLED r"
    "exec_step self req (pool S) s'"
    "sys_inv S W"
    "refines S A"
  shows "\<exists>A'. spec_step A Tau A' \<and> refines (S\<lparr>pool := s', workers := ws @ (self, Ran req) # vs\<rparr>) A'"
proof -
  from execute(2,5) obtain r' where h: "reqs s' = (reqs (pool S))(req \<mapsto> r')" "same_req r r'"
    and q: "req_queue s' = req_queue (pool S)" "res_queue s' = res_queue (pool S)"
    by (auto simp: exec_step_def)
  have "heap_step (owned S) (reqs (pool S)) (reqs s')"
    using heap_step_one [where h = "reqs (pool S)", OF _ execute(2) h(2)] struct_invD(6) [OF refines_struct(1) [OF execute(6,7)]] h(1)
      struct_inv_owned [OF refines_struct(1) [OF execute(6,7)]] by simp
  with q execute(1) show ?thesis by (intro idle_step [OF execute(6,7)]) (simp_all add: work_held_def)
qed

lemma simulates: "step S l S' \<Longrightarrow> sys_inv S W \<Longrightarrow> refines S A \<Longrightarrow> \<exists>A'. spec_step A l A' \<and> refines S' A'"
proof (induction rule: step.induct)
  case (client S s')
  then show ?case by (intro idle_step) (auto simp: client_step_def heap_step_def work_held_def)
next
  case (poll_deliver S req)
  then have "leaving A = Some req" by (simp add: refines_def)
  moreover from poll_deliver have "refines (S\<lparr>pool := (pool S)\<lparr>nreqs := nreqs (pool S) - 1\<rparr>, main := M_client\<rparr>)
      (A\<lparr>leaving := None\<rparr>)"
    by (auto simp: refines_def work_held_def tasks_def)
  ultimately show ?case using sp_deliver by blast
next
  case (shift S ws self vs req s')
  then show ?case by (intro shift_refines [where pc = At_loop]) simp_all
next
  case (wake S ws self pc vs req s')
  then show ?case
    by (intro shift_refines [where pc = pc and p = "(pool S)\<lparr>idle := idle (pool S) - 1\<rparr>"])
      (auto simp: proc_wake_def)
next
  case (timeout S ws self vs stop s')
  then show ?case
    by (intro idle_step) (auto simp: proc_timeout_def work_held_def split: if_splits)
next
  case (quit S ws self vs s')
  then have "reqs s' = reqs (pool S)" "req_queue s' = req_queue (pool S)" "res_queue s' = res_queue (pool S)"
    by (auto simp: proc_quit_def split: bind_splits)
  with quit show ?case by (intro idle_step [OF quit(3,4)]) (simp_all add: work_held_def)
next
  case (create S c wrk created s')
  from start_thread_cases [OF create(4)] create(1) show ?case
    by (intro idle_step [OF create(5,6)]) (auto simp: work_held_def)
next
  case (maybe_start S m)
  with start_read_main [OF maybe_start(1)] show ?case
    by (intro idle_step [OF maybe_start(2,3)]) (auto simp: work_held_def)
qed ((rule sim_submit; assumption) | (rule sim_submit_group; assumption) | (rule sim_group_result; assumption) |
  (rule sim_hand_over; assumption) | (rule sim_poll_take; assumption) | (rule sim_end_push; assumption) |
  (rule sim_quit_terminator; assumption) | (rule sim_execute; assumption) |
  (rule idle_step; assumption?; simp add: work_held_def proc_stop_def))+

lemma refines_start: "refines (sys_start wp dp h) spec_empty"
proof -
  have "concat (replicate 9 []) = ([] :: addr list)" by (simp add: numeral_eq_Suc)
  then have "tasks spec_empty = {}" by (simp add: tasks_def spec_empty_def)
  then show ?thesis
    using reqq_rep_empty [of h]
    by (simp add: refines_def spec_empty_def sys_start_def etp_init_def etp_start_def work_held_def)
qed

lemma runs_inv: "runs S ls S' \<Longrightarrow> sys_inv S W \<Longrightarrow> \<exists>W'. sys_inv S' W'"
  by (induction arbitrary: W rule: runs.induct) (blast dest: step_inv)+

lemma runs_refine:
  "runs S ls S' \<Longrightarrow> sys_inv S W \<Longrightarrow> refines S A \<Longrightarrow> \<exists>A'. spec_runs A ls A' \<and> refines S' A'"
proof (induction arbitrary: W A rule: runs.induct)
  case (runs_step S l S' ls S'')
  then obtain A' where A': "spec_step A l A'" "refines S' A'" by (blast dest: simulates)
  from step_inv [OF runs_step.hyps(1) runs_step.prems(1)] have "sys_inv S' (label_effect l W)" by simp
  from runs_step.IH [OF this A'(2)] A'(1) show ?case by (blast intro: spec_runs.spec_cons)
qed (blast intro: spec_runs.spec_nil)

text \<open>C3: Every run of the thread pool, with any number of threads and any interleaving, is a run of
  the queueing specification with the same submissions and deliveries; at its end the code's two
  queues hold exactly the specification's, in its order, and the threads and the submitting thread
  hold exactly its other requests.\<close>

theorem pool_refines_spec:
  assumes "runs (sys_start want_poll done_poll h) ls S"
  shows "\<exists>A. spec_runs spec_empty ls A \<and> refines S A"
  using runs_refine [OF assms start_inv refines_start] .

theorem pool_refines_spec_witness:
  "\<exists>A. spec_runs spec_empty [Tau, Submit 32] A \<and> refines (race_at race_submitted [] (M_start In_submit) 0) A"
  using pool_refines_spec [OF runs_step [OF race_client runs_one [OF race_submit]]] .

end
