(* ===== verification/Eio_Group.thy ===== *)
theory Eio_Group
  imports Etp_Pool
begin

text \<open>
  Finishing, destroying, cancelling and grouping requests: \<open>eio_finish\<close>, \<open>eio_destroy\<close>,
  \<open>eio_cancel\<close> and the group functions of \<open>src/libeio/eio.c\<close>.

  The callbacks in a request are client code: a record \<open>callbacks\<close> gives what the function at a
  code address does to the whole state, which it may change by any call of the library. Where the
  C functions call each other in a loop (\<open>eio_finish\<close> and \<open>grp_dec\<close>, \<open>eio_cancel\<close> and
  \<open>eio_grp_cancel\<close>) one recursive function holds the loop, with the inner function unfolded in its
  body; a loop that may not end is a \<open>partial_function\<close>.
\<close>

section \<open>Callbacks\<close>

record callbacks =
  cb_finish :: "64 word \<Rightarrow> addr \<Rightarrow> etp \<Rightarrow> (int \<times> etp) option"
  cb_destroy :: "64 word \<Rightarrow> addr \<Rightarrow> etp \<Rightarrow> etp option"
  cb_feed :: "64 word \<Rightarrow> addr \<Rightarrow> etp \<Rightarrow> etp option"

text \<open>\<open>modify a f s\<close>: assignments to members of the request at \<open>a\<close>.\<close>

definition modify :: "addr \<Rightarrow> (eio_req \<Rightarrow> eio_req) \<Rightarrow> etp \<Rightarrow> etp option" where
  "modify a f s = do { h \<leftarrow> upd a f (reqs s); Some (s\<lparr>reqs := h\<rparr>) }"

text \<open>\<open>modify_ptr p f s\<close>: the same under the test \<open>if (p)\<close>.\<close>

definition modify_ptr :: "ptr \<Rightarrow> (eio_req \<Rightarrow> eio_req) \<Rightarrow> etp \<Rightarrow> etp option" where
  "modify_ptr p f s = (case p of None \<Rightarrow> Some s | Some a \<Rightarrow> modify a f s)"

definition EIO_FINISH :: "callbacks \<Rightarrow> addr \<Rightarrow> etp \<Rightarrow> (int \<times> etp) option" where
  "EIO_FINISH cb req s = do {
     r \<leftarrow> reqs s req;
     (case finish r of
        Some f \<Rightarrow> if \<not> EIO_CANCELLED r then cb_finish cb f req s else Some (0, s)
      | None \<Rightarrow> Some (0, s)) }"

definition EIO_DESTROY :: "callbacks \<Rightarrow> addr \<Rightarrow> etp \<Rightarrow> etp option" where
  "EIO_DESTROY cb req s = do {
     r \<leftarrow> reqs s req;
     (case destroy r of Some f \<Rightarrow> cb_destroy cb f req s | None \<Rightarrow> Some s) }"

definition EIO_FEED :: "callbacks \<Rightarrow> addr \<Rightarrow> etp \<Rightarrow> etp option" where
  "EIO_FEED cb req s = do {
     r \<leftarrow> reqs s req;
     (case feed r of Some f \<Rightarrow> cb_feed cb f req s | None \<Rightarrow> Some s) }"

text \<open>\<open>eio_api_destroy\<close>: \<open>free (req)\<close>.\<close>

definition eio_api_destroy :: "addr \<Rightarrow> etp \<Rightarrow> etp option" where
  "eio_api_destroy req s = do {
     r \<leftarrow> reqs s req;
     Some (s\<lparr>reqs := (reqs s)(req := None), trace := Free_req req # trace s\<rparr>) }"

section \<open>Destroying\<close>

text \<open>\<open>free\<close> of a buffer; the null pointer is no call.\<close>

definition free_buf :: "64 word \<Rightarrow> etp \<Rightarrow> etp" where
  "free_buf p s = trace_if (p \<noteq> 0) (Free_buf p) s"

definition eio_destroy :: "callbacks \<Rightarrow> addr \<Rightarrow> etp \<Rightarrow> etp option" where
  "eio_destroy cb req s = do {
     r \<leftarrow> reqs s req;
     (let s = (if flags r AND EIO_FLAG_PTR1_FREE \<noteq> 0 then free_buf (ptr1 r) s else s);
          s = (if flags r AND EIO_FLAG_PTR2_FREE \<noteq> 0 then free_buf (ptr2 r) s else s)
      in EIO_DESTROY cb req s) }"

section \<open>Feeding\<close>

text \<open>
  \<open>grp->size < grp->int2\<close> compares a \<open>size_t\<close> with a \<open>long\<close>, which is converted to an unsigned
  value first.
\<close>

definition below_limit :: "eio_req \<Rightarrow> bool" where
  "below_limit r \<longleftrightarrow> req_size r < word_of_int (int2 r)"

partial_function (option) grp_try_feed :: "callbacks \<Rightarrow> addr \<Rightarrow> etp \<Rightarrow> etp option" where
  "grp_try_feed cb g s = do {
     r \<leftarrow> reqs s g;
     (if below_limit r \<and> \<not> EIO_CANCELLED r then do {
        s \<leftarrow> modify g (\<lambda>r. r\<lparr>flags := flags r AND NOT EIO_FLAG_GROUPADD\<rparr>) s;
        s \<leftarrow> EIO_FEED cb g s;
        r \<leftarrow> reqs s g;
        (if flags r AND EIO_FLAG_GROUPADD = 0
         then modify g (feed_update (\<lambda>_. None)) s
         else grp_try_feed cb g s) }
      else Some s) }"

definition eio_grp_feed :: "callbacks \<Rightarrow> addr \<Rightarrow> code_ptr \<Rightarrow> int \<Rightarrow> etp \<Rightarrow> etp option" where
  "eio_grp_feed cb g f limit s = do {
     s \<leftarrow> modify g (\<lambda>r. r\<lparr>int2 := limit\<rparr>) s;
     s \<leftarrow> modify g (\<lambda>r. r\<lparr>feed := f\<rparr>) s;
     grp_try_feed cb g s }"

definition eio_grp_limit :: "callbacks \<Rightarrow> addr \<Rightarrow> int \<Rightarrow> etp \<Rightarrow> etp option" where
  "eio_grp_limit cb g limit s = do {
     s \<leftarrow> modify g (\<lambda>r. r\<lparr>int2 := limit\<rparr>) s;
     grp_try_feed cb g s }"

section \<open>Adding to a group\<close>

text \<open>A failed assertion is \<^term>\<open>None\<close>.\<close>

definition eio_grp_add :: "addr \<Rightarrow> addr \<Rightarrow> etp \<Rightarrow> etp option" where
  "eio_grp_add g req s = do {
     rg \<leftarrow> reqs s g;
     (if int1 rg = 2 then None
      else do {
        s \<leftarrow> modify g (\<lambda>r. r\<lparr>flags := flags r OR EIO_FLAG_GROUPADD\<rparr>) s;
        s \<leftarrow> modify g (\<lambda>r. r\<lparr>req_size := req_size r + 1\<rparr>) s;
        s \<leftarrow> modify req (grp_update (\<lambda>_. Some g)) s;
        s \<leftarrow> modify req (grp_prev_update (\<lambda>_. None)) s;
        rg \<leftarrow> reqs s g;
        s \<leftarrow> modify req (grp_next_update (\<lambda>_. grp_first rg)) s;
        s \<leftarrow> modify_ptr (grp_first rg) (grp_prev_update (\<lambda>_. Some req)) s;
        modify g (grp_first_update (\<lambda>_. Some req)) s }) }"

section \<open>Finishing\<close>

text \<open>The unlinking in \<open>eio_finish\<close>; each member is read when the code reads it.\<close>

definition grp_unlink :: "addr \<Rightarrow> addr \<Rightarrow> etp \<Rightarrow> etp option" where
  "grp_unlink req g s = do {
     r \<leftarrow> reqs s req;
     s \<leftarrow> modify_ptr (grp_next r) (grp_prev_update (\<lambda>_. grp_prev r)) s;
     r \<leftarrow> reqs s req;
     s \<leftarrow> modify_ptr (grp_prev r) (grp_next_update (\<lambda>_. grp_next r)) s;
     rg \<leftarrow> reqs s g;
     (if grp_first rg = Some req then do {
        r \<leftarrow> reqs s req;
        modify g (grp_first_update (\<lambda>_. grp_next r)) s }
      else Some s) }"

text \<open>\<open>eio_finish\<close> with \<open>grp_dec\<close> unfolded; the recursion goes to the group of the request.\<close>

partial_function (option) eio_finish :: "callbacks \<Rightarrow> addr \<Rightarrow> etp \<Rightarrow> (int \<times> etp) option" where
  "eio_finish cb req s = do {
     (res, s) \<leftarrow> EIO_FINISH cb req s;
     r \<leftarrow> reqs s req;
     (case grp r of
        None \<Rightarrow> do { s \<leftarrow> eio_destroy cb req s; Some (res, s) }
      | Some g \<Rightarrow> do {
          s \<leftarrow> grp_unlink req g s;
          s \<leftarrow> modify g (\<lambda>r. r\<lparr>req_size := req_size r - 1\<rparr>) s;
          s \<leftarrow> grp_try_feed cb g s;
          rg \<leftarrow> reqs s g;
          (if req_size rg = 0 \<and> int1 rg \<noteq> 0 then do {
             (res2, s) \<leftarrow> eio_finish cb g s;
             s \<leftarrow> eio_destroy cb req s;
             Some (if res = 0 \<and> res2 \<noteq> 0 then res2 else res, s) }
           else do {
             s \<leftarrow> eio_destroy cb req s;
             Some (res, s) }) }) }"

definition grp_dec :: "callbacks \<Rightarrow> addr \<Rightarrow> etp \<Rightarrow> (int \<times> etp) option" where
  "grp_dec cb g s = do {
     s \<leftarrow> modify g (\<lambda>r. r\<lparr>req_size := req_size r - 1\<rparr>) s;
     s \<leftarrow> grp_try_feed cb g s;
     rg \<leftarrow> reqs s g;
     (if req_size rg = 0 \<and> int1 rg \<noteq> 0 then eio_finish cb g s else Some (0, s)) }"

text \<open>\<open>eio_finish\<close> as the code composes it.\<close>

lemma eio_finish_unfold:
  "eio_finish cb req s = do {
     (res, s) \<leftarrow> EIO_FINISH cb req s;
     r \<leftarrow> reqs s req;
     (res, s) \<leftarrow> (case grp r of
        None \<Rightarrow> Some (res, s)
      | Some g \<Rightarrow> do {
          s \<leftarrow> grp_unlink req g s;
          (res2, s) \<leftarrow> grp_dec cb g s;
          Some (if res = 0 \<and> res2 \<noteq> 0 then res2 else res, s) });
     s \<leftarrow> eio_destroy cb req s;
     Some (res, s) }"
  by (subst eio_finish.simps)
    (auto simp: grp_dec_def split_beta intro!: Option.bind_cong split: option.split)

section \<open>Cancelling\<close>

text \<open>
  \<open>cancel_from p s\<close>: cancelling the request at \<open>p\<close>, everything below it and everything behind it
  in its group. The successor is read after the request has been dealt with.
\<close>

partial_function (option) cancel_from :: "ptr \<Rightarrow> etp \<Rightarrow> etp option" where
  "cancel_from p s =
     (case p of
        None \<Rightarrow> Some s
      | Some a \<Rightarrow> do {
          s \<leftarrow> modify a (\<lambda>r. r\<lparr>flags := flags r OR EIO_FLAG_CANCELLED\<rparr>) s;
          r \<leftarrow> reqs s a;
          s \<leftarrow> cancel_from (grp_first r) s;
          r \<leftarrow> reqs s a;
          cancel_from (grp_next r) s })"

definition eio_grp_cancel :: "addr \<Rightarrow> etp \<Rightarrow> etp option" where
  "eio_grp_cancel g s = do {
     r \<leftarrow> reqs s g;
     cancel_from (grp_first r) s }"

definition etp_cancel :: "addr \<Rightarrow> etp \<Rightarrow> etp option" where
  "etp_cancel req s = do {
     s \<leftarrow> modify req (\<lambda>r. r\<lparr>flags := flags r OR EIO_FLAG_CANCELLED\<rparr>) s;
     eio_grp_cancel req s }"

definition eio_cancel :: "addr \<Rightarrow> etp \<Rightarrow> etp option" where
  "eio_cancel req = etp_cancel req"

text \<open>The loop of \<open>eio_grp_cancel\<close> as the code has it: \<open>eio_cancel\<close> on each member.\<close>

lemma cancel_from_loop:
  "cancel_from (Some a) s = do {
     s \<leftarrow> eio_cancel a s;
     r \<leftarrow> reqs s a;
     cancel_from (grp_next r) s }"
  by (subst cancel_from.simps) (simp add: eio_cancel_def etp_cancel_def eio_grp_cancel_def)

end
