(* ===== verification/Group_Correct.thy ===== *)
theory Group_Correct
  imports Eio_Group
begin

text \<open>
  What the group functions of \<open>src/libeio/eio.c\<close> maintain: the members of a group are a doubly
  linked list through \<open>grp_prev\<close> and \<open>grp_next\<close> that starts at \<open>grp_first\<close>, newest first, and
  \<open>size\<close> counts them; cancelling reaches every request below and nothing else; a delayed group is
  finished together with its last member.
\<close>

section \<open>The members of a group\<close>

definition first_or :: "addr list \<Rightarrow> ptr \<Rightarrow> ptr" where
  "first_or xs n = (case xs of [] \<Rightarrow> n | x # _ \<Rightarrow> Some x)"

definition last_or :: "ptr \<Rightarrow> addr list \<Rightarrow> ptr" where
  "last_or p xs = (if xs = [] then p else Some (last xs))"

lemma first_or_simps [simp]:
  "first_or [] n = n" "first_or (x # xs) n = Some x" "first_or (xs @ ys) n = first_or xs (first_or ys n)"
  by (simp_all add: first_or_def split: list.split)

lemma last_or_simps [simp]:
  "last_or p [] = p" "last_or p (xs @ [x]) = Some x" "last_or p (x # xs) = last_or (Some x) xs"
  by (simp_all add: last_or_def)

text \<open>A segment of members of \<open>g\<close>, with the pointers before and behind it.\<close>

fun gseg :: "heap \<Rightarrow> addr \<Rightarrow> ptr \<Rightarrow> addr list \<Rightarrow> ptr \<Rightarrow> bool" where
  "gseg h g p [] n \<longleftrightarrow> True"
| "gseg h g p (x # xs) n \<longleftrightarrow>
     (\<exists>r. h x = Some r \<and> grp r = Some g \<and> grp_prev r = p \<and> grp_next r = first_or xs n) \<and>
     gseg h g (Some x) xs n"

lemma gseg_append: "gseg h g p (xs @ ys) n \<longleftrightarrow> gseg h g p xs (first_or ys n) \<and> gseg h g (last_or p xs) ys n"
  by (induction xs arbitrary: p) auto

lemma gseg_upd_other [simp]: "a \<notin> set xs \<Longrightarrow> gseg (h(a := v)) g p xs n = gseg h g p xs n"
  by (induction xs arbitrary: p) auto

text \<open>\<open>group_ok h g xs\<close>: \<open>g\<close> is a group of the members \<open>xs\<close>.\<close>

definition group_ok :: "heap \<Rightarrow> addr \<Rightarrow> addr list \<Rightarrow> bool" where
  "group_ok h g xs \<longleftrightarrow>
     distinct (g # xs) \<and> gseg h g None xs None \<and>
     (\<exists>rg. h g = Some rg \<and> grp_first rg = first_or xs None \<and> req_size rg = word_of_nat (length xs))"

lemma modify_ok [simp]: "reqs s a = Some r \<Longrightarrow> modify a f s = Some (s\<lparr>reqs := (reqs s)(a \<mapsto> f r)\<rparr>)"
  by (simp add: modify_def)

lemma modify_ptr_None [simp]: "modify_ptr None f s = Some s"
  by (simp add: modify_ptr_def)

lemma modify_ptr_Some [simp]: "modify_ptr (Some a) f s = modify a f s"
  by (simp add: modify_ptr_def)

lemma group_ok_member:
  assumes "group_ok h g xs" and "x \<in> set xs"
  obtains r ys zs where "xs = ys @ x # zs" "h x = Some r" "grp r = Some g"
    "grp_prev r = last_or None ys" "grp_next r = first_or zs None"
proof -
  from assms(2) obtain ys zs where "xs = ys @ x # zs" by (meson split_list)
  with assms(1) that show thesis by (auto simp: group_ok_def gseg_append)
qed

lemma grp_add_ok:
  assumes g: "group_ok (reqs s) g xs" and r: "reqs s req = Some r" and fresh: "req \<notin> set (g # xs)"
    and rg: "reqs s g = Some rg" "int1 rg \<noteq> 2"
  shows "\<exists>s' r' rg'. eio_grp_add g req s = Some s' \<and> group_ok (reqs s') g (req # xs) \<and>
    reqs s' req = Some r' \<and> r' = r\<lparr>grp := Some g, grp_prev := None, grp_next := grp_next r'\<rparr> \<and>
    reqs s' g = Some rg' \<and> rg' = rg\<lparr>flags := flags rg OR EIO_FLAG_GROUPADD, req_size := req_size rg + 1, grp_first := Some req\<rparr> \<and>
    (\<forall>a. a \<notin> set (g # req # xs) \<longrightarrow> reqs s' a = reqs s a)"
proof (cases xs)
  case Nil
  with assms show ?thesis by (auto simp: eio_grp_add_def group_ok_def)
next
  case (Cons x ys)
  with g obtain rx where "reqs s x = Some rx" by (auto simp: group_ok_def)
  with Cons assms show ?thesis by (auto simp: eio_grp_add_def group_ok_def)
qed

text \<open>Unlinking a member: the group with one member less, whose \<open>size\<close> is not yet lowered.\<close>

definition links_kept :: "eio_req \<Rightarrow> eio_req \<Rightarrow> bool" where
  "links_kept r r' \<longleftrightarrow>
     r'\<lparr>grp_prev := None, grp_next := None, grp_first := None\<rparr> =
     r\<lparr>grp_prev := None, grp_next := None, grp_first := None\<rparr>"

lemma links_kept_simps [simp]:
  "links_kept r r" "links_kept r (r\<lparr>grp_prev := p\<rparr>)" "links_kept r (r\<lparr>grp_next := p\<rparr>)"
  "links_kept r (r\<lparr>grp_first := p\<rparr>)" "links_kept r (r\<lparr>grp_prev := p, grp_next := n\<rparr>)"
  by (simp_all add: links_kept_def)

lemma gseg_remove:
  assumes seg: "gseg h g None (ys @ x # zs) None" and dist: "distinct (g # ys @ x # zs)"
    and r: "h x = Some r" and rg: "h g = Some rg" "grp_first rg = first_or (ys @ x # zs) None"
    and s: "reqs s = h"
  shows "\<exists>h'. grp_unlink x g s = Some (s\<lparr>reqs := h'\<rparr>) \<and> gseg h' g None (ys @ zs) None \<and>
    h' x = Some r \<and> h' g = Some (rg\<lparr>grp_first := first_or (ys @ zs) None\<rparr>) \<and>
    (\<forall>a. a \<notin> set (g # ys @ x # zs) \<longrightarrow> h' a = h a) \<and>
    (\<forall>a. rel_option links_kept (h a) (h' a))"
proof (cases ys rule: rev_cases)
  case Nil
  show ?thesis
  proof (cases zs)
    case Nil
    with \<open>ys = []\<close> assms show ?thesis
      by (intro exI [of _ "h(g \<mapsto> rg\<lparr>grp_first := None\<rparr>)"])
        (auto simp: grp_unlink_def option.rel_refl)
  next
    case (Cons n ws)
    with \<open>ys = []\<close> seg obtain rn where rn: "h n = Some rn" by auto
    with Cons \<open>ys = []\<close> assms show ?thesis
      by (intro exI [of _ "h(n \<mapsto> rn\<lparr>grp_prev := None\<rparr>, g \<mapsto> rg\<lparr>grp_first := Some n\<rparr>)"])
        (auto simp: grp_unlink_def option.rel_refl)
  qed
next
  case (snoc vs p)
  with seg obtain rp where rp: "h p = Some rp" by (auto simp: gseg_append)
  have first: "first_or vs (Some p) \<noteq> Some x" using dist snoc by (cases vs) auto
  show ?thesis
  proof (cases zs)
    case Nil
    with snoc rp first assms show ?thesis
      by (intro exI [of _ "h(p \<mapsto> rp\<lparr>grp_next := None\<rparr>)"])
        (auto simp: grp_unlink_def gseg_append option.rel_refl intro!: eio_req.equality)
  next
    case (Cons n ws)
    with snoc seg obtain rn where rn: "h n = Some rn" by (auto simp: gseg_append)
    with Cons snoc rp first assms show ?thesis
      by (intro exI [of _ "h(n \<mapsto> rn\<lparr>grp_prev := Some p\<rparr>, p \<mapsto> rp\<lparr>grp_next := Some n\<rparr>)"])
        (auto simp: grp_unlink_def gseg_append option.rel_refl intro!: eio_req.equality)
  qed
qed

lemma group_length:
  fixes g :: addr
  assumes "distinct (g # xs)"
  shows "length xs < 2 ^ 64"
proof -
  have "card (set (g # xs)) \<le> card (UNIV :: addr set)" by (rule card_mono) simp_all
  moreover have "card (set (g # xs)) = Suc (length xs)" using assms by (metis distinct_card length_Cons)
  ultimately show ?thesis by (simp add: card_word)
qed

lemma size_minus_one:
  assumes "xs \<noteq> []" and "length xs < 2 ^ 64"
  shows "word_of_nat (length xs) - 1 = (word_of_nat (length xs - 1) :: 64 word)"
    and "(word_of_nat (length xs - 1) :: 64 word) = 0 \<longleftrightarrow> length xs = 1"
proof -
  show "word_of_nat (length xs) - 1 = (word_of_nat (length xs - 1) :: 64 word)"
    using assms(1) by (cases xs) simp_all
  have "unat (word_of_nat (length xs - 1) :: 64 word) = length xs - 1"
    using assms(2) by (simp add: unat_of_nat)
  then have "(word_of_nat (length xs - 1) :: 64 word) = 0 \<longleftrightarrow> length xs - 1 = 0"
    by (metis unat_eq_zero)
  then show "(word_of_nat (length xs - 1) :: 64 word) = 0 \<longleftrightarrow> length xs = 1"
    using assms(1) by (cases xs) simp_all
qed

section \<open>Finishing members\<close>

text \<open>
  Callbacks of a client that only looks: \<open>finish\<close> returns a value and \<open>destroy\<close> is
  \<open>eio_api_destroy\<close>.
\<close>

definition onlooker :: "(64 word \<Rightarrow> addr \<Rightarrow> int) \<Rightarrow> callbacks \<Rightarrow> bool" where
  "onlooker res cb \<longleftrightarrow>
     cb_finish cb = (\<lambda>f a s. Some (res f a, s)) \<and> cb_destroy cb = (\<lambda>f. eio_api_destroy)"

text \<open>A group with no limit on its members, in no group itself, ready to be finished with them.\<close>

definition group_ready :: "heap \<Rightarrow> addr \<Rightarrow> addr list \<Rightarrow> bool" where
  "group_ready h g xs \<longleftrightarrow> group_ok h g xs \<and>
     (\<exists>rg. h g = Some rg \<and> int2 rg = 0 \<and> int1 rg \<noteq> 0 \<and> grp rg = None \<and> destroy rg \<noteq> None) \<and>
     (\<forall>x \<in> set xs. \<exists>r. h x = Some r \<and> destroy r \<noteq> None)"

lemma try_feed_no_limit:
  assumes "reqs s g = Some rg" and "int2 rg = 0"
  shows "grp_try_feed cb g s = Some s"
  using assms by (subst grp_try_feed.simps) (simp add: below_limit_def)

lemma EIO_FINISH_onlooker:
  assumes "onlooker res cb" and "reqs s a = Some r"
  shows "\<exists>v. EIO_FINISH cb a s = Some (v, s)"
  using assms by (auto simp: EIO_FINISH_def onlooker_def split: option.split)

lemma eio_destroy_onlooker:
  assumes "onlooker res cb" and "reqs s a = Some r" and "destroy r \<noteq> None"
  shows "\<exists>tr. eio_destroy cb a s = Some (s\<lparr>reqs := (reqs s)(a := None), trace := tr\<rparr>)"
  using assms
  by (auto simp: eio_destroy_def EIO_DESTROY_def onlooker_def eio_api_destroy_def free_buf_def
      trace_if_def Let_def)

lemma finish_single:
  assumes "onlooker res cb" and "reqs s a = Some r" and "grp r = None" and "destroy r \<noteq> None"
  shows "\<exists>v tr. eio_finish cb a s = Some (v, s\<lparr>reqs := (reqs s)(a := None), trace := tr\<rparr>)"
proof -
  from EIO_FINISH_onlooker [OF assms(1,2)] obtain v where "EIO_FINISH cb a s = Some (v, s)" by blast
  with eio_destroy_onlooker [OF assms(1,2,4)] assms(2,3) show ?thesis
    by (auto simp: eio_finish_unfold [of cb a])
qed

lemma links_keptD:
  "links_kept r r' \<Longrightarrow> destroy r' = destroy r \<and> finish r' = finish r \<and> grp r' = grp r \<and>
    int1 r' = int1 r \<and> int2 r' = int2 r \<and> req_size r' = req_size r"
  by (cases r, cases r') (simp add: links_kept_def)

lemma group_ready_rest:
  assumes ready: "group_ready h0 g xs" and sub: "set ys \<subseteq> set xs" and dist: "distinct (g # x # ys)"
    and kept: "\<forall>a. a \<noteq> g \<longrightarrow> rel_option links_kept (h0 a) (h a)"
    and seg: "gseg h g None ys None" and g: "h g = Some rg" "int1 rg \<noteq> 0" "int2 rg = 0" "grp rg = None"
      "destroy rg \<noteq> None" "grp_first rg = first_or ys None" "req_size rg = word_of_nat (length ys)"
  shows "group_ready (h(x := None)) g ys"
proof -
  have "\<exists>r'. h a = Some r' \<and> destroy r' \<noteq> None" if a: "a \<in> set ys" for a
  proof -
    have "a \<in> set xs" "a \<noteq> g" using a sub dist by auto
    then obtain ra where "h0 a = Some ra" "destroy ra \<noteq> None" using ready by (auto simp: group_ready_def)
    with kept [rule_format, OF \<open>a \<noteq> g\<close>] show ?thesis by (auto simp: option_rel_Some1 dest: links_keptD)
  qed
  then show ?thesis using seg dist g by (auto simp: group_ready_def group_ok_def)
qed

lemma finish_member:
  assumes cb: "onlooker res cb" and ready: "group_ready (reqs s) g xs" and x: "x \<in> set xs"
  shows "\<exists>v s'. eio_finish cb x s = Some (v, s') \<and> reqs s' x = None \<and>
    (if xs = [x] then reqs s' g = None else group_ready (reqs s') g (remove1 x xs))"
proof -
  have ok: "group_ok (reqs s) g xs" using ready by (simp add: group_ready_def)
  from ready obtain rg where rg: "reqs s g = Some rg" "int2 rg = 0" "int1 rg \<noteq> 0" "grp rg = None" "destroy rg \<noteq> None"
    by (auto simp: group_ready_def)
  from group_ok_member [OF ok x] obtain r ys zs where xs: "xs = ys @ x # zs" and r: "reqs s x = Some r" "grp r = Some g"
    by metis
  have d: "destroy r \<noteq> None" using ready x r(1) by (auto simp: group_ready_def)
  have dist: "distinct (g # ys @ x # zs)" and seg: "gseg (reqs s) g None (ys @ x # zs) None"
    and first: "grp_first rg = first_or (ys @ x # zs) None" "req_size rg = word_of_nat (length xs)"
    using ok rg(1) xs by (auto simp: group_ok_def)
  from gseg_remove [OF seg dist r(1) rg(1) first(1) refl] obtain h where
    h: "grp_unlink x g s = Some (s\<lparr>reqs := h\<rparr>)" "gseg h g None (ys @ zs) None" "h x = Some r"
      "h g = Some (rg\<lparr>grp_first := first_or (ys @ zs) None\<rparr>)" "\<forall>a. rel_option links_kept (reqs s a) (h a)"
    by blast
  let ?rg = "rg\<lparr>grp_first := first_or (ys @ zs) None, req_size := req_size rg - 1\<rparr>"
  let ?h = "h(g \<mapsto> ?rg)"
  have len: "length xs < 2 ^ 64" using group_length dist xs by (metis distinct.simps(2) group_ok_def ok)
  have size: "req_size rg - 1 = word_of_nat (length (ys @ zs))"
    using size_minus_one(1) [OF _ len] first(2) xs by simp
  have zero: "req_size ?rg = 0 \<longleftrightarrow> xs = [x]"
  proof -
    have "xs \<noteq> []" using x by auto
    from size_minus_one [OF this len] first(2)
    have "req_size rg - 1 = 0 \<longleftrightarrow> length xs = 1" by simp
    moreover have "length xs = 1 \<longleftrightarrow> xs = [x]" using x by (auto simp: length_Suc_conv)
    ultimately show ?thesis by simp
  qed
  from EIO_FINISH_onlooker [OF cb r(1)] obtain v where v: "EIO_FINISH cb x s = Some (v, s)" by blast
  have dec: "grp_dec cb g (s\<lparr>reqs := h\<rparr>) =
      (if xs = [x] then eio_finish cb g (s\<lparr>reqs := ?h\<rparr>) else Some (0, s\<lparr>reqs := ?h\<rparr>))"
    using h(4) rg zero try_feed_no_limit [of "s\<lparr>reqs := ?h\<rparr>" g ?rg cb]
    by (simp add: grp_dec_def)
  have xg: "x \<noteq> g" using dist by auto
  show ?thesis
  proof (cases "xs = [x]")
    case True
    from finish_single [OF cb, of "s\<lparr>reqs := ?h\<rparr>" g ?rg] rg obtain w tr where
      w: "eio_finish cb g (s\<lparr>reqs := ?h\<rparr>) = Some (w, s\<lparr>reqs := ?h(g := None), trace := tr\<rparr>)" by auto
    have "(?h(g := None)) x = Some r" using h(3) xg by simp
    with eio_destroy_onlooker [OF cb, of "s\<lparr>reqs := ?h(g := None), trace := tr\<rparr>" x r] d obtain tr' where
      "eio_destroy cb x (s\<lparr>reqs := ?h(g := None), trace := tr\<rparr>) =
        Some (s\<lparr>reqs := (?h(g := None))(x := None), trace := tr'\<rparr>)" by auto
    with v r h(1) dec w True show ?thesis by (auto simp: eio_finish_unfold [of cb x])
  next
    case False
    have "?h x = Some r" using h(3) xg by simp
    with eio_destroy_onlooker [OF cb, of "s\<lparr>reqs := ?h\<rparr>" x r] d obtain tr where
      tr: "eio_destroy cb x (s\<lparr>reqs := ?h\<rparr>) = Some (s\<lparr>reqs := ?h(x := None), trace := tr\<rparr>)" by auto
    have rem: "remove1 x xs = ys @ zs" using xs dist by (simp add: remove1_append)
    have "group_ready (?h(x := None)) g (ys @ zs)"
      by (rule group_ready_rest [OF ready, where rg = ?rg]) (use xs h dist rg size in auto)
    with v r h(1) dec tr False rem show ?thesis by (auto simp: eio_finish_unfold [of cb x])
  qed
qed

text \<open>Finishing requests one after the other.\<close>

fun finish_all :: "callbacks \<Rightarrow> addr list \<Rightarrow> etp \<Rightarrow> etp option" where
  "finish_all cb [] s = Some s"
| "finish_all cb (x # xs) s = do { (v, s) \<leftarrow> eio_finish cb x s; finish_all cb xs s }"

lemma finish_some:
  assumes "onlooker res cb" and "group_ready (reqs s) g xs" and "distinct ys"
    and "set ys \<subset> set xs"
  shows "\<exists>s'. finish_all cb ys s = Some s' \<and>
    group_ready (reqs s') g (filter (\<lambda>x. x \<notin> set ys) xs)"
  using assms(2-4)
proof (induction ys arbitrary: s xs)
  case Nil
  then show ?case by simp
next
  case (Cons y ys)
  have y: "y \<in> set xs" and dist: "distinct xs"
    using Cons.prems by (auto simp: group_ready_def group_ok_def)
  have "xs \<noteq> [y]" using Cons.prems(2,3) by auto
  with finish_member [OF assms(1) Cons.prems(1) y] obtain v t where
    t: "eio_finish cb y s = Some (v, t)" "group_ready (reqs t) g (remove1 y xs)" by auto
  have rem: "remove1 y xs = filter (\<lambda>x. x \<noteq> y) xs"
    using dist by (simp add: distinct_remove1_removeAll removeAll_filter_not_eq eq_commute)
  have "set ys \<subset> set (remove1 y xs)" using Cons.prems(2,3) dist by auto
  with Cons.IH [OF t(2)] Cons.prems(2) obtain u where
    u: "finish_all cb ys t = Some u"
      "group_ready (reqs u) g (filter (\<lambda>x. x \<notin> set ys) (remove1 y xs))" by auto
  have "filter (\<lambda>x. x \<notin> set ys) (remove1 y xs) = filter (\<lambda>x. x \<notin> set (y # ys)) xs"
    unfolding rem filter_filter by (rule filter_cong) auto
  with t(1) u show ?case by simp
qed

lemma distinct_set_single: "distinct l \<Longrightarrow> set l = {y} \<Longrightarrow> l = [y]"
proof (cases l)
  case (Cons z zs)
  moreover assume "distinct l" "set l = {y}"
  ultimately show ?thesis by (cases zs) auto
qed simp

section \<open>Cancelling\<close>

text \<open>Nested groups: a request with the requests of its group.\<close>

datatype rtree = Node addr "rtree list"

fun forest :: "heap \<Rightarrow> ptr \<Rightarrow> rtree list \<Rightarrow> bool" where
  "forest h p [] \<longleftrightarrow> p = None"
| "forest h p (Node a us # ts) \<longleftrightarrow>
     p = Some a \<and> (\<exists>r. h a = Some r \<and> forest h (grp_first r) us \<and> forest h (grp_next r) ts)"

fun addrs :: "rtree list \<Rightarrow> addr set" where
  "addrs [] = {}"
| "addrs (Node a us # ts) = insert a (addrs us \<union> addrs ts)"

text \<open>The heap with the requests of \<open>A\<close> cancelled.\<close>

definition mark_cancelled :: "addr set \<Rightarrow> heap \<Rightarrow> heap" where
  "mark_cancelled A h =
     (\<lambda>a. if a \<in> A then map_option (\<lambda>r. r\<lparr>flags := flags r OR EIO_FLAG_CANCELLED\<rparr>) (h a) else h a)"

lemma mark_cancelled_mark [simp]:
  "mark_cancelled A (mark_cancelled B h) = mark_cancelled (A \<union> B) h"
  by (rule ext) (auto simp: mark_cancelled_def option.map_comp comp_def or.assoc intro!: map_option_cong)

lemma mark_cancelled_empty [simp]: "mark_cancelled {} h = h"
  by (simp add: mark_cancelled_def)

lemma mark_cancelled_Some:
  "h a = Some r \<Longrightarrow> \<exists>r'. mark_cancelled A h a = Some r' \<and> grp_first r' = grp_first r \<and> grp_next r' = grp_next r"
  by (auto simp: mark_cancelled_def)

lemma forest_mark [simp]: "forest (mark_cancelled A h) p ts = forest h p ts"
proof (induction h p ts rule: forest.induct)
  case (2 h p a us ts)
  show ?case
  proof (cases "h a")
    case None
    then show ?thesis by (simp add: mark_cancelled_def)
  next
    case (Some r)
    from mark_cancelled_Some [where h = h, OF this, of A] obtain r' where
      "mark_cancelled A h a = Some r'" "grp_first r' = grp_first r" "grp_next r' = grp_next r" by blast
    with Some 2 [of r] show ?thesis by simp
  qed
qed simp

lemma cancel_forest:
  "forest (reqs s) p ts \<Longrightarrow> cancel_from p s = Some (s\<lparr>reqs := mark_cancelled (addrs ts) (reqs s)\<rparr>)"
proof (induction ts arbitrary: p s rule: addrs.induct)
  case 1
  then show ?case by (subst cancel_from.simps) simp
next
  case (2 a us ts)
  then obtain r where r: "p = Some a" "reqs s a = Some r"
    "forest (reqs s) (grp_first r) us" "forest (reqs s) (grp_next r) ts" by auto
  let ?h = "mark_cancelled {a} (reqs s)"
  have h: "(reqs s)(a \<mapsto> r\<lparr>flags := flags r OR EIO_FLAG_CANCELLED\<rparr>) = ?h"
    using r(2) by (auto simp: mark_cancelled_def)
  have "cancel_from (grp_first r) (s\<lparr>reqs := ?h\<rparr>) =
      Some (s\<lparr>reqs := mark_cancelled (addrs us) ?h\<rparr>)"
    using "2.IH"(1) [of "s\<lparr>reqs := ?h\<rparr>" "grp_first r"] r(3) by simp
  moreover obtain r' where r': "mark_cancelled (addrs us) ?h a = Some r'" "grp_next r' = grp_next r"
    using mark_cancelled_Some [where h = "reqs s", OF r(2), of "addrs us \<union> {a}"] by auto
  moreover have "cancel_from (grp_next r) (s\<lparr>reqs := mark_cancelled (addrs us) ?h\<rparr>) =
      Some (s\<lparr>reqs := mark_cancelled (addrs ts) (mark_cancelled (addrs us) ?h)\<rparr>)"
    using "2.IH"(2) [of "s\<lparr>reqs := mark_cancelled (addrs us) ?h\<rparr>" "grp_next r"] r(4) by simp
  moreover have "?h a = Some (r\<lparr>flags := flags r OR EIO_FLAG_CANCELLED\<rparr>)"
    using r(2) by (simp add: mark_cancelled_def)
  moreover have "addrs ts \<union> (addrs us \<union> {a}) = insert a (addrs us \<union> addrs ts)" by auto
  ultimately show ?case
    using r(1,2) h by (subst cancel_from.simps) simp
qed

section \<open>Properties\<close>

text \<open>C23: adding a request to a group that is not one of its members leaves a well-formed group: the
  new member first in a doubly linked list, \<open>size\<close> one higher, the \<open>GROUPADD\<close> flag set, and no
  other request but the former first member changed.\<close>

theorem grp_add_member:
  assumes "group_ok (reqs s) g xs" and "reqs s req = Some r" and "req \<notin> set (g # xs)"
    and "reqs s g = Some rg" and "int1 rg \<noteq> 2"
  shows "\<exists>s' rg'. eio_grp_add g req s = Some s' \<and> group_ok (reqs s') g (req # xs) \<and>
    reqs s' g = Some rg' \<and> req_size rg' = req_size rg + 1 \<and> flags rg' AND EIO_FLAG_GROUPADD \<noteq> 0 \<and>
    (\<forall>a. a \<notin> set (g # req # xs) \<longrightarrow> reqs s' a = reqs s a)"
proof -
  have "(w OR EIO_FLAG_GROUPADD) AND EIO_FLAG_GROUPADD \<noteq> 0" for w
    by (simp add: EIO_FLAG_GROUPADD_def bit.conj_disj_distrib2 or_eq_0_iff)
  with grp_add_ok [OF assms] show ?thesis by fastforce
qed

text \<open>C22: \<open>eio_cancel\<close> returns on every finite tree of nested groups, sets the cancel flag of the
  request and of every request in the groups below it, and changes nothing else.\<close>

theorem cancel_reaches_all:
  assumes "reqs s a = Some r" and "forest (reqs s) (grp_first r) ts"
  shows "eio_cancel a s = Some (s\<lparr>reqs := mark_cancelled (insert a (addrs ts)) (reqs s)\<rparr>)"
proof -
  let ?h = "mark_cancelled {a} (reqs s)"
  have h: "(reqs s)(a \<mapsto> r\<lparr>flags := flags r OR EIO_FLAG_CANCELLED\<rparr>) = ?h"
    using assms(1) by (auto simp: mark_cancelled_def)
  have "?h a = Some (r\<lparr>flags := flags r OR EIO_FLAG_CANCELLED\<rparr>)"
    using assms(1) by (simp add: mark_cancelled_def)
  with cancel_forest [of "s\<lparr>reqs := ?h\<rparr>" "grp_first r" ts] assms h show ?thesis
    by (simp add: eio_cancel_def etp_cancel_def eio_grp_cancel_def)
qed


section \<open>A group of two requests\<close>

definition pair_heap :: heap where
  "pair_heap =
    [16 \<mapsto> zero_req\<lparr>req_type := type_code EIO_GROUP, int1 := 1, req_size := 2, destroy := Some 1,
              grp_first := Some 48\<rparr>,
     48 \<mapsto> zero_req\<lparr>req_type := type_code EIO_NOP, destroy := Some 1, grp := Some 16,
              grp_next := Some 32\<rparr>,
     32 \<mapsto> zero_req\<lparr>req_type := type_code EIO_NOP, destroy := Some 1, grp := Some 16,
              grp_prev := Some 48\<rparr>,
     64 \<mapsto> zero_req\<lparr>req_type := type_code EIO_NOP, destroy := Some 1\<rparr>]"

definition pair_cb :: callbacks where
  "pair_cb = \<lparr>cb_finish = (\<lambda>f a s. Some (0, s)), cb_destroy = (\<lambda>f. eio_api_destroy),
     cb_feed = (\<lambda>f a s. Some s)\<rparr>"

lemma pair_facts:
  "group_ready (reqs (etp_start pair_heap)) 16 [48, 32]" "onlooker (\<lambda>f a. 0) pair_cb"
  by (simp_all add: group_ready_def group_ok_def onlooker_def pair_cb_def etp_start_def pair_heap_def
      zero_req_def)

theorem grp_add_member_witness:
  "\<exists>s' rg'. eio_grp_add 16 64 (etp_start pair_heap) = Some s' \<and> group_ok (reqs s') 16 [64, 48, 32] \<and>
    reqs s' 16 = Some rg' \<and> req_size rg' = 3 \<and> flags rg' AND EIO_FLAG_GROUPADD \<noteq> 0"
proof -
  let ?s = "etp_start pair_heap"
  have ok: "group_ok (reqs ?s) 16 [48, 32]" using pair_facts(1) by (simp add: group_ready_def)
  obtain r where r: "reqs ?s 64 = Some r" by (simp add: etp_start_def pair_heap_def)
  obtain rg where rg: "reqs ?s 16 = Some rg" "int1 rg = 1" "req_size rg = 2"
    by (simp add: etp_start_def pair_heap_def)
  from grp_add_member [OF ok r _ rg(1)] rg(2,3) show ?thesis by auto
qed

theorem cancel_reaches_all_witness:
  "eio_cancel 16 (etp_start pair_heap) =
    Some ((etp_start pair_heap)\<lparr>reqs := mark_cancelled {16, 48, 32} pair_heap\<rparr>)"
proof -
  let ?s = "etp_start pair_heap"
  obtain r where r: "reqs ?s 16 = Some r" "grp_first r = Some 48"
    by (simp add: etp_start_def pair_heap_def)
  have "forest (reqs ?s) (grp_first r) [Node 48 [], Node 32 []]"
    using r(2) by (simp add: etp_start_def pair_heap_def zero_req_def)
  from cancel_reaches_all [OF r(1) this] show ?thesis by (simp add: etp_start_def)
qed


end
