(* ===== verification/Etp_Poll.thy ===== *)
theory Etp_Poll
  imports Group_Correct Etp_Inv
begin

text \<open>
  \<open>etp_poll\<close> of \<open>src/libeio/eio.c\<close>: the loop that takes results from the result queue and finishes
  them. What \<open>calloc\<close>, \<open>thread_create\<close> and \<open>gettimeofday\<close> answer in the \<open>n\<close>-th round is a parameter.
  The function is the polling thread alone; its sections interleave with the workers in
  \<open>Etp_Proc\<close>.
\<close>

section \<open>The loop\<close>

text \<open>\<open>EIO_TICKS\<close> and \<open>tvdiff\<close>: the difference, in about 1/1024 of a second, as the \<open>int\<close> it is
  truncated to, read as \<open>unsigned\<close> by its only use.\<close>

definition EIO_TICKS :: int where "EIO_TICKS = drop_bit 10 (1000000 + 1023)"

definition tvdiff :: "int \<times> int \<Rightarrow> int \<times> int \<Rightarrow> 32 word" where
  "tvdiff tv1 tv2 =
     word_of_int ((fst tv2 - fst tv1) * EIO_TICKS + drop_bit 10 (snd tv2 - snd tv1))"

definition EAGAIN :: int where "EAGAIN = 11"

record poll_env =
  po_mem :: "nat \<Rightarrow> ptr"
  po_created :: "nat \<Rightarrow> bool"
  po_clock :: "nat \<Rightarrow> int \<times> int"

text \<open>The result is the value of \<open>etp_poll\<close> and the \<open>errno\<close> it sets, if it does.\<close>

partial_function (option) poll_loop ::
  "poll_env \<Rightarrow> callbacks \<Rightarrow> 32 word \<Rightarrow> 32 word \<Rightarrow> nat \<Rightarrow> etp \<Rightarrow> ((int \<times> int option) \<times> etp) option" where
  "poll_loop env cb maxreqs maxtime n s = do {
     s \<leftarrow> etp_maybe_start_thread (po_mem env n) (po_created env n) s;
     (req, s) \<leftarrow> take_result s;
     (case req of
        None \<Rightarrow> Some ((0, None), s)
      | Some a \<Rightarrow> do {
          (let s = s\<lparr>nreqs := nreqs s - 1\<rparr>
           in do {
             r \<leftarrow> reqs s a;
             (if req_type r = type_code EIO_GROUP \<and> req_size r \<noteq> 0 then do {
                s \<leftarrow> modify a (\<lambda>r. r\<lparr>int1 := 1\<rparr>) s;
                poll_loop env cb maxreqs maxtime (Suc n) s }
              else do {
                (res, s) \<leftarrow> eio_finish cb a s;
                (if res \<noteq> 0 then Some ((res, None), s)
                 else if maxreqs \<noteq> 0 \<and> maxreqs - 1 = 0 then Some ((- 1, Some EAGAIN), s)
                 else if maxtime \<noteq> 0 \<and> tvdiff (po_clock env 0) (po_clock env (Suc n)) \<ge> maxtime
                 then Some ((- 1, Some EAGAIN), s)
                 else poll_loop env cb (if maxreqs \<noteq> 0 then maxreqs - 1 else maxreqs) maxtime (Suc n) s) }) }) }) }"

definition etp_poll :: "poll_env \<Rightarrow> callbacks \<Rightarrow> etp \<Rightarrow> ((int \<times> int option) \<times> etp) option" where
  "etp_poll env cb s = poll_loop env cb (max_poll_reqs s) (max_poll_time s) 0 s"

section \<open>What a result says\<close>

lemma take_result_empty:
  assumes "take_result s = Some (None, s')"
  shows "qsize (res_queue s') = 0"
proof -
  have scan: "reqq_scan n q h \<noteq> Some (None, q')" for n q h q'
    by (induction n) (auto simp: Let_def split: option.splits bind_splits)
  from assms have "reqq_shift (res_queue s) (reqs s) = Some (None, res_queue s')"
    by (auto simp: take_result_def shift_res_def split: bind_splits option.splits)
  then show ?thesis
    using scan by (auto simp: reqq_shift_def split: if_splits bind_splits)
qed

lemma poll_loop_result:
  assumes "poll_loop env cb maxreqs maxtime n s = Some (out, s')"
  shows "(fst out = 0 \<longrightarrow> snd out = None \<and> qsize (res_queue s') = 0) \<and>
    (snd out \<noteq> None \<longrightarrow> out = (- 1, Some EAGAIN) \<and> (maxreqs \<noteq> 0 \<or> maxtime \<noteq> 0))"
proof -
  let ?P = "\<lambda>out s' maxreqs maxtime. (fst out = 0 \<longrightarrow> snd out = None \<and> qsize (res_queue s') = 0) \<and>
    (snd out \<noteq> None \<longrightarrow> out = (- 1, Some EAGAIN) \<and> (maxreqs \<noteq> 0 \<or> maxtime \<noteq> 0))"
  have "?P (fst (out, s')) (snd (out, s')) maxreqs maxtime"
  proof (rule poll_loop.raw_induct [OF _ assms], goal_cases)
    case (1 loop env cb maxreqs maxtime n s y)
    from 1(2) show ?case
      by (auto simp: take_result_empty Let_def split: bind_splits option.splits if_splits dest!: 1(1))
  qed
  then show ?thesis by simp
qed

section \<open>Draining the result queue\<close>

text \<open>A finished request in no group, as \<open>eio_destroy\<close> frees it.\<close>

definition single :: "heap \<Rightarrow> addr \<Rightarrow> bool" where
  "single h a \<longleftrightarrow> (\<exists>r. h a = Some r \<and> grp r = None \<and> destroy r \<noteq> None \<and>
     \<not> (req_type r = type_code EIO_GROUP \<and> req_size r \<noteq> 0))"

definition is_free :: "event \<Rightarrow> bool" where
  "is_free e = (case e of Free_req a \<Rightarrow> True | _ \<Rightarrow> False)"

lemma finish_single_trace:
  assumes cb: "onlooker (\<lambda>f a. 0) cb" and a: "single (reqs s) a"
  shows "\<exists>tr. eio_finish cb a s = Some (0, s\<lparr>reqs := (reqs s)(a := None), trace := tr\<rparr>) \<and>
    quiet_ext (trace s) tr \<and> filter is_free tr = Free_req a # filter is_free (trace s)"
proof -
  from a obtain r where r: "reqs s a = Some r" "grp r = None" "destroy r \<noteq> None"
    by (auto simp: single_def)
  have "EIO_FINISH cb a s = Some (0, s)"
    using cb r(1) by (auto simp: EIO_FINISH_def onlooker_def split: option.split)
  with cb r show ?thesis
    by (auto simp: eio_finish_unfold [of cb a] eio_destroy_def EIO_DESTROY_def onlooker_def
        eio_api_destroy_def free_buf_def trace_if_def Let_def is_free_def
        intro!: quiet_ext_cons)
qed

text \<open>A request whose callback answers 0 and leaves the pool alone.\<close>

definition finishes :: "callbacks \<Rightarrow> heap \<Rightarrow> addr \<Rightarrow> bool" where
  "finishes cb h a \<longleftrightarrow> (\<exists>r. h a = Some r \<and> \<not> (req_type r = type_code EIO_GROUP \<and> req_size r \<noteq> 0) \<and>
     (\<forall>s. reqs s a = Some r \<longrightarrow>
        (\<exists>tr. eio_finish cb a s = Some (0, s\<lparr>reqs := (reqs s)(a := None), trace := tr\<rparr>) \<and>
           quiet_ext (trace s) tr \<and> filter is_free tr = Free_req a # filter is_free (trace s))))"

lemma finishesE:
  assumes "finishes cb (reqs s) a"
  obtains tr r where "eio_finish cb a s = Some (0, s\<lparr>reqs := (reqs s)(a := None), trace := tr\<rparr>)"
    "quiet_ext (trace s) tr" "filter is_free tr = Free_req a # filter is_free (trace s)" "reqs s a = Some r"
    "\<not> (req_type r = type_code EIO_GROUP \<and> req_size r \<noteq> 0)"
  using assms unfolding finishes_def by blast

lemma finishes_cong: "h' a = h a \<Longrightarrow> finishes cb h' a = finishes cb h a"
  by (simp add: finishes_def)

lemma onlooker_finishes: "onlooker (\<lambda>f a. 0) cb \<Longrightarrow> single h a \<Longrightarrow> finishes cb h a"
  unfolding finishes_def
  using finish_single_trace [of cb] by (fastforce simp: single_def)

text \<open>Shifting follows the order of the priorities and of arrival.\<close>

lemma shift_in_order:
  assumes rep: "reqq_rep h q rs" and room: "qsize q \<le> INT_MAX" and ord: "concat (rev rs) = a # as"
  shows "\<exists>q' rs'. reqq_shift q h = Some (Some a, q') \<and> reqq_rep h q' rs' \<and>
    concat (rev rs') = as \<and> qsize q' = qsize q - 1"
proof -
  have "concat rs \<noteq> []" using ord by (metis concat_eq_Nil_conv list.discI set_rev)
  with shift_queue [OF rep room] obtain b q' rs' where
    q: "reqq_shift q h = Some (Some b, q')" "fifo_take 9 rs = Some (b, rs')"
      "reqq_rep h q' rs'" "qsize q' = qsize q - 1" by blast
  from q(2) obtain p xs where p: "p < 9" "rs ! p = b # xs" "\<forall>k. p < k \<and> k < 9 \<longrightarrow> rs ! k = []"
    "rs' = rs[p := xs]" unfolding fifo_take_Some by blast
  with reqq_repD(3) [OF rep] concat_rev_update [of p rs b xs]
  have "concat (rev rs) = b # concat (rev rs')" by simp
  with ord q show ?thesis by auto
qed

lemma queue_order_distinct:
  assumes "reqq_rep h q rs"
  shows "distinct (concat (rev rs))"
proof -
  have "mset (concat (rev rs)) = mset (concat rs)"
    by (metis mset_concat mset_map mset_rev sum_mset_sum_list)
  with mset_eq_imp_distinct_iff show ?thesis using reqq_repD(5) [OF assms] by blast
qed

lemma take_result_queue:
  assumes "reqq_rep (reqs s) (res_queue s) rs" and "qsize (res_queue s) \<le> INT_MAX"
    and "concat (rev rs) = a # as"
  shows "\<exists>q rs' tr. take_result s = Some (Some a, s\<lparr>res_queue := q, npending := npending s - 1, trace := tr\<rparr>) \<and>
    reqq_rep (reqs s) q rs' \<and> concat (rev rs') = as \<and> qsize q = qsize (res_queue s) - 1 \<and>
    filter is_free tr = filter is_free (trace s)"
proof -
  from shift_in_order [OF assms] obtain q rs' where
    q: "reqq_shift (res_queue s) (reqs s) = Some (Some a, q)" "reqq_rep (reqs s) q rs'"
      "concat (rev rs') = as" "qsize q = qsize (res_queue s) - 1" by blast
  define t where "t = trace_if (qsize q = 0 \<and> done_poll_cb s \<noteq> None) Done_poll
      (s\<lparr>res_queue := q, npending := npending s - 1\<rparr>)"
  have "take_result s = Some (Some a, t)"
    using q(1) by (simp add: take_result_def shift_res_def t_def)
  moreover have "s\<lparr>res_queue := q, npending := npending s - 1, trace := trace t\<rparr> = t"
    by (rule etp.equality) (simp_all add: t_def trace_if_def)
  moreover have "filter is_free (trace t) = filter is_free (trace s)"
    by (simp add: t_def trace_if_def is_free_def)
  ultimately show ?thesis
    using q(2-4) by (intro exI [of _ q] exI [of _ rs'] exI [of _ "trace t"]) simp
qed

text \<open>One round of the loop that starts no thread and finishes a request in no group.\<close>

lemma poll_loop_round:
  assumes th: "wanted s \<le> started s" and rep: "reqq_rep (reqs s) (res_queue s) rs"
    and room: "qsize (res_queue s) \<le> INT_MAX" and xs: "concat (rev rs) = a # as" and fin: "finishes cb (reqs s) a"
  shows "\<exists>q rs' tr t. t = s\<lparr>res_queue := q, npending := npending s - 1, nreqs := nreqs s - 1,
      reqs := (reqs s)(a := None), trace := tr\<rparr> \<and>
    reqq_rep (reqs t) q rs' \<and> concat (rev rs') = as \<and> qsize q = qsize (res_queue s) - 1 \<and>
    filter is_free tr = Free_req a # filter is_free (trace s) \<and>
    poll_loop env cb maxreqs 0 n s =
      (if maxreqs \<noteq> 0 \<and> maxreqs - 1 = 0 then Some ((- 1, Some EAGAIN), t)
       else poll_loop env cb (if maxreqs \<noteq> 0 then maxreqs - 1 else maxreqs) 0 (Suc n) t)"
proof -
  from take_result_queue [OF rep room xs] obtain q rs' tr where
    t: "take_result s = Some (Some a, s\<lparr>res_queue := q, npending := npending s - 1, trace := tr\<rparr>)"
      "reqq_rep (reqs s) q rs'" "concat (rev rs') = as" "qsize q = qsize (res_queue s) - 1"
      "filter is_free tr = filter is_free (trace s)" by blast
  let ?s = "s\<lparr>res_queue := q, npending := npending s - 1, trace := tr, nreqs := nreqs s - 1\<rparr>"
  have "finishes cb (reqs ?s) a" using fin by simp
  then obtain tr' r where
    f: "eio_finish cb a ?s = Some (0, ?s\<lparr>reqs := (reqs s)(a := None), trace := tr'\<rparr>)"
      "filter is_free tr' = Free_req a # filter is_free (trace s)"
    and r: "reqs s a = Some r" "\<not> (req_type r = type_code EIO_GROUP \<and> req_size r \<noteq> 0)"
    by (rule finishesE) (simp add: t(5))
  let ?t = "?s\<lparr>reqs := (reqs s)(a := None), trace := tr'\<rparr>"
  have "set (concat rs') = set as" using arg_cong [OF t(3), of set] by simp
  then have a': "a \<notin> set (concat rs')" using queue_order_distinct [OF rep] xs by simp
  have "reqq_rep (reqs ?t) q rs'"
    using reqq_rep_frame [OF t(2) same_links_upd_other [OF a']] by simp
  moreover have "poll_loop env cb maxreqs 0 n s =
      (if maxreqs \<noteq> 0 \<and> maxreqs - 1 = 0 then Some ((- 1, Some EAGAIN), ?t)
       else poll_loop env cb (if maxreqs \<noteq> 0 then maxreqs - 1 else maxreqs) 0 (Suc n) ?t)"
    using no_start [OF th] t(1) f(1) r by (subst poll_loop.simps) (auto simp: Let_def)
  moreover have "?t = s\<lparr>res_queue := q, npending := npending s - 1, nreqs := nreqs s - 1,
      reqs := (reqs s)(a := None), trace := tr'\<rparr>" by simp
  ultimately show ?thesis using t(3,4) f(2) by blast
qed

lemma poll_loop_empty:
  assumes "wanted s \<le> started s" and "take_result s = Some (None, s')"
  shows "poll_loop env cb maxreqs maxtime n s = Some ((0, None), s')"
  using no_start [OF assms(1)] assms(2) by (subst poll_loop.simps) simp

text \<open>The first \<open>m\<close> requests in the order of the queue are finished, the others stay.\<close>

lemma finishes_rest:
  assumes "distinct (a # as)" and "\<forall>b \<in> set (a # as). finishes cb h b"
  shows "\<forall>b \<in> set as. finishes cb (h(a := None)) b"
proof
  fix b assume "b \<in> set as"
  then have "b \<noteq> a" "finishes cb h b" using assms by auto
  then show "finishes cb (h(a := None)) b" using finishes_cong [of "h(a := None)" b h] by simp
qed

lemma poll_loop_drains:
  assumes th: "wanted s \<le> started s"
    and rep: "reqq_rep (reqs s) (res_queue s) rs" and room: "qsize (res_queue s) \<le> INT_MAX"
    and xs: "concat (rev rs) = xs" and single: "\<forall>a \<in> set xs. finishes cb (reqs s) a"
    and m: "m = (if maxreqs = 0 \<or> length xs < unat maxreqs then length xs else unat maxreqs)"
  shows "\<exists>s'. poll_loop env cb maxreqs 0 n s =
      Some (if maxreqs = 0 \<or> length xs < unat maxreqs then (0, None) else (- 1, Some EAGAIN), s') \<and>
    filter is_free (trace s') = rev (map Free_req (take m xs)) @ filter is_free (trace s) \<and>
    qsize (res_queue s') = qsize (res_queue s) - int m \<and>
    npending s' = npending s - word_of_nat m \<and> nreqs s' = nreqs s - word_of_nat m"
  using th rep room xs single m
proof (induction xs arbitrary: s rs maxreqs m n)
  case Nil
  have "concat rs = []" using Nil.prems(4) by (metis concat_eq_Nil_conv set_rev)
  then have "take_result s = Some (None, s)"
    using reqq_shift_empty [OF Nil.prems(2)] by (simp add: take_result_def shift_res_def)
  moreover have "maxreqs = 0 \<or> 0 < unat maxreqs" by (metis gr0I unat_eq_zero)
  ultimately show ?case using Nil.prems(6) poll_loop_empty [OF Nil.prems(1)] by auto
next
  case (Cons a as)
  have fa: "finishes cb (reqs s) a" using Cons.prems(5) by simp
  from poll_loop_round [OF Cons.prems(1-4) fa, of env maxreqs n] obtain q rs' tr t where
    t: "t = s\<lparr>res_queue := q, npending := npending s - 1, nreqs := nreqs s - 1, reqs := (reqs s)(a := None), trace := tr\<rparr>"
    and rep': "reqq_rep (reqs t) q rs'" and as: "concat (rev rs') = as" and q: "qsize q = qsize (res_queue s) - 1"
    and tr: "filter is_free tr = Free_req a # filter is_free (trace s)"
    and unfold: "poll_loop env cb maxreqs 0 n s =
      (if maxreqs \<noteq> 0 \<and> maxreqs - 1 = 0 then Some ((- 1, Some EAGAIN), t)
       else poll_loop env cb (if maxreqs \<noteq> 0 then maxreqs - 1 else maxreqs) 0 (Suc n) t)" by blast
  have da: "distinct (a # as)"
    using queue_order_distinct [OF Cons.prems(2)] Cons.prems(4) by simp
  have single': "\<forall>b \<in> set as. finishes cb (reqs t) b"
    using finishes_rest [OF da Cons.prems(5)] t by simp
  show ?case
  proof (cases "maxreqs \<noteq> 0 \<and> maxreqs - 1 = 0")
    case True
    then have "maxreqs = 1" by simp
    with True Cons.prems(6) have "m = 1" by simp
    with True unfold tr q t \<open>maxreqs = 1\<close> show ?thesis by simp
  next
    case False
    let ?k = "if maxreqs \<noteq> 0 then maxreqs - 1 else maxreqs"
    let ?m = "if ?k = 0 \<or> length as < unat ?k then length as else unat ?k"
    have "wanted t \<le> started t" "reqq_rep (reqs t) (res_queue t) rs'" "qsize (res_queue t) \<le> INT_MAX"
      using Cons.prems(1,3) q t rep' by simp_all
    from Cons.IH [where maxreqs = ?k and n = "Suc n", OF this as single' refl] obtain s' where
      s': "poll_loop env cb ?k 0 (Suc n) t =
          Some (if ?k = 0 \<or> length as < unat ?k then (0, None) else (- 1, Some EAGAIN), s')"
        "filter is_free (trace s') = rev (map Free_req (take ?m as)) @ filter is_free (trace t)"
        "qsize (res_queue s') = qsize (res_queue t) - int ?m"
        "npending s' = npending t - word_of_nat ?m" "nreqs s' = nreqs t - word_of_nat ?m" by blast
    have un: "maxreqs \<noteq> 0 \<Longrightarrow> unat (maxreqs - 1) = unat maxreqs - 1 \<and> 0 < unat maxreqs"
      using unat_minus_one [of maxreqs] by (metis gr0I unat_eq_zero)
    have cond: "(?k = 0 \<or> length as < unat ?k) = (maxreqs = 0 \<or> length (a # as) < unat maxreqs)"
      using un False by auto
    moreover have "m = Suc ?m" using un False Cons.prems(6) cond by auto
    moreover have "poll_loop env cb maxreqs 0 n s = poll_loop env cb ?k 0 (Suc n) t"
      unfolding unfold by (rule if_not_P [OF False])
    ultimately show ?thesis
      using s' tr q t by (intro exI [of _ s']) (simp add: algebra_simps)
  qed
qed

section \<open>Properties\<close>

text \<open>\<open>etp_poll\<close> answers 0 only when the result queue is empty, and \<open>-1\<close> with \<open>EAGAIN\<close> only
  under a limit on requests or time; whatever the callbacks do, every other value is the one a
  callback returned and leaves \<open>errno\<close> alone.\<close>

theorem poll_result:
  assumes "etp_poll env cb s = Some ((v, e), s')"
  shows "(v = 0 \<longrightarrow> e = None \<and> qsize (res_queue s') = 0) \<and>
    (e \<noteq> None \<longrightarrow> v = - 1 \<and> e = Some EAGAIN \<and> (max_poll_reqs s \<noteq> 0 \<or> max_poll_time s \<noteq> 0))"
  using poll_loop_result [OF assms [unfolded etp_poll_def]] by auto


text \<open>Two requests wait, the one at 32 with the higher priority; one may be polled.\<close>

definition poll_start :: etp where
  "poll_start = (etp_start
      [16 \<mapsto> zero_req\<lparr>destroy := Some 1, pri := 4\<rparr>, 32 \<mapsto> zero_req\<lparr>destroy := Some 1, pri := 8\<rparr>])
    \<lparr>res_queue := \<lparr>qs = (replicate 9 None)[4 := Some 16, 8 := Some 32],
        qe = (replicate 9 None)[4 := Some 16, 8 := Some 32], qsize = 2\<rparr>,
     started := 4, nreqs := 2, npending := 2, max_poll_reqs := 1\<rparr>"

definition poll_start_env :: poll_env where
  "poll_start_env = \<lparr>po_mem = (\<lambda>n. None), po_created = (\<lambda>n. False), po_clock = (\<lambda>n. (0, 0))\<rparr>"

lemma less_9: "(\<forall>p < 9. P p) \<longleftrightarrow> P 0 \<and> P 1 \<and> P 2 \<and> P 3 \<and> P 4 \<and> P 5 \<and> P 6 \<and> P 7 \<and> P (8 :: nat)"
  by (simp add: numeral_eq_Suc All_less_Suc) blast

lemma poll_start_rep:
  "reqq_rep (reqs poll_start) (res_queue poll_start) ((replicate 9 [])[4 := [16], 8 := [32]])"
proof -
  have "\<forall>p < 9. level_rep (reqs poll_start) (res_queue poll_start) p (((replicate 9 [])[4 := [16], 8 := [32]]) ! p)"
    by (simp add: less_9 level_rep_def poll_start_def nexts_def etp_start_def
        pri_index_def zero_req_def last_ptr_def)
  moreover have "distinct (concat ((replicate 9 [])[4 := [16], 8 := [32 :: addr]]))"
    "length (concat ((replicate 9 [])[4 := [16], 8 := [32 :: addr]])) = 2" by code_simp+
  ultimately show ?thesis by (simp add: reqq_rep_def) (simp add: poll_start_def)
qed

theorem poll_result_witness:
  "\<exists>s. etp_poll poll_start_env pair_cb ((etp_start Map.empty)\<lparr>started := 4\<rparr>) = Some ((0, None), s) \<and>
    qsize (res_queue s) = 0"
proof -
  let ?s = "(etp_start Map.empty)\<lparr>started := 4\<rparr>"
  have "etp_poll poll_start_env pair_cb ?s = Some ((0, None), ?s)"
    unfolding etp_poll_def
    by (rule poll_loop_empty) (simp_all add: take_result_def shift_res_def reqq_shift_def reqq_empty_def etp_start_def)
  with poll_result [OF this] show ?thesis by auto
qed

end
