(* ===== verification/Etp_Cond.thy ===== *)
theory Etp_Cond
  imports Etp_Race Etp_Poll
begin

text \<open>
  The condition variable \<open>reqwait\<close> of \<open>src/libeio/eio.c\<close>, with the guarantees of POSIX and no more.
  In \<open>Etp_Proc\<close> a wait may end at any time. Here a thread in \<open>X_COND_WAIT\<close> or
  \<open>X_COND_TIMEDWAIT\<close> sleeps until a signal chooses it or, in the second, its time is up; either way
  it goes on later, when it gets the lock. A signal wakes at least one sleeping thread if there is
  one, and is lost otherwise: a thread whose time is up, but which has no lock yet, sleeps no more.
\<close>

section \<open>Waiting and signalling\<close>

datatype wait_state = Asleep | Signalled | Expired

type_synonym waits = "addr \<Rightarrow> wait_state option"

record csys =
  base :: sys
  cond :: waits     \<comment> \<open>the threads in one of the two waits\<close>

definition asleep :: "waits \<Rightarrow> addr set" where
  "asleep f = {a. f a = Some Asleep}"

definition signalled :: "waits \<Rightarrow> addr set" where
  "signalled f = {a. f a = Some Signalled}"

text \<open>\<open>X_COND_SIGNAL (reqwait)\<close>.\<close>

definition cond_signal :: "waits \<Rightarrow> waits \<Rightarrow> bool" where
  "cond_signal f f' \<longleftrightarrow> (\<exists>W \<subseteq> asleep f. (asleep f \<noteq> {} \<longrightarrow> W \<noteq> {}) \<and>
     f' = (\<lambda>a. if a \<in> W then Some Signalled else f a))"

text \<open>The steps that call it: the newest event is the call. The threads at one of the two waits.\<close>

definition signals :: "sys \<Rightarrow> sys \<Rightarrow> bool" where
  "signals S S' \<longleftrightarrow> trace (pool S') = Cond_signal # trace (pool S)"

definition waiters :: "sys \<Rightarrow> addr set" where
  "waiters S = fst ` {x \<in> set (workers S). waiting (snd x)}"

text \<open>
  The steps: any step in which no thread leaves its wait; the end of a wait by a signal; the time
  of a \<open>X_COND_TIMEDWAIT\<close> is up; the thread goes on after that. \<open>timely\<close> is an assumption on the
  clock: this last step happens only while the queue is empty. Nothing in the code ensures it, which
  does not look at the queue again after \<open>ETIMEDOUT\<close>; without it \<open>timely\<close> is \<^term>\<open>False\<close>.
\<close>

inductive cstep :: "bool \<Rightarrow> csys \<Rightarrow> label \<Rightarrow> csys \<Rightarrow> bool" for timely where
  c_step: "step (base C) l S' \<Longrightarrow> {x \<in> set (workers (base C)). waiting (snd x)} \<subseteq> set (workers S') \<Longrightarrow>
    (if signals (base C) S' then cond_signal (cond C) f else f = cond C) \<Longrightarrow>
    cstep timely C l \<lparr>base = S', cond = (\<lambda>a. if a \<in> waiters S' - waiters (base C) then Some Asleep else f a)\<rparr>"
| c_wake: "workers (base C) = ws @ (self, pc) # vs \<Longrightarrow> waiting pc \<Longrightarrow> cond C self = Some Signalled \<Longrightarrow>
    proc_wake self (pool (base C)) = Some (req, s') \<Longrightarrow>
    cstep timely C Tau \<lparr>base = (base C)\<lparr>pool := s', workers := ws @ (self, next_pc req) # vs\<rparr>,
      cond = (cond C)(self := (if req = None then Some Asleep else None))\<rparr>"
| c_expire: "workers (base C) = ws @ (self, Timed_wait) # vs \<Longrightarrow> cond C self = Some Asleep \<Longrightarrow>
    cstep timely C Tau (C\<lparr>cond := (cond C)(self \<mapsto> Expired)\<rparr>)"
| c_timeout: "workers (base C) = ws @ (self, Timed_wait) # vs \<Longrightarrow> cond C self = Some Expired \<Longrightarrow>
    (timely \<longrightarrow> qsize (req_queue (pool (base C))) = 0) \<Longrightarrow> proc_timeout (pool (base C)) = (stop, s') \<Longrightarrow>
    cstep timely C Tau \<lparr>base = (base C)\<lparr>pool := s',
        workers := ws @ (self, if stop then Stopping else Long_wait) # vs\<rparr>,
      cond = (cond C)(self := (if stop then None else Some Asleep))\<rparr>"

inductive creachable :: "bool \<Rightarrow> code_ptr \<Rightarrow> code_ptr \<Rightarrow> csys \<Rightarrow> bool" for timely wp dp where
  creach_start: "creachable timely wp dp \<lparr>base = sys_start wp dp h, cond = Map.empty\<rparr>"
| creach_step: "creachable timely wp dp C \<Longrightarrow> cstep timely C l C' \<Longrightarrow> creachable timely wp dp C'"

section \<open>The pool is the one of \<open>Etp_Proc\<close>\<close>

lemma cstep_step: "cstep b C l C' \<Longrightarrow> step (base C) l (base C') \<or> base C' = base C \<and> l = Tau"
proof (induction rule: cstep.induct)
  case (c_wake C ws self pc vs req s')
  then show ?case using step.wake [of "base C" ws self pc vs req s'] by (simp add: waiting_def)
next
  case (c_timeout C ws self vs stop s')
  then show ?case using step.timeout [of "base C" ws self vs stop s'] by simp
qed simp_all

lemma creachable_base: "creachable b wp dp C \<Longrightarrow> reachable wp dp (base C)"
proof (induction rule: creachable.induct)
  case (creach_step C l C')
  from cstep_step [OF creach_step.hyps(2)] creach_step.IH show ?case by (auto intro: reach_step)
qed (simp add: reach_start)

section \<open>Enough threads are awake\<close>

text \<open>A thread that will look at the queue again before it waits, or has a request to finish first.\<close>

definition ready_pc :: "heap \<Rightarrow> wpc \<Rightarrow> bool" where
  "ready_pc h pc = (case pc of At_loop \<Rightarrow> True | Took a \<Rightarrow> \<not> is_term h a | Ran a \<Rightarrow> True | _ \<Rightarrow> False)"

definition awake :: "sys \<Rightarrow> nat" where
  "awake S = length (filter (ready_pc (reqs (pool S)) \<circ> snd) (workers S))"

abbreviation depth :: "sys \<Rightarrow> int" where "depth S \<equiv> qsize (req_queue (pool S))"

abbreviation same_terms :: "sys \<Rightarrow> sys \<Rightarrow> bool" where
  "same_terms S S' \<equiv> (\<forall>a \<in> owned S. is_term (reqs (pool S')) a = is_term (reqs (pool S)) a)"

lemma waiters_split: "workers S = ws @ x # vs \<Longrightarrow>
    waiters S = fst ` {x \<in> set ws. waiting (snd x)} \<union> (if waiting (snd x) then {fst x} else {}) \<union>
      fst ` {x \<in> set vs. waiting (snd x)}"
  by (auto simp: waiters_def)

lemma waiters_move:
  "workers S = ws @ (self, pc) # vs \<Longrightarrow> workers S' = ws @ (self, pc') # vs \<Longrightarrow> \<not> waiting pc' \<Longrightarrow> waiters S' \<subseteq> waiters S"
  by (auto simp: waiters_split)

lemma awake_part:
  assumes t: "same_terms S S'" and sub: "set ws \<subseteq> set (workers S)"
  shows "filter (ready_pc (reqs (pool S')) \<circ> snd) ws = filter (ready_pc (reqs (pool S)) \<circ> snd) ws"
proof (rule filter_cong [OF refl])
  fix x assume "x \<in> set ws"
  then have "set (held (snd x)) \<subseteq> owned S" using sub by (force simp: owned_def)
  then show "(ready_pc (reqs (pool S')) \<circ> snd) x = (ready_pc (reqs (pool S)) \<circ> snd) x"
    using t by (cases "snd x") (simp_all add: ready_pc_def)
qed

lemma awake_same: "same_terms S S' \<Longrightarrow> workers S' = workers S \<Longrightarrow> awake S' = awake S"
  using awake_part [of S S' "workers S"] by (simp add: awake_def)

lemma awake_move:
  assumes t: "same_terms S S'" and w: "workers S = ws @ (self, pc) # vs" "workers S' = ws @ (self, pc') # vs"
  shows "awake S' + of_bool (ready_pc (reqs (pool S)) pc) = awake S + of_bool (ready_pc (reqs (pool S')) pc')"
proof -
  have "set ws \<subseteq> set (workers S)" "set vs \<subseteq> set (workers S)" using w(1) by auto
  note awake_part [OF t this(1)] awake_part [OF t this(2)]
  then show ?thesis by (simp add: awake_def w)
qed

text \<open>What a step does to the length of the queue and to the number of threads awake.\<close>

lemma shift_depth:
  assumes inv: "sys_inv S W" and sh: "proc_shift self p = Some (req, s')"
    and p: "req_queue p = req_queue (pool S)" "reqs p = reqs (pool S)"
  shows "reqs s' = reqs (pool S) \<and> qsize (req_queue s') = (if req = None then 0 else depth S - 1)"
proof -
  from inv obtain rq rs where s: "struct_inv S rq rs" by (rule sys_invE)
  from sh p obtain q where q: "reqq_shift (req_queue (pool S)) (reqs (pool S)) = Some (req, q)"
    and s': "reqs s' = reqs (pool S)" "req_queue s' = q"
    by (auto simp: proc_shift_def shift_req_def Let_def split: bind_splits if_splits)
  from shift_queue [OF struct_invD(1,3) [OF s]] q s' reqq_repD(6) [OF struct_invD(1) [OF s]] show ?thesis by auto
qed

definition less_work :: "sys \<Rightarrow> sys \<Rightarrow> bool" where
  "less_work S S' \<longleftrightarrow> depth S' = 0 \<or> waiters S' \<subseteq> waiters S \<and>
     depth S' + int (awake S) \<le> depth S + int (awake S') + of_bool (signals S S')"

lemma less_work_same:
  "same_terms S S' \<Longrightarrow> workers S' = workers S \<Longrightarrow> depth S' = depth S \<Longrightarrow> less_work S S'"
  using awake_same [of S S'] by (simp add: less_work_def waiters_def)

lemma less_work_move:
  assumes t: "same_terms S S'" and w: "workers S = ws @ (self, pc) # vs" "workers S' = ws @ (self, pc') # vs"
    and d: "depth S' = depth S" and pc: "\<not> waiting pc'" "ready_pc (reqs (pool S)) pc \<longrightarrow> ready_pc (reqs (pool S')) pc'"
  shows "less_work S S'"
  using awake_move [OF t w] d pc waiters_move [OF w pc(1)]
  by (cases "ready_pc (reqs (pool S)) pc") (auto simp: less_work_def)

lemma distinct_workers: "sys_inv S W \<Longrightarrow> distinct (map fst (workers S))"
  using struct_invD(8) by (auto simp: ring_def elim!: sys_invE)

lemma moved_pc:
  "distinct (map fst (ws @ (self, pc) # vs)) \<Longrightarrow> (self, pc) \<in> set (ws @ (self, pc') # vs) \<Longrightarrow> pc' = pc"
  by (force simp: image_iff)

lemma shift_less_work:
  assumes inv: "sys_inv S W" and w: "workers S = ws @ (self, pc) # vs" and pc: "pc = At_loop"
    and sh: "proc_shift self (pool S) = Some (req, s')"
  shows "less_work S (S\<lparr>pool := s', workers := ws @ (self, next_pc req) # vs\<rparr>)" (is "less_work S ?S")
proof -
  note d = shift_depth [OF inv sh refl refl]
  show ?thesis
  proof (cases req)
    case None
    then show ?thesis using d by (simp add: less_work_def)
  next
    case (Some a)
    have w': "workers ?S = ws @ (self, Took a) # vs" using Some by (simp add: next_pc_def)
    have "same_terms S ?S" using d by simp
    from awake_move [OF this w w'] waiters_move [OF w w'] d Some pc show ?thesis
      by (simp add: less_work_def ready_pc_def waiting_def)
  qed
qed

text \<open>A request enters the queue and one thread is signalled.\<close>

lemma enter_less_work:
  assumes inv: "sys_inv S W" and fresh: "a \<notin> owned S" and r: "pri_index r \<noteq> None" and room: "room (req_queue (pool S))"
    and push: "push_req a (p\<lparr>reqs := (reqs (pool S))(a \<mapsto> r)\<rparr>) = Some (n, p')"
    and p: "req_queue p = req_queue (pool S)" "res_queue p = res_queue (pool S)" "wrks p = wrks (pool S)"
      "trace p = trace (pool S)"
    and S': "pool S' = trace_if True Cond_signal p'" "workers S' = workers S"
  shows "less_work S S'"
proof -
  from inv obtain rq rs where s: "struct_inv S rq rs" by (rule sys_invE)
  from enter_inv [OF s fresh r room push p(1-3)] obtain q h where
    p': "p' = p\<lparr>req_queue := q, reqs := h\<rparr>" "is_term h = is_term ((reqs (pool S))(a \<mapsto> r))"
      "qsize q = depth S + 1" by blast
  have "same_terms S S'" using fresh S'(1) p'(1,2) by (auto simp: is_term_def trace_if_def)
  from awake_same [OF this S'(2)] S' p' p(4) show ?thesis
    by (simp add: less_work_def waiters_def signals_def trace_if_def)
qed

lemma put_result_terms:
  assumes inv: "sys_inv S W" and a: "a \<in> set (holds S)" and room: "room (res_queue (pool S))"
    and put: "put_result a (pool S) = Some p'"
  shows "is_term (reqs p') = is_term (reqs (pool S)) \<and> req_queue p' = req_queue (pool S)"
proof -
  from inv obtain rq rs where s: "struct_inv S rq rs" and e: "edge_inv (pool S)" by (rule sys_invE)
  from put_result_spec [OF s a room put e] show ?thesis by (auto simp: links_only_term)
qed

lemma create_less_work:
  assumes "etp_start_thread (Some wrk) created (pool S) = Some s'" and "wrks (pool S) wrk = None"
  shows "less_work S (S\<lparr>pool := s', main := m,
    workers := (if wrks s' wrk = None then [] else [(wrk, At_loop)]) @ workers S\<rparr>)"
proof -
  have "reqs s' = reqs (pool S)" "req_queue s' = req_queue (pool S)"
    using start_thread_cases [OF assms(1)] by auto
  then show ?thesis by (auto simp: less_work_def awake_def waiters_def waiting_def ready_pc_def)
qed

lemma step_less_work:
  assumes "step S l S'" and "sys_inv S W" and "{x \<in> set (workers S). waiting (snd x)} \<subseteq> set (workers S')"
  shows "less_work S S'"
  using assms
proof (induction rule: step.induct)
  case (client S s')
  from client.hyps(1) have "heap_step (owned S) (reqs (pool S)) (reqs s')" "req_queue s' = req_queue (pool S)"
    by (auto simp: client_step_def heap_step_def)
  then show ?case by (intro less_work_same) (auto simp: heap_step_term)
next
  case (submit S req r s')
  let ?r = "r\<lparr>pri := submit_pri (pri r)\<rparr>"
  let ?p = "(pool S)\<lparr>nreqs := nreqs (pool S) + 1, nready := nready (pool S) + 1\<rparr>"
  have "(pool S)\<lparr>reqs := (reqs (pool S))(req \<mapsto> ?r), nreqs := nreqs (pool S) + 1, nready := nready (pool S) + 1\<rparr> =
      ?p\<lparr>reqs := (reqs (pool S))(req \<mapsto> ?r)\<rparr>" by simp
  with submit.hyps(7) obtain n p' where p': "push_req req (?p\<lparr>reqs := (reqs (pool S))(req \<mapsto> ?r)\<rparr>) = Some (n, p')"
    "s' = trace_if True Cond_signal p'"
    by (auto simp: put_request_def split: bind_splits)
  show ?case
    by (rule enter_less_work [OF submit.prems(1) submit.hyps(2) submit_pri_index submit.hyps(6) p'(1)])
      (simp_all add: p'(2))
next
  case (submit_group S req r)
  then show ?case by (intro less_work_same) (auto simp: is_term_def)
next
  case (group_result S req s')
  then have "req \<in> set (holds S)" by (simp add: holds_def)
  from put_result_terms [OF group_result.prems(1) this group_result.hyps(2,3)] show ?case
    by (intro less_work_same) simp_all
next
  case (create S c wrk created s')
  from create_less_work [OF create.hyps(4,3)] show ?case by simp
next
  case (poll_take S req s')
  then have "reqs s' = reqs (pool S)" "req_queue s' = req_queue (pool S)"
    by (auto simp: take_result_def shift_res_def trace_if_def split: bind_splits option.splits)
  then show ?case by (intro less_work_same) simp_all
next
  case (end_push S mem n s')
  from end_push.prems(1) obtain rq rs where s: "struct_inv S rq rs" by (rule sys_invE)
  have fresh: "mem \<notin> owned S"
    using struct_invD(6) [OF s, of mem] end_push.hyps(2) by (auto simp: struct_inv_owned [OF s] queued_def)
  have "pri_index terminator \<noteq> None" by (simp add: pri_index_def terminator_def eio_pri_defs sint_to_schar)
  from enter_less_work [OF end_push.prems(1) fresh this end_push.hyps(3,4)] show ?case by simp
next
  case (shift S ws self vs req s')
  then show ?case by (intro shift_less_work) auto
next
  case (wake S ws self pc vs req s')
  from wake.hyps(1,2) wake.prems(2) have "(self, pc) \<in> set (ws @ (self, next_pc req) # vs)"
    by (auto simp: waiting_def)
  with distinct_workers [OF wake.prems(1)] wake.hyps(1) have "next_pc req = pc" by (intro moved_pc) simp_all
  then have "req = None" using wake.hyps(2) by (auto simp: next_pc_def split: option.splits)
  then show ?case
    using shift_depth [OF wake.prems(1) wake.hyps(3) [unfolded proc_wake_def]] by (simp add: less_work_def)
next
  case (timeout S ws self vs stop s')
  have "(self, Timed_wait) \<in> {x \<in> set (workers S). waiting (snd x)}" using timeout.hyps(1) by (simp add: waiting_def)
  from subsetD [OF timeout.prems(2) this]
  have "(self, Timed_wait) \<in> set (ws @ (self, if stop then Stopping else Long_wait) # vs)" by simp
  with distinct_workers [OF timeout.prems(1)] timeout.hyps(1)
  have "(if stop then Stopping else Long_wait) = Timed_wait" by (intro moved_pc) simp_all
  then show ?case by (simp split: if_splits)
next
  case (stop S ws self vs)
  then show ?case by (intro less_work_move) (auto simp: proc_stop_def waiting_def ready_pc_def)
next
  case (quit_terminator S ws self req vs r)
  then show ?case by (intro less_work_move) (auto simp: waiting_def ready_pc_def is_term_def)
next
  case (skip_cancelled S ws self req vs r)
  then show ?case by (intro less_work_move) (auto simp: waiting_def ready_pc_def)
next
  case (execute S ws self req vs r s')
  then obtain r' where "reqs s' = (reqs (pool S))(req \<mapsto> r')" "same_req r r'" "req_queue s' = req_queue (pool S)"
    by (auto simp: exec_step_def)
  with execute.hyps(1,2) show ?case
    by (intro less_work_move) (auto simp: waiting_def ready_pc_def is_term_def same_req_def)
next
  case (hand_over S ws self req vs s')
  have "req \<in> set (holds S)" using hand_over.hyps(1) by (simp add: holds_def)
  note put = put_result_terms [OF hand_over.prems(1) this hand_over.hyps(2)]
  from hand_over.hyps(3) obtain p where "put_result req (pool S) = Some p" "reqs s' = reqs p" "req_queue s' = req_queue p"
    by (auto simp: proc_done_def split: bind_splits)
  with put hand_over.hyps(1) show ?case by (intro less_work_move) (auto simp: waiting_def ready_pc_def)
next
  case (quit S ws self vs s')
  let ?S = "S\<lparr>pool := s', workers := ws @ vs\<rparr>"
  from quit.hyps(2) have eq: "reqs s' = reqs (pool S)" "req_queue s' = req_queue (pool S)"
    by (auto simp: proc_quit_def split: bind_splits)
  with quit.hyps(1) have "awake ?S = awake S" by (simp add: awake_def ready_pc_def)
  with eq show ?case using waiters_split [OF quit.hyps(1)] by (auto simp: less_work_def waiters_def)
qed (simp_all add: less_work_same)

text \<open>
  The invariant: \<^term>\<open>cond\<close> knows the threads that wait; and while a thread sleeps there are no more
  requests in the queue than threads that are awake or signalled.
\<close>

definition cond_inv :: "csys \<Rightarrow> bool" where
  "cond_inv C \<longleftrightarrow> dom (cond C) = waiters (base C) \<and>
     (asleep (cond C) \<noteq> {} \<longrightarrow> depth (base C) \<le> int (card (signalled (cond C)) + awake (base C)))"

lemma finite_waiters: "finite (waiters S)"
  by (simp add: waiters_def)

lemma finite_signalled: "dom f = waiters S \<Longrightarrow> finite (signalled f)"
  using finite_subset [OF _ finite_waiters, of "signalled f" S] by (auto simp: signalled_def)

lemma cond_signal_card:
  assumes "cond_signal f f'" and "asleep f \<noteq> {}" and "finite (signalled f')"
  shows "card (signalled f) + 1 \<le> card (signalled f')"
proof -
  from assms(1) obtain W where W: "W \<subseteq> asleep f" "asleep f \<noteq> {} \<longrightarrow> W \<noteq> {}"
    "f' = (\<lambda>a. if a \<in> W then Some Signalled else f a)" unfolding cond_signal_def by blast
  from W(2) assms(2) obtain a where "a \<in> W" by blast
  then have "a \<notin> signalled f" "insert a (signalled f) \<subseteq> signalled f'"
    using W(1,3) by (auto simp: signalled_def asleep_def)
  with card_mono [OF assms(3) this(2)] finite_subset [OF this(2) assms(3)] show ?thesis by simp
qed

lemma cond_signal_frame: "cond_signal f f' \<Longrightarrow> dom f' = dom f \<and> asleep f' \<subseteq> asleep f"
  by (auto simp: cond_signal_def asleep_def split: if_splits)

lemma cond_inv_step:
  assumes inv: "cond_inv C" and sys: "sys_inv (base C) W" and st: "step (base C) l S'"
    and stay: "{x \<in> set (workers (base C)). waiting (snd x)} \<subseteq> set (workers S')"
    and sig: "if signals (base C) S' then cond_signal (cond C) f else f = cond C"
  shows "cond_inv \<lparr>base = S', cond = (\<lambda>a. if a \<in> waiters S' - waiters (base C) then Some Asleep else f a)\<rparr>"
    (is "cond_inv ?C")
proof -
  note less = step_less_work [OF st sys stay]
  have f: "dom f = waiters (base C)" "asleep f \<subseteq> asleep (cond C)"
    using inv sig cond_signal_frame [of "cond C" f] by (auto simp: cond_inv_def split: if_splits)
  have "waiters (base C) \<subseteq> waiters S'" using stay by (force simp: waiters_def)
  then have dom: "dom (cond ?C) = waiters S'" using f(1) by (auto simp: dom_def)
  have "depth S' \<le> int (card (signalled (cond ?C)) + awake S')" if sl: "asleep (cond ?C) \<noteq> {}"
  proof (cases "depth S' = 0")
    case False
    with less have w: "waiters S' \<subseteq> waiters (base C)"
      and d: "depth S' + int (awake (base C)) \<le> depth (base C) + int (awake S') + of_bool (signals (base C) S')"
      by (auto simp: less_work_def)
    from w have c: "cond ?C = f" by (auto simp: fun_eq_iff)
    with sl f(2) have old: "asleep (cond C) \<noteq> {}" by auto
    with inv have q: "depth (base C) \<le> int (card (signalled (cond C)) + awake (base C))" by (simp add: cond_inv_def)
    show ?thesis
    proof (cases "signals (base C) S'")
      case True
      with sig cond_signal_card [of "cond C" f] old finite_signalled [OF f(1)]
      have "card (signalled (cond C)) + 1 \<le> card (signalled f)" by simp
      with d q True show ?thesis unfolding c by simp
    next
      case False
      with sig d q show ?thesis unfolding c by simp
    qed
  qed simp
  with dom show ?thesis by (simp add: cond_inv_def)
qed

lemma cond_inv_wake:
  assumes inv: "cond_inv C" and sys: "sys_inv (base C) W" and w: "workers (base C) = ws @ (self, pc) # vs"
    and pc: "waiting pc" and sig: "cond C self = Some Signalled"
    and wk: "proc_wake self (pool (base C)) = Some (req, s')"
  shows "cond_inv \<lparr>base = (base C)\<lparr>pool := s', workers := ws @ (self, next_pc req) # vs\<rparr>,
      cond = (cond C)(self := (if req = None then Some Asleep else None))\<rparr>"
    (is "cond_inv \<lparr>base = ?S, cond = ?f\<rparr>")
proof -
  note d = shift_depth [OF sys wk [unfolded proc_wake_def]]
  have t: "same_terms (base C) ?S" using d by simp
  have w': "workers ?S = ws @ (self, next_pc req) # vs" by simp
  have out: "self \<notin> fst ` set ws" "self \<notin> fst ` set vs" using distinct_workers [OF sys] w by (auto simp: image_iff)
  have wt: "waiting (next_pc req) \<longleftrightarrow> req = None" by (cases req) (simp_all add: next_pc_def waiting_def)
  have "dom ?f = waiters ?S"
    using inv out pc wt waiters_split [OF w] waiters_split [OF w'] by (auto simp: cond_inv_def split: if_splits)
  moreover have "depth ?S \<le> int (card (signalled ?f) + awake ?S)" if "asleep ?f \<noteq> {}"
  proof (cases req)
    case None
    then show ?thesis using d by simp
  next
    case (Some a)
    have "asleep (cond C) \<noteq> {}" using that Some sig by (auto simp: asleep_def split: if_splits)
    with inv have q: "depth (base C) \<le> int (card (signalled (cond C)) + awake (base C))" by (simp add: cond_inv_def)
    have "signalled (cond C) = insert self (signalled ?f)" "self \<notin> signalled ?f"
      using sig Some by (auto simp: signalled_def)
    moreover have "finite (signalled (cond C))" using finite_signalled inv by (auto simp: cond_inv_def)
    ultimately have "card (signalled (cond C)) = card (signalled ?f) + 1" by simp
    moreover have "\<not> ready_pc (reqs (pool (base C))) pc" using pc by (auto simp: ready_pc_def waiting_def)
    then have "awake (base C) \<le> awake ?S" using awake_move [OF t w w'] by simp
    ultimately show ?thesis using q d Some by simp
  qed
  ultimately show ?thesis by (simp add: cond_inv_def)
qed

lemma cond_inv_cstep:
  assumes "cstep True C l C'" and "cond_inv C" and "sys_inv (base C) W"
  shows "cond_inv C'"
  using assms
proof (induction rule: cstep.induct)
  case (c_step C l S' f)
  show ?case by (rule cond_inv_step [OF c_step.prems c_step.hyps])
next
  case (c_wake C ws self pc vs req s')
  show ?case by (rule cond_inv_wake [OF c_wake.prems c_wake.hyps])
next
  case (c_expire C ws self vs)
  have "self \<in> waiters (base C)" using waiters_split [OF c_expire.hyps(1)] by (simp add: waiting_def)
  moreover have "signalled ((cond C)(self \<mapsto> Expired)) = signalled (cond C)"
    using c_expire.hyps(2) by (auto simp: signalled_def)
  moreover have "asleep ((cond C)(self \<mapsto> Expired)) \<subseteq> asleep (cond C)" by (auto simp: asleep_def split: if_splits)
  ultimately show ?case using c_expire.prems(1) by (auto simp: cond_inv_def)
next
  case (c_timeout C ws self vs stop s')
  let ?S = "(base C)\<lparr>pool := s', workers := ws @ (self, if stop then Stopping else Long_wait) # vs\<rparr>"
  have w': "workers ?S = ws @ (self, if stop then Stopping else Long_wait) # vs" by simp
  have out: "self \<notin> fst ` set ws" "self \<notin> fst ` set vs"
    using distinct_workers [OF c_timeout.prems(2)] c_timeout.hyps(1) by (auto simp: image_iff)
  have "req_queue s' = req_queue (pool (base C))"
    using c_timeout.hyps(4) by (auto simp: proc_timeout_def split: if_splits)
  then have "depth ?S = 0" using c_timeout.hyps(3) by simp
  moreover have "dom ((cond C)(self := (if stop then None else Some Asleep))) = waiters ?S"
    using c_timeout.prems(1) out waiters_split [OF c_timeout.hyps(1)] waiters_split [OF w']
    by (auto simp: cond_inv_def waiting_def split: if_splits)
  ultimately show ?case by (simp add: cond_inv_def)
qed

lemma creachable_inv: "creachable True wp dp C \<Longrightarrow> cond_inv C"
proof (induction rule: creachable.induct)
  case (creach_start h)
  show ?case by (simp add: cond_inv_def asleep_def waiters_def sys_start_def)
next
  case (creach_step C l C')
  from reachable_inv [OF creachable_base [OF creach_step.hyps(1)]] obtain W where "sys_inv (base C) W" by blast
  from cond_inv_cstep [OF creach_step.hyps(2) creach_step.IH this] show ?case .
qed

text \<open>C7: With the guarantees of POSIX for \<open>reqwait\<close>, and if no thread finds that its time is up while a
  request is in the queue: the pool runs as in the interleaving relation, \<^term>\<open>cond\<close> has exactly the threads
  that wait, and as long as one of them sleeps, there are at least as many threads signalled or
  awake as there are requests in the queue. No request is left to sleeping threads.\<close>

theorem enough_awake:
  assumes "creachable True wp dp C"
  shows "reachable wp dp (base C) \<and> dom (cond C) = waiters (base C) \<and>
    (cond C self = Some Asleep \<longrightarrow>
      card (queue_members (req_queue (pool (base C))) (reqs (pool (base C)))) \<le>
        card {a. cond C a = Some Signalled} + awake (base C))"
proof -
  note inv = creachable_inv [OF assms]
  note base = creachable_base [OF assms]
  from reachable_inv [OF base] obtain W rq rs where s: "struct_inv (base C) rq rs" by (meson sys_invE)
  have "card (queue_members (req_queue (pool (base C))) (reqs (pool (base C)))) = length (concat rq)"
    using struct_inv_distinct [OF s] queue_members_eq [OF struct_invD(1) [OF s]]
    by (simp add: distinct_card del: set_concat)
  then have "int (card (queue_members (req_queue (pool (base C))) (reqs (pool (base C))))) = depth (base C)"
    using reqq_repD(6) [OF struct_invD(1) [OF s]] by simp
  with inv base show ?thesis by (auto simp: cond_inv_def asleep_def signalled_def)
qed

section \<open>A lost signal\<close>

text \<open>
  A thread waits for the next request. Its time is up; before it has the lock a request is
  submitted. Nobody sleeps, so the signal is lost, and the thread goes to sleep for good without
  looking at the queue. The limits are the initial ones, the request is at 32, the worker at 16.
\<close>

definition lost_start :: etp where "lost_start = pool (sys_start None None race_heap)"

definition lost_put :: "etp \<Rightarrow> etp option" where
  "lost_put s = put_request 32 (s\<lparr>reqs := (reqs s)
     (32 \<mapsto> zero_req\<lparr>req_type := type_code EIO_NOP, pri := submit_pri 0\<rparr>)\<rparr>)"

definition lost_submitted :: etp where "lost_submitted = the (lost_put lost_start)"
definition lost_running :: etp where "lost_running = the (etp_maybe_start_thread (Some 16) True lost_submitted)"
definition lost_took :: etp where "lost_took = snd (the (proc_shift 16 lost_running))"
definition lost_ran :: etp where "lost_ran = the (proc_done 16 32 lost_took)"
definition lost_polled :: etp where "lost_polled = snd (the (take_result lost_ran))"

definition lost_own :: etp where
  "lost_own = lost_polled\<lparr>nreqs := 0, reqs := [32 \<mapsto> zero_req\<lparr>req_type := type_code EIO_NOP\<rparr>]\<rparr>"

definition lost_idle :: etp where "lost_idle = snd (the (proc_shift 16 lost_own))"
definition lost_end :: etp where "lost_end = the (lost_put lost_idle)"

lemma lost_steps:
  "lost_put lost_start = Some lost_submitted" "etp_maybe_start_thread (Some 16) True lost_submitted = Some lost_running"
  "proc_shift 16 lost_running = Some (Some 32, lost_took)" "proc_done 16 32 lost_took = Some lost_ran"
  "take_result lost_ran = Some (Some 32, lost_polled)" "proc_shift 16 lost_own = Some (None, lost_idle)"
  "lost_put lost_idle = Some lost_end"
  subgoal unfolding lost_submitted_def by (rule is_none_the) code_simp
  subgoal unfolding lost_running_def by (rule is_none_the) code_simp
  subgoal unfolding lost_took_def by (rule is_none_snd) code_simp
  subgoal unfolding lost_ran_def by (rule is_none_the) code_simp
  subgoal unfolding lost_polled_def by (rule is_none_snd) code_simp
  subgoal unfolding lost_idle_def by (rule is_none_snd) code_simp
  subgoal unfolding lost_end_def by (rule is_none_the) code_simp
  done

lemma lost_facts:
  "room (req_queue lost_start)" "wrks lost_submitted 16 = None" "\<not> Option.is_none (wrks lost_running 16)"
  "room (res_queue lost_took)" "room (req_queue lost_idle)"
  "map_option req_type (reqs lost_took 32) = Some (type_code EIO_NOP)"
  "map_option EIO_CANCELLED (reqs lost_took 32) = Some False" "nreqs lost_polled = 1"
  "start_decision lost_submitted In_submit = Some (M_create In_submit)" "start_decision lost_ran In_poll = Some M_poll"
  "start_decision lost_end In_submit = Some M_client" "start_decision lost_end In_poll = Some M_poll"
  "\<not> fst (proc_timeout lost_end)" "qsize (res_queue lost_end) = 0" "qsize (req_queue lost_end) = 1"
  by code_simp+

abbreviation lost_reach :: "bool \<Rightarrow> etp \<Rightarrow> (addr \<times> wpc) list \<Rightarrow> mpc \<Rightarrow> waits \<Rightarrow> bool" where
  "lost_reach b p ws m f \<equiv> creachable b None None \<lparr>base = race_at p ws m 0, cond = f\<rparr>"

lemma c_stepI:
  assumes "step S l S'" and "{x \<in> set (workers S). waiting (snd x)} \<subseteq> set (workers S')"
    and "if signals S S' then cond_signal g f else f = g"
    and "f' = (\<lambda>a. if a \<in> waiters S' - waiters S then Some Asleep else f a)"
  shows "cstep b \<lparr>base = S, cond = g\<rparr> l \<lparr>base = S', cond = f'\<rparr>"
  using c_step [where C = "\<lparr>base = S, cond = g\<rparr>" and f = f] assms by simp

text \<open>A step while nobody waits before or after it, and one that only moves the submitting thread.\<close>

lemma lost_go:
  assumes "lost_reach b p ws m Map.empty" and "step (race_at p ws m 0) l (race_at p' ws' m' 0)"
    and "waiters (race_at p ws m 0) = {}"
  shows "lost_reach b p' ws' m' (\<lambda>a. if a \<in> waiters (race_at p' ws' m' 0) then Some Asleep else None)"
proof -
  have none: "{x \<in> set ws. waiting (snd x)} = {}" using assms(3) by (auto simp: waiters_def)
  have "cstep b \<lparr>base = race_at p ws m 0, cond = Map.empty\<rparr> l \<lparr>base = race_at p' ws' m' 0,
      cond = (\<lambda>a. if a \<in> waiters (race_at p' ws' m' 0) then Some Asleep else None)\<rparr>"
    by (rule c_stepI [OF assms(2), where f = Map.empty])
      (simp_all add: none assms(3) cond_signal_def asleep_def)
  with assms(1) show ?thesis by (rule creach_step)
qed

lemma lost_reads:
  assumes "lost_reach b p ws (M_start c) f" and "start_decision p c = Some m"
  shows "lost_reach b p ws m f"
proof -
  have go: "lost_reach b p ws m2 f" if "lost_reach b p ws m1 f" "start_read p m1 = Some m2" for m1 m2
  proof -
    have "step (race_at p ws m1 0) Tau (race_at p ws m2 0)"
      using step.maybe_start [of "race_at p ws m1 0" m2] that(2) by simp
    from this have "cstep b \<lparr>base = race_at p ws m1 0, cond = f\<rparr> Tau \<lparr>base = race_at p ws m2 0, cond = f\<rparr>"
      by (rule c_stepI) (auto simp: signals_def waiters_def)
    with that(1) show ?thesis by (rule creach_step)
  qed
  from assms(2) obtain m1 where m1: "start_read p (M_start c) = Some m1"
    and "m1 = m \<or> (\<exists>m2 m3. start_read p m1 = Some m2 \<and> start_read p m2 = Some m3 \<and> start_read p m3 = Some m)"
    unfolding start_decision_def by (auto split: bind_splits if_splits)
  with go [OF assms(1) m1] show ?thesis using go by blast
qed

text \<open>A pool with empty queues and nothing in work owns nothing.\<close>

lemma lost_owns_nothing:
  assumes "reachable wp dp S" and "qsize (req_queue (pool S)) = 0" and "qsize (res_queue (pool S)) = 0" and "holds S = []"
  shows "owned S = {}"
proof -
  from reachable_inv [OF assms(1)] obtain W rq rs where s: "struct_inv S rq rs" by (meson sys_invE)
  have "concat rq = []" "concat rs = []"
    using reqq_repD(6) [OF struct_invD(1) [OF s]] reqq_repD(6) [OF struct_invD(2) [OF s]] assms(2,3) by simp_all
  with assms(4) show ?thesis by (simp add: struct_inv_owned [OF s] members_def)
qed

lemma lost_quiet:
  assumes "lost_reach b p ws m Map.empty" and "step (race_at p ws m 0) l (race_at p' ws' m' 0)"
    and "\<forall>x \<in> set ws \<union> set ws'. \<not> waiting (snd x)"
  shows "lost_reach b p' ws' m' Map.empty"
proof -
  have "waiters (race_at p ws m 0) = {}" "waiters (race_at p' ws' m' 0) = {}"
    using assms(3) by (auto simp: waiters_def)
  from lost_go [OF assms(1,2) this(1)] this(2) show ?thesis by simp
qed

lemma lost_request:
  "reqs p 32 = Some (zero_req\<lparr>req_type := type_code EIO_NOP\<rparr>) \<Longrightarrow> room (req_queue p) \<Longrightarrow> lost_put p = Some p' \<Longrightarrow>
    owned (race_at p ws M_client 0) = {} \<Longrightarrow> step (race_at p ws M_client 0) (Submit 32) (race_at p' ws (M_start In_submit) 0)"
  using step.submit [of "race_at p ws M_client 0" 32 "zero_req\<lparr>req_type := type_code EIO_NOP\<rparr>" p']
  by (simp add: lost_put_def zero_req_def type_code_def eio_types_def)

lemma shift_reqs: "proc_shift self p = Some (req, s') \<Longrightarrow> reqs s' = reqs p"
  by (auto simp: proc_shift_def shift_req_def Let_def split: bind_splits if_splits)

lemma lost_run_ran: "lost_reach b lost_ran [(16, At_loop)] M_client Map.empty"
proof -
  have eq: "sys_start None None race_heap = race_at lost_start [] M_client 0"
    by (simp add: lost_start_def sys_start_def race_at_def)
  with creach_start [of b None None race_heap] have start: "lost_reach b lost_start [] M_client Map.empty" by simp
  have "reqs lost_start 32 = Some (zero_req\<lparr>req_type := type_code EIO_NOP\<rparr>)"
    by (simp add: lost_start_def sys_start_def etp_init_def etp_start_def race_heap_def)
  with lost_request [OF _ lost_facts(1) lost_steps(1), of "[]"] owned_start [of None None race_heap]
  have "lost_reach b lost_submitted [] (M_start In_submit) Map.empty"
    by (intro lost_quiet [OF start]) (simp_all add: eq)
  from lost_reads [OF this lost_facts(9)] have create: "lost_reach b lost_submitted [] (M_create In_submit) Map.empty" .
  have st: "etp_start_thread (Some 16) True lost_submitted = Some lost_running"
    using lost_steps(2) lost_facts(9) unfolding maybe_start_sections [of _ _ _ In_submit] by simp
  have "step (race_at lost_submitted [] (M_create In_submit) 0) Tau (race_at lost_running [(16, At_loop)] M_client 0)"
    using step.create [of "race_at lost_submitted [] (M_create In_submit) 0" In_submit 16 True lost_running] st lost_facts(2,3)
    by (auto simp: wrk_first_def split: if_splits)
  from lost_quiet [OF create this] have running: "lost_reach b lost_running [(16, At_loop)] M_client Map.empty"
    by (simp add: waiting_def)
  have "step (race_at lost_running [(16, At_loop)] M_client 0) Tau (race_at lost_took [(16, Took 32)] M_client 0)"
    using step.shift [of "race_at lost_running [(16, At_loop)] M_client 0" "[]" 16 "[]" "Some 32" lost_took] lost_steps(3)
    by (simp add: next_pc_def)
  from lost_quiet [OF running this] have took: "lost_reach b lost_took [(16, Took 32)] M_client Map.empty"
    by (simp add: waiting_def)
  obtain r where r: "reqs lost_took 32 = Some r" "0 \<le> req_type r" "\<not> EIO_CANCELLED r"
    using lost_facts(6,7) by auto
  have "reachable None None (race_at lost_took [(16, Took 32)] M_client 0)" using creachable_base [OF took] by simp
  from reachable_inv [OF this] obtain W rq rs where "struct_inv (race_at lost_took [(16, Took 32)] M_client 0) rq rs"
    by (meson sys_invE)
  from worker_alloc [OF this, of 16 "Took 32"] obtain w where "wrks lost_took 16 = Some w" by auto
  with r have ex: "exec_step 16 32 lost_took lost_took"
    unfolding exec_step_def
    by (intro exI [of _ r] exI [of _ w] exI [of _ "dbuf w"] exI [of _ "dirp w"])
      (simp add: same_req_def map_upd_triv)
  have "step (race_at lost_took [(16, Took 32)] M_client 0) Tau (race_at lost_took [(16, Ran 32)] M_client 0)"
    using step.execute [of "race_at lost_took [(16, Took 32)] M_client 0" "[]" 16 32 "[]" r lost_took] r ex by simp
  from lost_quiet [OF took this] have ran: "lost_reach b lost_took [(16, Ran 32)] M_client Map.empty"
    by (simp add: waiting_def)
  have "step (race_at lost_took [(16, Ran 32)] M_client 0) Tau (race_at lost_ran [(16, At_loop)] M_client 0)"
    using step.hand_over [of "race_at lost_took [(16, Ran 32)] M_client 0" "[]" 16 32 "[]" lost_ran] lost_facts(4) lost_steps(4)
    by simp
  from lost_quiet [OF ran this] show ?thesis by (simp add: waiting_def)
qed

text \<open>The result is polled, and the request is the client's again.\<close>

lemma lost_run_own: "lost_reach b lost_own [(16, At_loop)] M_client Map.empty"
proof -
  let ?ws = "[(16, At_loop)] :: (addr \<times> wpc) list"
  have "step (race_at lost_ran ?ws M_client 0) Tau (race_at lost_ran ?ws (M_start In_poll) 0)"
    using step.poll [of "race_at lost_ran ?ws M_client 0"] by simp
  from lost_quiet [OF lost_run_ran this] have "lost_reach b lost_ran ?ws (M_start In_poll) Map.empty" by (simp add: waiting_def)
  from lost_reads [OF this lost_facts(10)] have take: "lost_reach b lost_ran ?ws M_poll Map.empty" .
  have "step (race_at lost_ran ?ws M_poll 0) Tau (race_at lost_polled ?ws (M_took 32) 0)"
    using step.poll_take [of "race_at lost_ran ?ws M_poll 0" "Some 32" lost_polled] lost_steps(5) by simp
  from lost_quiet [OF take this] have deliver: "lost_reach b lost_polled ?ws (M_took 32) Map.empty" by (simp add: waiting_def)
  let ?p = "lost_polled\<lparr>nreqs := 0\<rparr>"
  have "step (race_at lost_polled ?ws (M_took 32) 0) (Deliver 32) (race_at ?p ?ws M_client 0)"
    using step.poll_deliver [of "race_at lost_polled ?ws (M_took 32) 0" 32] lost_facts(8) by simp
  from lost_quiet [OF deliver this] have polled: "lost_reach b ?p ?ws M_client Map.empty" by (simp add: waiting_def)
  have "qsize (req_queue lost_polled) = 0" "qsize (res_queue lost_polled) = 0" by code_simp+
  with lost_owns_nothing [OF creachable_base [OF polled]] have own: "owned (race_at ?p ?ws M_client 0) = {}"
    by (simp add: holds_def)
  have "lost_own = ?p\<lparr>reqs := [32 \<mapsto> zero_req\<lparr>req_type := type_code EIO_NOP\<rparr>], wanted := wanted ?p,
      max_idle := max_idle ?p, idle_timeout := idle_timeout ?p, max_poll_reqs := max_poll_reqs ?p,
      max_poll_time := max_poll_time ?p, trace := trace ?p\<rparr>"
    by (rule etp.equality) (simp_all add: lost_own_def)
  then have "client_step {} ?p lost_own" unfolding client_step_def using quiet_ext_refl by blast
  with step.client [of "race_at ?p ?ws M_client 0" lost_own] own
  have "step (race_at ?p ?ws M_client 0) Tau (race_at lost_own ?ws M_client 0)" by simp
  from lost_quiet [OF polled this] show ?thesis by (simp add: waiting_def)
qed

lemma one_waiter: "waiters (race_at p [(16, Timed_wait)] m 0) = {16}"
  by (auto simp: waiters_def waiting_def)

lemma lost_run_idle: "lost_reach b lost_idle [(16, Timed_wait)] M_client [16 \<mapsto> Asleep]"
proof -
  have map: "(\<lambda>a. if a \<in> {16} then Some Asleep else None) = [16 \<mapsto> Asleep]" by auto
  have "step (race_at lost_own [(16, At_loop)] M_client 0) Tau (race_at lost_idle [(16, Timed_wait)] M_client 0)"
    using step.shift [of "race_at lost_own [(16, At_loop)] M_client 0" "[]" 16 "[]" None lost_idle] lost_steps(6)
    by (simp add: next_pc_def)
  from lost_go [OF lost_run_own this] show ?thesis
    unfolding one_waiter map by (simp add: waiters_def waiting_def)
qed

lemma lost_run: "lost_reach False lost_end [(16, Long_wait)] M_client [16 \<mapsto> Asleep]"
proof -
  let ?ws = "[(16, Timed_wait)] :: (addr \<times> wpc) list"
  have "cstep False \<lparr>base = race_at lost_idle ?ws M_client 0, cond = [16 \<mapsto> Asleep]\<rparr> Tau
      \<lparr>base = race_at lost_idle ?ws M_client 0, cond = [16 \<mapsto> Expired]\<rparr>"
    using c_expire [of "\<lparr>base = race_at lost_idle ?ws M_client 0, cond = [16 \<mapsto> Asleep]\<rparr>" "[]" 16 "[]"] by simp
  from creach_step [OF lost_run_idle this] have late: "lost_reach False lost_idle ?ws M_client [16 \<mapsto> Expired]" .
  from shift_reqs [OF lost_steps(6)] have r: "reqs lost_idle 32 = Some (zero_req\<lparr>req_type := type_code EIO_NOP\<rparr>)" by (simp add: lost_own_def)
  have "qsize (req_queue lost_idle) = 0" "qsize (res_queue lost_idle) = 0" by code_simp+
  with lost_owns_nothing [OF creachable_base [OF late]] have own: "owned (race_at lost_idle ?ws M_client 0) = {}"
    by (simp add: holds_def)
  have "cstep False \<lparr>base = race_at lost_idle ?ws M_client 0, cond = [16 \<mapsto> Expired]\<rparr> (Submit 32)
      \<lparr>base = race_at lost_end ?ws (M_start In_submit) 0, cond = [16 \<mapsto> Expired]\<rparr>"
    by (rule c_stepI [OF lost_request, where f = "[16 \<mapsto> Expired]"])
      (auto simp: r own lost_facts(5) lost_steps(7) one_waiter asleep_def cond_signal_def split: if_splits)
  with late have "lost_reach False lost_end ?ws (M_start In_submit) [16 \<mapsto> Expired]" by (rule creach_step)
  from lost_reads [OF this lost_facts(11)] have submitted: "lost_reach False lost_end ?ws M_client [16 \<mapsto> Expired]" .
  have "proc_timeout lost_end = (False, lost_end)" using lost_facts(13) by (simp add: proc_timeout_def split: if_splits)
  then have "cstep False \<lparr>base = race_at lost_end ?ws M_client 0, cond = [16 \<mapsto> Expired]\<rparr> Tau
      \<lparr>base = race_at lost_end [(16, Long_wait)] M_client 0, cond = [16 \<mapsto> Asleep]\<rparr>"
    using c_timeout [of "\<lparr>base = race_at lost_end ?ws M_client 0, cond = [16 \<mapsto> Expired]\<rparr>" "[]" 16 "[]" False False lost_end]
    by simp
  with submitted show ?thesis by (rule creach_step)
qed

text \<open>The thread stays asleep unless it is signalled.\<close>

lemma only_worker: "ws @ x # vs = [y] \<longleftrightarrow> ws = [] \<and> vs = [] \<and> x = y" "[y] = ws @ x # vs \<longleftrightarrow> ws = [] \<and> vs = [] \<and> x = y"
  by (cases ws, auto)+

lemma asleep_step:
  assumes "step S l S'" and "main S = M_client" and "workers S = [(self, Long_wait)]"
    and "(self, Long_wait) \<in> set (workers S')"
  shows "signals S S' \<or> workers S' = workers S \<and> req_queue (pool S') = req_queue (pool S)"
  using assms
proof (cases rule: step.cases)
  case client
  then show ?thesis by (auto simp: client_step_def)
next
  case submit
  then show ?thesis by (auto simp: put_request_def push_req_def signals_def trace_if_def split: bind_splits)
next
  case end_push
  then show ?thesis by (auto simp: push_req_def signals_def trace_if_def split: bind_splits)
next
  case wake
  with assms(3,4) show ?thesis by (auto simp: only_worker next_pc_def split: option.splits)
qed (use assms(2,3) in \<open>auto simp: only_worker\<close>)

lemma asleep_cstep:
  assumes "cstep b \<lparr>base = S, cond = [self \<mapsto> Asleep]\<rparr> l C'" and "main S = M_client" and "workers S = [(self, Long_wait)]"
  shows "signals S (base C') \<or> workers (base C') = workers S \<and> cond C' = [self \<mapsto> Asleep] \<and>
    req_queue (pool (base C')) = req_queue (pool S)"
  using assms(1)
proof (cases rule: cstep.cases)
  case (c_step S' f)
  then have "(self, Long_wait) \<in> set (workers S')" using assms(3) by (auto simp: waiting_def)
  from asleep_step [OF _ assms(2,3) this] c_step have "signals S S' \<or> workers S' = workers S \<and> req_queue (pool S') = req_queue (pool S)"
    by simp
  with c_step show ?thesis by (auto simp: waiters_def)
qed (use assms(3) in \<open>auto simp: only_worker\<close>)

lemma push_domain: "reqq_push q a h = Some (n, q', h') \<Longrightarrow> h' b = None \<longleftrightarrow> h b = None"
  by (auto simp: reqq_push_def upd_def Let_def split: bind_splits if_splits option.splits)

lemma lost_put_domain: "lost_put p = Some p' \<Longrightarrow> reqs p' b = None \<longleftrightarrow> b \<noteq> 32 \<and> reqs p b = None"
  by (auto simp: lost_put_def put_request_def push_req_def trace_if_def push_domain split: bind_splits if_splits)

text \<open>C8: A wake-up can be lost: a state can be reached, with the limits as they are set initially, in which
  a request is in the queue, the only thread sleeps in \<open>X_COND_WAIT\<close> with no signal on its way, every
  step leaves it there unless it is a further \<open>X_COND_SIGNAL\<close>, and \<open>etp_poll\<close> returns 0 and
  changes nothing, starting no thread. The request stays where it is until another one is submitted.\<close>

theorem lost_wakeup:
  "\<exists>C. creachable False None None C \<and> main (base C) = M_client \<and> workers (base C) = [(16, Long_wait)] \<and>
    cond C = [16 \<mapsto> Asleep] \<and> queue_members (req_queue (pool (base C))) (reqs (pool (base C))) = {32} \<and>
    {C'. (\<exists>l. cstep False C l C') \<and> \<not> signals (base C) (base C')} \<subseteq>
      {C'. workers (base C') = workers (base C) \<and> cond C' = cond C \<and> req_queue (pool (base C')) = req_queue (pool (base C))} \<and>
    (\<forall>env cb. etp_poll env cb (pool (base C)) = Some ((0, None), pool (base C)))"
proof -
  let ?S = "race_at lost_end [(16, Long_wait)] M_client 0"
  let ?C = "\<lparr>base = ?S, cond = [16 \<mapsto> Asleep]\<rparr>"
  have still: "signals ?S (base C') \<or> workers (base C') = workers ?S \<and> cond C' = [16 \<mapsto> Asleep] \<and>
      req_queue (pool (base C')) = req_queue lost_end" if "cstep False ?C l C'" for l C'
    using asleep_cstep [OF that] by simp
  have poll: "etp_poll env cb lost_end = Some ((0, None), lost_end)" for env cb
  proof -
    have "etp_maybe_start_thread mem created lost_end = Some lost_end" for mem created
      unfolding maybe_start_sections [of _ _ _ In_poll] by (simp add: lost_facts(12))
    moreover have "take_result lost_end = Some (None, lost_end)"
      using lost_facts(14) by (simp add: take_result_def shift_res_def reqq_shift_def)
    ultimately show ?thesis unfolding etp_poll_def by (subst poll_loop.simps) simp
  qed
  have queue: "queue_members (req_queue lost_end) (reqs lost_end) = {32}"
  proof -
    have "reachable None None ?S" using creachable_base [OF lost_run] by simp
    from reachable_inv [OF this] obtain W rq rs where s: "struct_inv ?S rq rs" by (meson sys_invE)
    have rep: "reqq_rep (reqs lost_end) (req_queue lost_end) rq" using struct_invD(1) [OF s] by simp
    with reqq_repD(6) [OF rep] lost_facts(15) have "length (concat rq) = 1" by simp
    then obtain a where a: "concat rq = [a]" by (auto simp: length_Suc_conv)
    then have "a \<in># members ?S rq rs" by (simp add: members_def)
    from struct_invD(6) [OF s this] have "reqs lost_end a \<noteq> None" by (auto simp: queued_def)
    then have "a = 32 \<or> reqs lost_own a \<noteq> None"
      unfolding lost_put_domain [OF lost_steps(7)] shift_reqs [OF lost_steps(6)] by auto
    then have "a = 32" by (simp add: lost_own_def split: if_splits)
    with a queue_members_eq [OF rep] show ?thesis by simp
  qed
  show ?thesis using lost_run still poll queue by (intro exI [of _ ?C]) auto
qed

theorem enough_awake_witness:
  "dom [16 \<mapsto> Asleep] = waiters (race_at lost_idle [(16, Timed_wait)] M_client 0) \<and>
    card (queue_members (req_queue lost_idle) (reqs lost_idle)) \<le> awake (race_at lost_idle [(16, Timed_wait)] M_client 0)"
proof -
  have "{a :: addr. ([16 \<mapsto> Asleep] :: waits) a = Some Signalled} = {}" by auto
  moreover have "([16 \<mapsto> Asleep] :: waits) 16 = Some Asleep" by simp
  ultimately show ?thesis using enough_awake [OF lost_run_idle, of 16] by (simp add: one_waiter del: fun_upd_apply)
qed

end
