(* ===== verification/Etp_Sections.thy ===== *)
theory Etp_Sections
  imports Etp_Race
begin

text \<open>
  The sections of the worker threads of \<open>src/libeio/eio.c\<close> and the locks they hold. Two threads can
  be in sections at the same time only if the sections need no common lock; here such sections are
  shown to commute, so that it does not matter that \<open>Etp_Proc\<close> takes them one after the other.
\<close>

section \<open>Sections and their locks\<close>

datatype mutex = Wrklock | Reslock | Reqlock

text \<open>The lock a worker holds in its next section; it executes a request with none.\<close>

fun section_lock :: "wpc \<Rightarrow> mutex option" where
  "section_lock At_loop = Some Reqlock"
| "section_lock Timed_wait = Some Reqlock"
| "section_lock Long_wait = Some Reqlock"
| "section_lock (Took req) = None"
| "section_lock (Ran req) = Some Reslock"
| "section_lock Stopping = Some Wrklock"
| "section_lock Quitting = Some Wrklock"

text \<open>
  What the section does not determine itself: whether the time of a wait is up, and what \<open>eio_execute\<close>
  makes of the request, the buffer and the directory of the worker.
\<close>

record outcome =
  late :: bool
  executed :: "eio_req \<Rightarrow> eio_req"
  dbuf_after :: "64 word"
  dirp_after :: "64 word"

definition proper :: "outcome \<Rightarrow> bool" where
  "proper c \<longleftrightarrow> (\<forall>r. same_req r (executed c r))"

text \<open>The next section of a worker, as a function: its next program counter, none when it has ended.\<close>

fun worker_section :: "outcome \<Rightarrow> addr \<Rightarrow> wpc \<Rightarrow> etp \<Rightarrow> (wpc option \<times> etp) option" where
  "worker_section c self At_loop s = map_option (\<lambda>(req, s). (Some (next_pc req), s)) (proc_shift self s)"
| "worker_section c self Timed_wait s =
     (if late c then case proc_timeout s of (stop, s) \<Rightarrow> Some (Some (if stop then Stopping else Long_wait), s)
      else map_option (\<lambda>(req, s). (Some (next_pc req), s)) (proc_wake self s))"
| "worker_section c self Long_wait s = map_option (\<lambda>(req, s). (Some (next_pc req), s)) (proc_wake self s)"
| "worker_section c self (Took req) s = do {
     r \<leftarrow> reqs s req;
     w \<leftarrow> wrks s self;
     Some (if req_type r < 0 then (Some Quitting, s)
       else if EIO_CANCELLED r then (Some (Ran req), s)
       else (Some (Ran req), s\<lparr>reqs := (reqs s)(req \<mapsto> executed c r),
          wrks := (wrks s)(self \<mapsto> w\<lparr>dbuf := dbuf_after c, dirp := dirp_after c\<rparr>)\<rparr>)) }"
| "worker_section c self (Ran req) s = map_option (Pair (Some At_loop)) (proc_done self req s)"
| "worker_section c self Stopping s = Some (Some Quitting, proc_stop s)"
| "worker_section c self Quitting s = map_option (Pair None) (proc_quit self s)"

definition with_pc :: "addr \<Rightarrow> wpc option \<Rightarrow> (addr \<times> wpc) list" where
  "with_pc self pc = (case pc of None \<Rightarrow> [] | Some pc \<Rightarrow> [(self, pc)])"

lemma same_pool: "S\<lparr>pool := pool S, workers := ws\<rparr> = S\<lparr>workers := ws\<rparr>"
  by simp

text \<open>They are the workers' steps of the relation.\<close>

lemma section_step:
  assumes w: "workers S = ws @ (self, pc) # vs" and sec: "worker_section c self pc (pool S) = Some (pc', s')"
    and "proper c" and room: "room (res_queue (pool S))"
  shows "step S Tau (S\<lparr>pool := s', workers := ws @ with_pc self pc' @ vs\<rparr>)"
proof (cases pc)
  case At_loop
  with sec w step.shift [of S ws self vs] show ?thesis by (auto simp: with_pc_def)
next
  case Timed_wait
  with sec w step.timeout [of S ws self vs] step.wake [of S ws self pc vs] show ?thesis
    by (auto simp: with_pc_def split: if_splits prod.splits)
next
  case Long_wait
  with sec w step.wake [of S ws self pc vs] show ?thesis by (auto simp: with_pc_def)
next
  case (Took req)
  with sec obtain r wk where r: "reqs (pool S) req = Some r" "wrks (pool S) self = Some wk"
    by (auto split: bind_splits)
  have w: "workers S = ws @ (self, Took req) # vs" using w Took by simp
  consider "req_type r < 0" | "0 \<le> req_type r" "EIO_CANCELLED r" | "0 \<le> req_type r" "\<not> EIO_CANCELLED r" by linarith
  then show ?thesis
  proof cases
    case 1
    then have "s' = pool S" "pc' = Some Quitting" using sec Took r by simp_all
    then show ?thesis using step.quit_terminator [OF w r(1) 1] by (simp add: with_pc_def same_pool)
  next
    case 2
    then have "s' = pool S" "pc' = Some (Ran req)" using sec Took r by simp_all
    then show ?thesis using step.skip_cancelled [OF w r(1) 2] by (simp add: with_pc_def same_pool)
  next
    case 3
    then have "s' = (pool S)\<lparr>reqs := (reqs (pool S))(req \<mapsto> executed c r),
          wrks := (wrks (pool S))(self \<mapsto> wk\<lparr>dbuf := dbuf_after c, dirp := dirp_after c\<rparr>)\<rparr>"
      using sec Took r by simp
    then have "exec_step self req (pool S) s'"
      using r assms(3) unfolding exec_step_def proper_def by blast
    moreover have "pc' = Some (Ran req)" using sec Took r 3 by simp
    ultimately show ?thesis using step.execute [OF w r(1) 3] by (simp add: with_pc_def)
  qed
next
  case (Ran req)
  with sec w room step.hand_over [of S ws self req vs] show ?thesis by (auto simp: with_pc_def)
next
  case Stopping
  with sec w step.stop [of S ws self vs] show ?thesis by (auto simp: with_pc_def)
next
  case Quitting
  with sec w step.quit [of S ws self vs] show ?thesis by (auto simp: with_pc_def)
qed

section \<open>What a section reads and what it changes\<close>

text \<open>
  \<open>acts f s x e\<close>: on all states that agree with \<open>s\<close> where the relation demands it, \<open>f\<close> is defined, has
  the result \<open>x\<close> and the effect \<open>e\<close>.
\<close>

definition acts :: "(etp \<Rightarrow> bool) \<Rightarrow> (etp \<Rightarrow> ('x \<times> etp) option) \<Rightarrow> 'x \<Rightarrow> (etp \<Rightarrow> etp) \<Rightarrow> bool" where
  "acts sees f x e \<longleftrightarrow> (\<forall>t. sees t \<longrightarrow> f t = Some (x, e t))"

definition diamond :: "(etp \<Rightarrow> ('x \<times> etp) option) \<Rightarrow> (etp \<Rightarrow> ('y \<times> etp) option) \<Rightarrow> etp \<Rightarrow> bool" where
  "diamond f g s \<longleftrightarrow> (\<exists>x y s1 s2 s'. f s = Some (x, s1) \<and> g s1 = Some (y, s') \<and>
     g s = Some (y, s2) \<and> f s2 = Some (x, s'))"

lemma diamond_sym: "diamond f g s \<Longrightarrow> diamond g f s"
  unfolding diamond_def by blast

lemma acts_diamond:
  "acts P f x d \<Longrightarrow> acts Q g y e \<Longrightarrow> P s \<Longrightarrow> Q s \<Longrightarrow> P (e s) \<Longrightarrow> Q (d s) \<Longrightarrow> e (d s) = d (e s) \<Longrightarrow> diamond f g s"
  by (simp add: acts_def diamond_def)

text \<open>A worker's own record, up to its links in the ring.\<close>

definition own :: "etp_worker \<Rightarrow> ptr \<times> 64 word \<times> 64 word" where
  "own w = (wrk_req w, dbuf w, dirp w)"

definition inner :: "(etp_worker \<Rightarrow> etp_worker) \<Rightarrow> bool" where
  "inner u \<longleftrightarrow> (\<forall>w. wrk_prev (u w) = wrk_prev w \<and> wrk_next (u w) = wrk_next w \<and>
     (\<forall>a. u (w\<lparr>wrk_prev := a\<rparr>) = (u w)\<lparr>wrk_prev := a\<rparr> \<and> u (w\<lparr>wrk_next := a\<rparr>) = (u w)\<lparr>wrk_next := a\<rparr>))"

definition touch :: "(etp_worker \<Rightarrow> etp_worker) \<Rightarrow> addr \<Rightarrow> wheap \<Rightarrow> wheap" where
  "touch u a w = w(a := map_option u (w a))"

lemma inner_simps [simp]:
  "inner id" "inner (wrk_req_update (\<lambda>_. p))" "inner (\<lambda>w. w\<lparr>dbuf := b, dirp := d\<rparr>)"
  "inner (\<lambda>w. w\<lparr>wrk_req := p, dbuf := b, dirp := d\<rparr>)"
  by (simp_all add: inner_def)

lemma touch_other [simp]: "b \<noteq> a \<Longrightarrow> touch u a w b = w b"
  by (simp add: touch_def)

lemma touch_id [simp]: "touch id a w = w"
  by (simp add: touch_def option.map_id)

lemma touch_upd: "w a = Some r \<Longrightarrow> w(a \<mapsto> u r) = touch u a w"
  by (simp add: touch_def)

lemma touch_twist: "a \<noteq> b \<Longrightarrow> touch u a (touch v b w) = touch v b (touch u a w)"
  by (simp add: touch_def fun_upd_twist)

lemma wupd_touch:
  "(\<And>r. u (f r) = f (u r)) \<Longrightarrow> wupd x f (touch u b w) = map_option (touch u b) (wupd x f w)"
  by (cases "x = b"; cases "w x") (auto simp: wupd_def touch_def fun_upd_twist)

lemma free_touch:
  assumes "etp_worker_free a w = Some w'" and "a \<noteq> b" and u: "inner u"
  shows "etp_worker_free a (touch u b w) = Some (touch u b w')"
proof -
  have links: "u (wrk_prev_update (\<lambda>_. x) r) = wrk_prev_update (\<lambda>_. x) (u r)"
    "u (wrk_next_update (\<lambda>_. x) r) = wrk_next_update (\<lambda>_. x) (u r)" for x r
    using u by (simp_all add: inner_def)
  from assms(1) obtain r w1 r1 w2 where w1: "w a = Some r" "wupd (wrk_next r) (wrk_prev_update (\<lambda>_. wrk_prev r)) w = Some w1"
    "w1 a = Some r1" "wupd (wrk_prev r1) (wrk_next_update (\<lambda>_. wrk_next r1)) w1 = Some w2" "w' = w2(a := None)"
    by (auto simp: etp_worker_free_def split: bind_splits)
  have "(touch u b w2)(a := None) = touch u b (w2(a := None))"
    using assms(2) by (auto simp: touch_def fun_eq_iff)
  with w1 assms(2) show ?thesis by (simp add: etp_worker_free_def wupd_touch links)
qed

lemma free_own: "etp_worker_free a w = Some w' \<Longrightarrow> a \<noteq> b \<Longrightarrow> map_option own (w' b) = map_option own (w b)"
  by (auto simp: etp_worker_free_def wupd_def own_def split: bind_splits option.splits if_splits)

section \<open>The queues\<close>

lemma reqq_scan_frame:
  assumes "same_links A h h'" and "\<And>k x. k < n \<Longrightarrow> qs q ! k = Some x \<Longrightarrow> x \<in> A"
  shows "reqq_scan n q h' = reqq_scan n q h"
  using assms(2)
proof (induction n)
  case (Suc n)
  show ?case
  proof (cases "qs q ! n")
    case None
    have "reqq_scan n q h' = reqq_scan n q h" by (rule Suc.IH, rule Suc.prems) simp_all
    with None show ?thesis by simp
  next
    case (Some x)
    from Suc.prems [of n x] Some have "x \<in> A" by simp
    with assms(1) have "map_option (\<lambda>r. (next_req r, pri r)) (h' x) = map_option (\<lambda>r. (next_req r, pri r)) (h x)"
      by (simp add: same_links_def)
    with Some show ?thesis by (cases "h x"; cases "h' x") (simp_all add: Let_def)
  qed
qed simp

lemma reqq_shift_frame:
  assumes rep: "reqq_rep h q qss" and same: "same_links (set (concat qss)) h h'"
  shows "reqq_shift q h' = reqq_shift q h"
proof -
  have head: "x \<in> set (concat qss)" if "k < 9" "qs q ! k = Some x" for k x
  proof -
    from reqq_repD(4) [OF rep that(1)] that(2) have "chain (nexts h) (Some x) (qss ! k)"
      by (simp add: level_rep_def)
    then have "x \<in> set (qss ! k)" by (cases "qss ! k") auto
    with reqq_rep_in [OF rep that(1)] show ?thesis .
  qed
  have "reqq_scan 9 (q\<lparr>qsize := n\<rparr>) h' = reqq_scan 9 (q\<lparr>qsize := n\<rparr>) h" for n
    by (rule reqq_scan_frame [OF same]) (simp add: head del: set_concat)
  then show ?thesis by (simp add: reqq_shift_def)
qed

lemma reqq_push_frame:
  assumes rep: "reqq_rep h q qss" and push: "reqq_push q a h = Some (n, q', h1)"
    and same: "\<And>x. x \<in> insert a (set (concat qss)) \<Longrightarrow> h' x = h x"
  shows "reqq_push q a h' = Some (n, q', override_on h' h1 (insert a (set (concat qss))))"
proof -
  from push obtain r k where r: "h a = Some r" "pri_index r = Some k" "k < 9"
    by (auto simp: reqq_push_def pri_index_Some split: bind_splits)
  let ?A = "insert a (set (concat qss))"
  show ?thesis
  proof (cases "qe q ! k")
    case None
    with push r have out: "h1 = h(a \<mapsto> r\<lparr>next_req := None\<rparr>)" by (auto simp: reqq_push_def upd_def split: bind_splits)
    have "override_on h' h1 ?A = h'(a \<mapsto> r\<lparr>next_req := None\<rparr>)"
      by (rule ext) (auto simp: override_on_def out same)
    with None push r same [of a] show ?thesis by (auto simp: reqq_push_def upd_def split: bind_splits)
  next
    case (Some e)
    with reqq_repD(4) [OF rep r(3)] have "last_ptr (qss ! k) = Some e" by (simp add: level_rep_def)
    then have "e \<in> set (qss ! k)" by (auto simp: last_ptr_Some)
    then have e: "e \<in> set (concat qss)" by (rule reqq_rep_in [OF rep r(3)])
    from push r Some obtain re where re: "(h(a \<mapsto> r\<lparr>next_req := None\<rparr>)) e = Some re"
      and out: "h1 = h(a \<mapsto> r\<lparr>next_req := None\<rparr>, e \<mapsto> re\<lparr>next_req := Some a\<rparr>)"
      by (auto simp: reqq_push_def upd_Some split: bind_splits)
    have re': "(h'(a \<mapsto> r\<lparr>next_req := None\<rparr>)) e = Some re" using re same [of e] e by auto
    have "override_on h' h1 ?A = h'(a \<mapsto> r\<lparr>next_req := None\<rparr>, e \<mapsto> re\<lparr>next_req := Some a\<rparr>)"
      using e by (intro ext) (auto simp: override_on_def out same simp del: set_concat)
    with Some push r re re' same [of a] show ?thesis
      by (auto simp: reqq_push_def upd_def simp del: fun_upd_apply split: bind_splits)
  qed
qed

section \<open>The effect of each section\<close>

definition same_own :: "addr \<Rightarrow> etp \<Rightarrow> etp \<Rightarrow> bool" where
  "same_own a s t \<longleftrightarrow> map_option own (wrks t a) = map_option own (wrks s a)"

definition sees_req :: "addr set \<Rightarrow> addr \<Rightarrow> etp \<Rightarrow> etp \<Rightarrow> bool" where
  "sees_req A a s t \<longleftrightarrow> req_queue t = req_queue s \<and> idle t = idle s \<and> nready t = nready s \<and>
     max_idle t = max_idle s \<and> same_links A (reqs s) (reqs t) \<and> same_own a s t"

definition req_effect :: "etp_reqq \<Rightarrow> 32 word \<Rightarrow> 32 word \<Rightarrow> (etp_worker \<Rightarrow> etp_worker) \<Rightarrow> addr \<Rightarrow> etp \<Rightarrow> etp" where
  "req_effect q i n u a t = t\<lparr>req_queue := q, idle := i, nready := n, wrks := touch u a (wrks t)\<rparr>"

definition sees_res :: "addr set \<Rightarrow> addr \<Rightarrow> etp \<Rightarrow> etp \<Rightarrow> bool" where
  "sees_res A a s t \<longleftrightarrow> res_queue t = res_queue s \<and> npending t = npending s \<and>
     want_poll_cb t = want_poll_cb s \<and> trace t = trace s \<and> (\<forall>x \<in> A. reqs t x = reqs s x) \<and> same_own a s t"

definition res_effect ::
  "etp_reqq \<Rightarrow> 32 word \<Rightarrow> event list \<Rightarrow> heap \<Rightarrow> addr set \<Rightarrow> (etp_worker \<Rightarrow> etp_worker) \<Rightarrow> addr \<Rightarrow> etp \<Rightarrow> etp" where
  "res_effect q n tr h A u a t = t\<lparr>res_queue := q, npending := n, trace := tr,
     reqs := override_on (reqs t) h A, wrks := touch u a (wrks t)\<rparr>"

definition sees_taken :: "addr \<Rightarrow> addr \<Rightarrow> etp \<Rightarrow> etp \<Rightarrow> bool" where
  "sees_taken req a s t \<longleftrightarrow> reqs t req = reqs s req \<and> same_own a s t"

definition taken_effect :: "addr \<Rightarrow> (eio_req \<Rightarrow> eio_req) \<Rightarrow> (etp_worker \<Rightarrow> etp_worker) \<Rightarrow> addr \<Rightarrow> etp \<Rightarrow> etp" where
  "taken_effect req g u a t =
     t\<lparr>reqs := (reqs t)(req := map_option g (reqs t req)), wrks := touch u a (wrks t)\<rparr>"

definition sees_ring :: "addr \<Rightarrow> etp \<Rightarrow> bool" where
  "sees_ring a t \<longleftrightarrow> etp_worker_free a (wrks t) \<noteq> None"

definition quit_effect :: "addr \<Rightarrow> etp \<Rightarrow> etp" where
  "quit_effect a t = t\<lparr>wrks := the (etp_worker_free a (wrks t))\<rparr>"

lemma same_ownE:
  assumes "same_own a s t" and "wrks s a = Some w"
  obtains v where "wrks t a = Some v" "wrk_req v = wrk_req w" "dbuf v = dbuf w" "dirp v = dirp w"
  using assms by (cases "wrks t a") (auto simp: same_own_def own_def)

lemma shift_acts:
  assumes s: "struct_inv S rq rs" and w: "(a, pc) \<in> set (workers S)"
  obtains req q where "\<And>k. acts (sees_req (set (concat rq)) a (pool S)) (\<lambda>t. proc_shift a (t\<lparr>idle := idle t - k\<rparr>)) req
    (req_effect q (if req = None then idle (pool S) - k + 1 else idle (pool S) - k)
      (if req = None then nready (pool S) else nready (pool S) - 1) (wrk_req_update (\<lambda>_. req)) a)"
proof -
  obtain wk where wk: "wrks (pool S) a = Some wk" by (rule worker_alloc [OF s w])
  from shift_queue [OF struct_invD(1,3) [OF s]] obtain req q where
    sh: "reqq_shift (req_queue (pool S)) (reqs (pool S)) = Some (req, q)" by blast
  show thesis
  proof (rule that [of req q], unfold acts_def, intro allI impI)
    fix k t assume t: "sees_req (set (concat rq)) a (pool S) t"
    then obtain v where v: "wrks t a = Some v" using wk by (auto simp: sees_req_def elim: same_ownE)
    have "reqq_shift (req_queue t) (reqs t) = Some (req, q)"
      using reqq_shift_frame [OF struct_invD(1) [OF s]] t sh by (simp add: sees_req_def)
    with v t show "proc_shift a (t\<lparr>idle := idle t - k\<rparr>) = Some (req, req_effect q
        (if req = None then idle (pool S) - k + 1 else idle (pool S) - k)
        (if req = None then nready (pool S) else nready (pool S) - 1) (wrk_req_update (\<lambda>_. req)) a t)"
      by (cases req) (auto simp: proc_shift_def shift_req_def req_effect_def touch_def sees_req_def Let_def)
  qed
qed

lemma acts_map: "acts P f x e \<Longrightarrow> acts P (\<lambda>t. map_option (\<lambda>(req, s). (k req, s)) (f t)) (k x) e"
  by (simp add: acts_def)

lemma reqlock_acts:
  assumes s: "struct_inv S rq rs" and w: "(a, pc) \<in> set (workers S)" and lk: "section_lock pc = Some Reqlock"
  shows "\<exists>x q i n u. inner u \<and>
    acts (sees_req (set (concat rq)) a (pool S)) (worker_section c a pc) x (req_effect q i n u a)"
proof -
  obtain req q where sh: "\<And>k. acts (sees_req (set (concat rq)) a (pool S)) (\<lambda>t. proc_shift a (t\<lparr>idle := idle t - k\<rparr>)) req
    (req_effect q (if req = None then idle (pool S) - k + 1 else idle (pool S) - k)
      (if req = None then nready (pool S) else nready (pool S) - 1) (wrk_req_update (\<lambda>_. req)) a)"
    by (rule shift_acts [OF s w]) blast
  have shifted: "\<exists>x q i n u. inner u \<and> acts (sees_req (set (concat rq)) a (pool S))
      (\<lambda>t. map_option (\<lambda>(req, s). (Some (next_pc req), s)) (proc_shift a (t\<lparr>idle := idle t - k\<rparr>))) x (req_effect q i n u a)" for k
    using acts_map [OF sh [of k], of "\<lambda>req. Some (next_pc req)"] inner_simps(2) [of req] by blast
  have woken: "worker_section c a pc = (\<lambda>t. map_option (\<lambda>(req, s). (Some (next_pc req), s)) (proc_shift a (t\<lparr>idle := idle t - 1\<rparr>)))"
    if "pc = Timed_wait \<and> \<not> late c \<or> pc = Long_wait" using that by (auto simp: proc_wake_def)
  have up: "\<exists>x q i n u. inner u \<and> acts (sees_req (set (concat rq)) a (pool S))
      (\<lambda>t. case proc_timeout t of (stop, s) \<Rightarrow> Some (Some (if stop then Stopping else Long_wait), s)) x (req_effect q i n u a)"
    unfolding acts_def
    by (rule exI [of _ "Some (if idle (pool S) > max_idle (pool S) then Stopping else Long_wait)"],
        rule exI [of _ "req_queue (pool S)"],
        rule exI [of _ "if idle (pool S) > max_idle (pool S) then idle (pool S) - 1 else idle (pool S)"],
        rule exI [of _ "nready (pool S)"], rule exI [of _ id])
      (auto simp: proc_timeout_def sees_req_def req_effect_def)
  show ?thesis
  proof (cases pc)
    case At_loop
    then have "worker_section c a pc = (\<lambda>t. map_option (\<lambda>(req, s). (Some (next_pc req), s)) (proc_shift a (t\<lparr>idle := idle t - 0\<rparr>)))"
      by auto
    then show ?thesis using shifted [of 0] by (simp only:)
  next
    case Timed_wait
    show ?thesis
    proof (cases "late c")
      case True
      then have "worker_section c a pc = (\<lambda>t. case proc_timeout t of (stop, s) \<Rightarrow> Some (Some (if stop then Stopping else Long_wait), s))"
        using Timed_wait by auto
      then show ?thesis using up by (simp only:)
    next
      case False
      with Timed_wait shifted [of 1] show ?thesis by (subst woken) simp_all
    qed
  next
    case Long_wait
    with shifted [of 1] show ?thesis by (subst woken) simp_all
  qed (use lk in simp_all)
qed

lemma taken_acts:
  assumes s: "struct_inv S rq rs" and w: "(a, Took req) \<in> set (workers S)" and c: "proper c"
  shows "\<exists>x g u. inner u \<and> (\<forall>r. same_req r (g r)) \<and>
    acts (sees_taken req a (pool S)) (worker_section c a (Took req)) x (taken_effect req g u a)"
proof -
  obtain wk where wk: "wrks (pool S) a = Some wk" by (rule worker_alloc [OF s w])
  have "req \<in># members S rq rs" using holds_worker [OF w, of req] by (simp add: members_def)
  from struct_invD(6) [OF s this] obtain r where r: "reqs (pool S) req = Some r" by (auto simp: queued_def)
  consider "req_type r < 0" | "0 \<le> req_type r" "EIO_CANCELLED r" | "0 \<le> req_type r" "\<not> EIO_CANCELLED r" by linarith
  then show ?thesis
  proof cases
    case 1
    show ?thesis unfolding acts_def
      by (rule exI [of _ "Some Quitting"], rule exI [of _ id], rule exI [of _ id])
        (use r wk 1 in \<open>auto simp: sees_taken_def taken_effect_def same_req_def option.map_id map_upd_triv elim!: same_ownE\<close>)
  next
    case 2
    show ?thesis unfolding acts_def
      by (rule exI [of _ "Some (Ran req)"], rule exI [of _ id], rule exI [of _ id])
        (use r wk 2 in \<open>auto simp: sees_taken_def taken_effect_def same_req_def option.map_id map_upd_triv elim!: same_ownE\<close>)
  next
    case 3
    show ?thesis unfolding acts_def
      by (rule exI [of _ "Some (Ran req)"], rule exI [of _ "executed c"],
          rule exI [of _ "\<lambda>w. w\<lparr>dbuf := dbuf_after c, dirp := dirp_after c\<rparr>"])
        (use r wk 3 c in \<open>auto simp: sees_taken_def taken_effect_def proper_def touch_def elim!: same_ownE\<close>)
  qed
qed

lemma reslock_acts:
  assumes s: "struct_inv S rq rs" and w: "(a, Ran req) \<in> set (workers S)" and room: "room (res_queue (pool S))"
  shows "\<exists>x q n tr h u. inner u \<and> acts (sees_res (insert req (set (concat rs))) a (pool S))
    (worker_section c a (Ran req)) x (res_effect q n tr h (insert req (set (concat rs))) u a)"
proof -
  let ?A = "insert req (set (concat rs))"
  obtain wk where wk: "wrks (pool S) a = Some wk" by (rule worker_alloc [OF s w])
  have "req \<in> set (holds S)" using holds_worker [OF w, of req] by simp
  from put_defined [OF s this room] obtain n q h where
    push: "reqq_push (res_queue (pool S)) req (reqs (pool S)) = Some (n, q, h)"
    by (auto simp: put_result_def push_res_def split: bind_splits)
  let ?tr = "map Close_dir (if dirp wk \<noteq> 0 then [dirp wk] else []) @ map Free_buf (if dbuf wk \<noteq> 0 then [dbuf wk] else []) @
    (if n = 0 \<and> want_poll_cb (pool S) \<noteq> None then [Want_poll] else []) @ trace (pool S)"
  have "worker_section c a (Ran req) t = Some (Some At_loop,
      res_effect q (npending (pool S) + 1) ?tr h ?A (\<lambda>w. w\<lparr>wrk_req := None, dbuf := 0, dirp := 0\<rparr>) a t)"
    if t: "sees_res ?A a (pool S) t" for t
  proof -
    from t wk obtain v where v: "wrks t a = Some v" "dbuf v = dbuf wk" "dirp v = dirp wk"
      by (auto simp: sees_res_def elim: same_ownE)
    have "\<And>x. x \<in> ?A \<Longrightarrow> reqs t x = reqs (pool S) x" using t by (auto simp: sees_res_def)
    from reqq_push_frame [OF struct_invD(2) [OF s] push this] t
    have "reqq_push (res_queue t) req (reqs t) = Some (n, q, override_on (reqs t) h ?A)" by (simp add: sees_res_def)
    with v t show ?thesis
      by (simp add: proc_done_def put_result_def push_res_def trace_if_def etp_worker_clear_def res_effect_def
          touch_def sees_res_def)
  qed
  then show ?thesis unfolding acts_def using inner_simps(4) by blast
qed

lemma quit_acts:
  assumes "sees_ring a s" shows "acts (sees_ring a) (worker_section c a Quitting) None (quit_effect a)"
  by (auto simp: acts_def sees_ring_def quit_effect_def proc_quit_def)

lemma stop_acts: "acts (\<lambda>t. True) (worker_section c a Stopping) (Some Quitting) proc_stop"
  by (simp add: acts_def)

section \<open>Sections under different locks commute\<close>

lemma sees_refl [simp]: "sees_req A a s s" "sees_res A a s s" "sees_taken req a s s"
  by (simp_all add: sees_req_def sees_res_def sees_taken_def same_own_def)

lemma taken_taken:
  assumes "acts (sees_taken r1 a s) f x (taken_effect r1 g u a)" and "acts (sees_taken r2 b s) f' y (taken_effect r2 g' v b)"
    and "a \<noteq> b" and "r1 \<noteq> r2"
  shows "diamond f f' s"
  by (rule acts_diamond [OF assms(1,2)])
    (use assms(3,4) in \<open>simp_all add: sees_taken_def taken_effect_def same_own_def touch_twist fun_upd_twist\<close>)

lemma taken_req:
  assumes "acts (sees_taken r a s) f x (taken_effect r g u a)" and "acts (sees_req A b s) f' y (req_effect q i n v b)"
    and "a \<noteq> b" and "\<forall>r. same_req r (g r)"
  shows "diamond f f' s"
proof (rule acts_diamond [OF assms(1,2)])
  have "same_links A (reqs s) ((reqs s)(r := map_option g (reqs s r)))"
    using assms(4) by (cases "reqs s r") (auto simp: same_links_def same_req_def)
  then show "sees_req A b s (taken_effect r g u a s)"
    using assms(3) by (simp add: sees_req_def taken_effect_def same_own_def)
qed (use assms(3) in \<open>simp_all add: sees_taken_def taken_effect_def req_effect_def same_own_def touch_twist\<close>)

lemma taken_res:
  assumes "acts (sees_taken r a s) f x (taken_effect r g u a)"
    and "acts (sees_res A b s) f' y (res_effect q n tr h A v b)" and "a \<noteq> b" and "r \<notin> A"
  shows "diamond f f' s"
  by (rule acts_diamond [OF assms(1,2)])
    (use assms(3,4) in \<open>auto simp: sees_taken_def sees_res_def taken_effect_def res_effect_def same_own_def
      touch_twist override_on_def fun_eq_iff\<close>)

lemma req_res:
  assumes "acts (sees_req B a s) f x (req_effect q i n u a)"
    and "acts (sees_res A b s) f' y (res_effect q' n' tr h A v b)" and "a \<noteq> b" and "A \<inter> B = {}"
  shows "diamond f f' s"
proof (rule acts_diamond [OF assms(1,2)])
  have "same_links B (reqs s) (override_on (reqs s) h A)"
    using assms(4) by (intro same_links_eq) (auto simp: override_on_def)
  then show "sees_req B a s (res_effect q' n' tr h A v b s)"
    using assms(3) by (simp add: sees_req_def res_effect_def same_own_def)
qed (use assms(3) in \<open>simp_all add: sees_res_def res_effect_def req_effect_def same_own_def touch_twist\<close>)

text \<open>The sections under \<open>wrklock\<close>, against any that changes a worker's own record.\<close>

lemma stop_commutes:
  assumes "acts P f x e" and "P s" and "P (proc_stop s)" and "e (proc_stop s) = proc_stop (e s)"
  shows "diamond (worker_section c b Stopping) f s"
  by (rule acts_diamond [OF stop_acts assms(1)]) (use assms in simp_all)

lemma quit_commutes:
  assumes "acts P f x e" and "P s" and "P (quit_effect b s)" and "sees_ring b s"
    and w: "wrks (e s) = touch u a (wrks s)" and "a \<noteq> b" and "inner u"
    and e: "\<And>w. e (s\<lparr>wrks := w\<rparr>) = (e s)\<lparr>wrks := touch u a w\<rparr>"
  shows "diamond (worker_section c b Quitting) f s"
proof -
  from assms(4) obtain w where free: "etp_worker_free b (wrks s) = Some w" by (auto simp: sees_ring_def)
  with free_touch [OF free _ assms(7), of a] assms(6) have t: "etp_worker_free b (wrks (e s)) = Some (touch u a w)"
    by (simp add: w)
  show ?thesis
    by (rule acts_diamond [OF quit_acts [OF assms(4)] assms(1) assms(4,2)])
      (use assms(3) in \<open>simp_all add: sees_ring_def t free quit_effect_def e\<close>)
qed

lemma quit_same_own: "sees_ring b s \<Longrightarrow> a \<noteq> b \<Longrightarrow> same_own a s (quit_effect b s)"
  using free_own [of b "wrks s" _ a] by (auto simp: sees_ring_def same_own_def quit_effect_def)

lemmas effect_defs = sees_req_def sees_res_def sees_taken_def req_effect_def res_effect_def taken_effect_def

lemma wrk_commutes:
  assumes f: "inner u" "acts (sees_req A a s) f x (req_effect q i n u a) \<or>
      acts (sees_res A a s) f x (res_effect q n' tr h A u a) \<or> acts (sees_taken r a s) f x (taken_effect r g u a)"
    and "a \<noteq> b" and "sees_ring b s" and pd: "section_lock pd = Some Wrklock"
  shows "diamond (worker_section c b pd) f s"
proof -
  note o = quit_same_own [OF assms(4,3)]
  have "pd = Stopping \<or> pd = Quitting" using pd by (cases pd) simp_all
  then show ?thesis
  proof
    assume "pd = Stopping"
    with f(2) show ?thesis
      by (auto intro!: stop_commutes simp: effect_defs proc_stop_def same_own_def)
  next
    assume pd: "pd = Quitting"
    from f(2) show ?thesis unfolding pd
    proof (elim disjE)
      assume "acts (sees_req A a s) f x (req_effect q i n u a)"
      then show "diamond (worker_section c b Quitting) f s"
        by (rule quit_commutes [where a = a and u = u]) (use o assms in \<open>simp_all add: effect_defs quit_effect_def\<close>)
    next
      assume "acts (sees_res A a s) f x (res_effect q n' tr h A u a)"
      then show "diamond (worker_section c b Quitting) f s"
        by (rule quit_commutes [where a = a and u = u]) (use o assms in \<open>simp_all add: effect_defs quit_effect_def\<close>)
    next
      assume "acts (sees_taken r a s) f x (taken_effect r g u a)"
      then show "diamond (worker_section c b Quitting) f s"
        by (rule quit_commutes [where a = a and u = u]) (use o assms in \<open>simp_all add: effect_defs quit_effect_def\<close>)
    qed
  qed
qed

text \<open>What a worker holds is in neither queue and held by no other worker.\<close>

lemma held_apart:
  assumes s: "struct_inv S rq rs" and "(a, pc) \<in> set (workers S)" and "(b, pd) \<in> set (workers S)" and "a \<noteq> b"
    and "r \<in> set (held pc)"
  shows "r \<notin> set (concat rq)" and "r \<notin> set (concat rs)" and "r \<notin> set (held pd)"
proof -
  from assms(2) obtain ws vs where w: "workers S = ws @ (a, pc) # vs" by (meson split_list)
  from assms(3,4) w have b: "(b, pd) \<in> set (ws @ vs)" by auto
  let ?h = "\<lambda>ws. concat (map (held \<circ> snd) ws)"
  have "distinct (concat rq @ concat rs @ ?h ws @ held pc @ ?h vs @ main_held (main S))"
    using struct_inv_distinct [OF s] by (simp add: holds_def w del: set_concat)
  moreover from b have "set (held pd) \<subseteq> set (?h ws) \<union> set (?h vs)" by force
  ultimately show "r \<notin> set (concat rq)" "r \<notin> set (concat rs)" "r \<notin> set (held pd)"
    using assms(5) by (simp_all only: distinct_append set_append) blast+
qed

lemma ring_seen: "struct_inv S rq rs \<Longrightarrow> (a, pc) \<in> set (workers S) \<Longrightarrow> sees_ring a (pool S)"
  using worker_free_ring [OF struct_invD(8), of S rq rs a] by (force simp: sees_ring_def)

definition lock_rank :: "wpc \<Rightarrow> nat" where
  "lock_rank pc = (case section_lock pc of None \<Rightarrow> 0 | Some Reqlock \<Rightarrow> 1 | Some Reslock \<Rightarrow> 2 | Some Wrklock \<Rightarrow> 3)"

lemma sections_diamond:
  assumes s: "struct_inv S rq rs" and a: "(a, pc) \<in> set (workers S)" and b: "(b, pd) \<in> set (workers S)" and ab: "a \<noteq> b"
    and rank: "lock_rank pc < lock_rank pd \<or> lock_rank pc = 0 \<and> lock_rank pd = 0"
    and room: "room (res_queue (pool S))" and c: "proper c" "proper d"
  shows "diamond (worker_section c a pc) (worker_section d b pd) (pool S)"
proof -
  note held = held_apart [OF s a b ab] held_apart [OF s b a ab [symmetric]]
  have dist: "set (concat rs) \<inter> set (concat rq) = {}" using struct_inv_distinct [OF s] by auto
  consider "section_lock pd = Some Wrklock" | (TT) r r' where "pc = Took r" "pd = Took r'"
    | (TR) r where "pc = Took r" "section_lock pd = Some Reqlock" | (TD) r r' where "pc = Took r" "pd = Ran r'"
    | (RD) r where "section_lock pc = Some Reqlock" "pd = Ran r"
    using rank by (cases pc; cases pd) (auto simp: lock_rank_def)
  then show ?thesis
  proof cases
    case 1
    note wrk = diamond_sym [OF wrk_commutes [OF _ _ ab ring_seen [OF s b] 1]]
    consider (T) r where "pc = Took r" | (R) "section_lock pc = Some Reqlock" | (D) r where "pc = Ran r"
      using rank 1 by (cases pc) (auto simp: lock_rank_def)
    then show ?thesis
    proof cases
      case T
      then obtain x g u where "inner u" "acts (sees_taken r a (pool S)) (worker_section c a pc) x (taken_effect r g u a)"
        using taken_acts [OF s _ c(1), of a r] a by blast
      from this(1) disjI2 [OF disjI2 [OF this(2)]] show ?thesis by (rule wrk)
    next
      case R
      from reqlock_acts [OF s a R] obtain x q i n u where "inner u"
        "acts (sees_req (set (concat rq)) a (pool S)) (worker_section c a pc) x (req_effect q i n u a)" by blast
      from this(1) disjI1 [OF this(2)] show ?thesis by (rule wrk)
    next
      case D
      let ?A = "insert r (set (concat rs))"
      from D obtain x q n tr h u where "inner u"
        "acts (sees_res ?A a (pool S)) (worker_section c a pc) x (res_effect q n tr h ?A u a)"
        using reslock_acts [OF s _ room, of a r] a by blast
      from this(1) disjI2 [OF disjI1 [OF this(2)]] show ?thesis by (rule wrk)
    qed
  next
    case TT
    from taken_acts [OF s a [unfolded TT] c(1)] taken_acts [OF s b [unfolded TT] c(2)] taken_taken [OF _ _ ab] held(3) TT
    show ?thesis by fastforce
  next
    case TR
    from taken_acts [OF s a [unfolded TR] c(1)] reqlock_acts [OF s b TR(2), of d] taken_req [OF _ _ ab] TR
    show ?thesis by metis
  next
    case TD
    from taken_acts [OF s a [unfolded TD] c(1)] reslock_acts [OF s b [unfolded TD] room, of d] TD held
      taken_res [OF _ _ ab, where A = "insert r' (set (concat rs))"]
    show ?thesis by fastforce
  next
    case RD
    have "insert r (set (concat rs)) \<inter> set (concat rq) = {}" using held(4) RD dist by simp
    with reqlock_acts [OF s a RD(1), of c] reslock_acts [OF s b [unfolded RD] room, of d] req_res [OF _ _ ab] RD
    show ?thesis by metis
  qed
qed

text \<open>C9: Any two workers whose next sections need no common lock (a worker that executes a request
  needs none) can do them in either order: both sections are defined in both orders, each has the
  same result whether it comes first or second, and the pool is the same afterwards, with the queues,
  the links of the requests, the ring of workers, the counters and the callbacks made. With the locks
  no two workers are ever in sections that do not commute.\<close>

theorem sections_commute:
  assumes "reachable wp dp S" and "(a, pc) \<in> set (workers S)" and "(b, pd) \<in> set (workers S)" and "a \<noteq> b"
    and "section_lock pc = None \<or> section_lock pc \<noteq> section_lock pd"
    and "room (res_queue (pool S))" and "proper c" and "proper d"
  shows "\<exists>x y s1 s2 s. worker_section c a pc (pool S) = Some (x, s1) \<and> worker_section d b pd s1 = Some (y, s) \<and>
    worker_section d b pd (pool S) = Some (y, s2) \<and> worker_section c a pc s2 = Some (x, s)"
proof -
  from assms(1) obtain W where "sys_inv S W" by (rule reachable_inv)
  then obtain rq rs where s: "struct_inv S rq rs" by (rule sys_invE)
  have "lock_rank pc < lock_rank pd \<or> lock_rank pc = 0 \<and> lock_rank pd = 0 \<or> lock_rank pd < lock_rank pc"
    using assms(5) by (cases pc; cases pd) (auto simp: lock_rank_def)
  then have "diamond (worker_section c a pc) (worker_section d b pd) (pool S)"
    using sections_diamond [OF s assms(2,3,4) _ assms(6,7,8)]
      diamond_sym [OF sections_diamond [OF s assms(3,2) assms(4) [symmetric] _ assms(6,8,7)]] by blast
  then show ?thesis by (simp add: diamond_def)
qed

section \<open>Two threads\<close>

text \<open>A run to two workers: one has taken a request, the other is about to take the next.\<close>

definition two_nop :: eio_req where "two_nop = zero_req\<lparr>req_type := type_code EIO_NOP\<rparr>"

definition two_own :: etp where
  "two_own = race_running\<lparr>reqs := (reqs race_running)(48 \<mapsto> two_nop)\<rparr>"

definition two_put :: etp where
  "two_put = the (put_request 48 (two_own\<lparr>reqs := (reqs two_own)(48 \<mapsto> two_nop\<lparr>pri := submit_pri (pri two_nop)\<rparr>)\<rparr>))"

definition two_running :: etp where "two_running = the (etp_maybe_start_thread (Some 24) True two_put)"
definition two_took :: etp where "two_took = snd (the (proc_shift 16 two_running))"

lemma two_steps:
  "put_request 48 (two_own\<lparr>reqs := (reqs two_own)(48 \<mapsto> two_nop\<lparr>pri := submit_pri (pri two_nop)\<rparr>)\<rparr>) = Some two_put"
  "etp_maybe_start_thread (Some 24) True two_put = Some two_running"
  "proc_shift 16 two_running = Some (Some 32, two_took)"
  subgoal unfolding two_put_def by (rule is_none_the) code_simp
  subgoal unfolding two_running_def by (rule is_none_the) code_simp
  subgoal unfolding two_took_def by (rule is_none_snd) code_simp
  done

lemma two_facts:
  "reqs race_running 48 = None" "room (req_queue two_own)" "wrks two_put 24 = None" "\<not> Option.is_none (wrks two_running 24)"
  "start_decision two_put In_submit = Some (M_create In_submit)" "room (res_queue two_took)"
  by code_simp+

lemma not_owned: "reachable wp dp S \<Longrightarrow> reqs (pool S) r = None \<Longrightarrow> r \<notin> owned S"
  by (metis reachable_inv sys_invE struct_inv_owned struct_invD(6) queued_def option.distinct(1))

lemma two_reach: "race_reach (race_at two_took [(24, At_loop), (16, Took 32)] M_client 0)"
proof -
  let ?S = "race_at race_running [(16, At_loop)] M_client 0"
  let ?own = "race_at two_own [(16, At_loop)] M_client 0"
  have new: "48 \<notin> owned ?S" using not_owned [OF race_reach_running] two_facts(1) by simp
  have alloc: "reqs race_running x \<noteq> None" if "x \<in> owned ?S" for x
    using not_owned [OF race_reach_running, of x] that by auto
  let ?h = "(reqs race_running)(48 \<mapsto> two_nop)"
  have same: "\<exists>r r'. reqs race_running x = Some r \<and> ?h x = Some r' \<and> same_req r r'" if "x \<in> owned ?S" for x
  proof -
    from alloc [OF that] new that obtain r where "reqs race_running x = Some r" "x \<noteq> 48" by auto
    then show ?thesis by (simp add: same_req_def)
  qed
  have "two_own = race_running\<lparr>reqs := ?h, wanted := wanted race_running, max_idle := max_idle race_running,
      idle_timeout := idle_timeout race_running, max_poll_reqs := max_poll_reqs race_running,
      max_poll_time := max_poll_time race_running, trace := trace race_running\<rparr>"
    unfolding two_own_def by (rule etp.equality) simp_all
  with same have "client_step (owned ?S) race_running two_own"
    unfolding client_step_def using quiet_ext_refl by blast
  from reach_step [OF race_reach_running step.client] this have own: "race_reach ?own" by simp
  have "owned ?own = owned ?S"
  proof -
    from race_reach_running obtain W rq rs where s: "struct_inv ?S rq rs" by (meson reachable_inv sys_invE)
    note q = queued_members [OF s]
    from new have "48 \<notin> set (concat rq)" "48 \<notin> set (concat rs)" unfolding owned_def q by (simp_all del: set_concat)
    then have "reqq_rep (reqs two_own) (req_queue race_running) rq" "reqq_rep (reqs two_own) (res_queue race_running) rs"
      using reqq_rep_frame [OF struct_invD(1) [OF s]] reqq_rep_frame [OF struct_invD(2) [OF s]]
      by (simp_all add: two_own_def del: set_concat)
    from this [THEN queue_members_eq] q show ?thesis by (simp add: owned_def two_own_def del: set_concat)
  qed
  with new have "48 \<notin> owned ?own" by simp
  from reach_step [OF own step.submit [OF _ this]] two_facts(2) two_steps(1)
  have put: "race_reach (race_at two_put [(16, At_loop)] (M_start In_submit) 0)"
    by (simp add: two_own_def two_nop_def zero_req_def type_code_def eio_types_def)
  from runs_decision [of "race_at two_put [(16, At_loop)] (M_start In_submit) 0"] two_facts(5) runs_reachable [OF _ put]
  have "race_reach (race_at two_put [(16, At_loop)] (M_create In_submit) 0)" by fastforce
  moreover have "etp_start_thread (Some 24) True two_put = Some two_running"
    using two_steps(2) two_facts(5) unfolding maybe_start_sections [of _ _ _ In_submit] by simp
  ultimately have "race_reach (race_at two_running [(24, At_loop), (16, At_loop)] M_client 0)"
    using reach_step [OF _ step.create [where wrk = 24 and created = True and s' = two_running]] two_facts(3,4)
    by (fastforce simp: wrk_first_def split: if_splits)
  from reach_step [OF this step.shift [where ws = "[(24, At_loop)]" and self = 16 and req = "Some 32"]] two_steps(3)
  show ?thesis by (simp add: next_pc_def)
qed

theorem sections_commute_witness:
  "\<exists>x y s1 s2 s. worker_section \<lparr>late = False, executed = result_update (\<lambda>_. 5), dbuf_after = 7, dirp_after = 0\<rparr> 16 (Took 32) two_took =
      Some (x, s1) \<and> worker_section \<lparr>late = False, executed = id, dbuf_after = 0, dirp_after = 0\<rparr> 24 At_loop s1 = Some (y, s) \<and>
    worker_section \<lparr>late = False, executed = id, dbuf_after = 0, dirp_after = 0\<rparr> 24 At_loop two_took = Some (y, s2) \<and>
    worker_section \<lparr>late = False, executed = result_update (\<lambda>_. 5), dbuf_after = 7, dirp_after = 0\<rparr> 16 (Took 32) s2 = Some (x, s)"
  using sections_commute [OF two_reach, of 16 "Took 32" 24 At_loop
      "\<lparr>late = False, executed = result_update (\<lambda>_. 5), dbuf_after = 7, dirp_after = 0\<rparr>"
      "\<lparr>late = False, executed = id, dbuf_after = 0, dirp_after = 0\<rparr>"] two_facts(6)
  by (simp add: proper_def same_req_def)

end
