(* ===== verification/Eio_Time.thy ===== *)
theory Eio_Time
  imports Eio_Req "HOL-Library.Log_Nat"
begin

text \<open>
  The \<open>double\<close> arithmetic of \<open>src/libeio/eio.c\<close>: the times of \<open>EIO_BUSY\<close>, \<open>EIO_UTIME\<close> and
  \<open>EIO_FUTIME\<close> are split into a \<open>struct timeval\<close>, and \<open>etp_set_max_poll_time\<close> scales a number of
  seconds to ticks. A \<open>double\<close> is its 64-bit IEEE 754 representation; multiplication rounds to the
  nearest double, ties to even. A conversion to an integer type that cannot hold the truncated
  value is undefined.
\<close>

section \<open>Doubles\<close>

text \<open>Sign, significand and exponent: the value is \<open>m * 2 ^ (e - 1075)\<close>; infinities and NaN have
  none.\<close>

definition dbl_neg :: "64 word \<Rightarrow> bool" where
  "dbl_neg d \<longleftrightarrow> bit d 63"

definition dbl_exp :: "64 word \<Rightarrow> int" where
  "dbl_exp d = take_bit 11 (drop_bit 52 (uint d))"

definition dbl_frac :: "64 word \<Rightarrow> int" where
  "dbl_frac d = take_bit 52 (uint d)"

definition dbl_finite :: "64 word \<Rightarrow> bool" where
  "dbl_finite d \<longleftrightarrow> dbl_exp d \<noteq> 2047"

definition dbl_signif :: "64 word \<Rightarrow> int" where
  "dbl_signif d = (if dbl_exp d = 0 then dbl_frac d else dbl_frac d + 2 ^ 52)"

definition dbl_scale :: "64 word \<Rightarrow> int" where
  "dbl_scale d = (if dbl_exp d = 0 then 1 else dbl_exp d)"

text \<open>A number \<open>n * 2 ^ (e - 1075)\<close> truncated, and the part of \<open>n\<close> that is cut off.\<close>

definition trunc_at :: "int \<Rightarrow> int \<Rightarrow> int" where
  "trunc_at e n = (if 1075 \<le> e then push_bit (nat (e - 1075)) n else drop_bit (nat (1075 - e)) n)"

definition frac_at :: "int \<Rightarrow> int \<Rightarrow> int" where
  "frac_at e n = (if 1075 \<le> e then 0 else take_bit (nat (1075 - e)) n)"

definition signed_by :: "64 word \<Rightarrow> int \<Rightarrow> int" where
  "signed_by d n = (if dbl_neg d then - n else n)"

text \<open>Rounding: \<open>p\<close> divided by \<open>2 ^ k\<close>, to the nearest integer, ties to even; and a significand
  to 53 bits, at the same scale.\<close>

definition round_even :: "int \<Rightarrow> nat \<Rightarrow> int" where
  "round_even p k =
     (let q = drop_bit k p; r = take_bit k p
      in if 2 * r > 2 ^ k \<or> 2 * r = 2 ^ k \<and> odd q then q + 1 else q)"

definition round53 :: "int \<Rightarrow> int" where
  "round53 p = (let k = nat (bitlen p - 53) in push_bit k (round_even p k))"

section \<open>Conversions\<close>

text \<open>To a 64-bit signed integer type (\<open>time_t\<close>, \<open>long\<close>, \<open>jlong\<close>).\<close>

definition long_chk :: "int \<Rightarrow> int option" where
  "long_chk i = (if - (2 ^ 63) \<le> i \<and> i < 2 ^ 63 then Some i else None)"

definition dbl_to_long :: "64 word \<Rightarrow> int option" where
  "dbl_to_long d =
     (if dbl_finite d then long_chk (signed_by d (trunc_at (dbl_scale d) (dbl_signif d))) else None)"

text \<open>\<open>tv_sec = d\<close> and \<open>tv_usec = (d - tv_sec) * 1e6\<close>: the difference is exact.\<close>

definition dbl_to_timeval :: "64 word \<Rightarrow> (int \<times> int) option" where
  "dbl_to_timeval d = do {
     sec \<leftarrow> dbl_to_long d;
     (let f = frac_at (dbl_scale d) (dbl_signif d)
      in Some (sec, signed_by d (trunc_at (dbl_scale d) (round53 (f * 1000000))))) }"

text \<open>\<open>d * k\<close> for a small integer, converted to \<open>unsigned int\<close>.\<close>

definition dbl_scaled_unsigned :: "64 word \<Rightarrow> int \<Rightarrow> 32 word option" where
  "dbl_scaled_unsigned d k =
     (if dbl_finite d then
        let v = signed_by d (trunc_at (dbl_scale d) (round53 (dbl_signif d * k)))
        in if 0 \<le> v \<and> v < 2 ^ 32 then Some (word_of_int v) else None
      else None)"

text \<open>From an integer of at most 64 bits.\<close>

definition dbl_of_int :: "int \<Rightarrow> 64 word" where
  "dbl_of_int i =
     (let n = \<bar>i\<bar>; q = round53 n; l = bitlen q
      in if n = 0 then 0
         else (if i < 0 then 2 ^ 63 else 0) +
              word_of_int ((1022 + l) * 2 ^ 52 + (drop_bit (nat (l - 53)) (push_bit (nat (53 - l)) q) - 2 ^ 52)))"

text \<open>\<open>nv1 != -1.\<close> of the \<open>EIO_UTIME\<close> branch: no other representation equals \<open>-1.\<close>.\<close>

definition dbl_minus_one :: "64 word" where
  "dbl_minus_one = 0xBFF0000000000000"

section \<open>Rounding\<close>

lemma round_even_less:
  assumes "2 * p + 2 ^ k < 2 * (M * 2 ^ k)"
  shows "round_even p k < M"
proof -
  let ?q = "drop_bit k p" and ?r = "take_bit k p"
  have p: "p = ?q * 2 ^ k + ?r"
    unfolding drop_bit_eq_div take_bit_eq_mod by (rule div_mult_mod_eq [symmetric])
  have r: "0 \<le> ?r" "(0 :: int) < 2 ^ k" by simp_all
  show ?thesis
  proof (cases "2 * ?r < 2 ^ k")
    case True
    have "2 * (?q * 2 ^ k) < 2 * (M * 2 ^ k)" using assms p r by linarith
    then have "?q < M" by simp
    with True show ?thesis by (simp add: round_even_def Let_def)
  next
    case False
    have "2 * (?q * 2 ^ k) + 2 * 2 ^ k < 2 * (M * 2 ^ k)" using assms p False by linarith
    then have "2 * ((?q + 1) * 2 ^ k) < 2 * (M * 2 ^ k)" by (simp add: algebra_simps)
    then have "?q + 1 < M" by (simp only: mult_less_cancel_left_pos mult_less_cancel_right_pos zero_less_power zero_less_numeral)
    then show ?thesis by (simp add: round_even_def Let_def)
  qed
qed

lemma round_even_nonneg: "0 \<le> p \<Longrightarrow> 0 \<le> round_even p k"
  by (simp add: round_even_def Let_def drop_bit_nonnegative_int_iff)

lemma round53_nonneg: "0 \<le> p \<Longrightarrow> 0 \<le> round53 p"
  by (simp add: round53_def Let_def round_even_nonneg)

text \<open>A fraction of \<open>n\<close> bits times a million does not round up to a million.\<close>

lemma round53_million:
  assumes f: "0 \<le> f" "f < 2 ^ n" "f < 2 ^ 53"
  shows "round53 (f * 1000000) < 1000000 * 2 ^ n"
proof -
  let ?p = "f * 1000000" define k where "k = nat (bitlen ?p - 53)"
  have "?p < 2 ^ (53 + 20)" using f by simp
  then have "bitlen ?p \<le> 73" using bitlen_le_iff_power [of ?p 73] by simp
  then have k20: "k \<le> 20" by (simp add: k_def)
  then have "(2 :: int) ^ k \<le> 2 ^ 20" by (intro power_increasing) simp_all
  have "?p < 2 ^ (n + 20)" using f by (simp add: power_add)
  then have "bitlen ?p \<le> int (n + 20)" unfolding bitlen_le_iff_power nat_int by simp
  then have kn: "k \<le> n" by (simp add: k_def)
  have M: "(1000000 * 2 ^ (n - k)) * 2 ^ k = (1000000 * 2 ^ n :: int)"
    using kn by (simp flip: power_add)
  have "2 * ?p + 2 ^ k < 2 * ((1000000 * 2 ^ (n - k)) * 2 ^ k)"
    unfolding M using f \<open>2 ^ k \<le> 2 ^ 20\<close> by simp
  from round_even_less [OF this] have "round_even ?p k * 2 ^ k < (1000000 * 2 ^ (n - k)) * 2 ^ k"
    by simp
  then show ?thesis unfolding M by (simp add: round53_def Let_def k_def push_bit_eq_mult)
qed

lemma div_less_pow2: "(x :: int) < m * 2 ^ n \<Longrightarrow> x div 2 ^ n < m"
proof (rule ccontr)
  assume "x < m * 2 ^ n" and "\<not> x div 2 ^ n < m"
  then have "m * 2 ^ n \<le> x div 2 ^ n * 2 ^ n" by (intro mult_right_mono) simp_all
  also have "\<dots> \<le> x" using div_mult_mod_eq [of x "2 ^ n"] pos_mod_sign [of "2 ^ n" x]
    by (metis le_add_same_cancel1 zero_less_numeral zero_less_power)
  finally show False using \<open>x < m * 2 ^ n\<close> by simp
qed

lemma dbl_signif_bounds: "0 \<le> dbl_signif d" "dbl_signif d < 2 ^ 53"
proof -
  have "0 \<le> dbl_frac d" "dbl_frac d < 2 ^ 52"
    using take_bit_int_less_exp [of 52 "uint d"] by (simp_all add: dbl_frac_def)
  then show "0 \<le> dbl_signif d" "dbl_signif d < 2 ^ 53" by (simp_all add: dbl_signif_def)
qed

lemma usec_bounds:
  assumes "dbl_to_timeval d = Some (sec, usec)"
  shows "\<bar>usec\<bar> < 1000000" "if dbl_neg d then usec \<le> 0 else 0 \<le> usec"
proof -
  let ?e = "dbl_scale d"
  define n f where "n = nat (1075 - ?e)" and "f = frac_at ?e (dbl_signif d)"
  define u where "u = trunc_at ?e (round53 (f * 1000000))"
  have usec: "usec = signed_by d u"
    using assms by (auto simp: dbl_to_timeval_def Let_def u_def f_def split: bind_splits)
  have f: "0 \<le> f" "f < 2 ^ 53" "f < 2 ^ n"
    using dbl_signif_bounds [of d] take_bit_nonnegative [of n "dbl_signif d"]
      take_bit_int_less_exp [of n "dbl_signif d"]
      take_bit_int_less_eq_self_iff [of n "dbl_signif d"]
    by (auto simp add: f_def n_def frac_at_def)
  have "0 \<le> u \<and> u < 1000000"
  proof (cases "1075 \<le> ?e")
    case True
    then have "f = 0" by (simp add: f_def frac_at_def)
    then show ?thesis by (simp add: u_def round53_def round_even_def trunc_at_def Let_def)
  next
    case False
    have "u = round53 (f * 1000000) div 2 ^ n"
      using False by (simp add: u_def trunc_at_def n_def drop_bit_eq_div)
    moreover have "round53 (f * 1000000) < 1000000 * 2 ^ n" using f by (intro round53_million)
    moreover have "0 \<le> round53 (f * 1000000)" using f by (intro round53_nonneg) simp
    ultimately show ?thesis
      by (simp add: div_less_pow2 pos_imp_zdiv_nonneg_iff)
  qed
  then show "\<bar>usec\<bar> < 1000000" "if dbl_neg d then usec \<le> 0 else 0 \<le> usec"
    by (simp_all add: usec signed_by_def)
qed

section \<open>Integers as doubles\<close>

text \<open>A double built from its three fields.\<close>

lemma dbl_fields:
  assumes "0 \<le> e" "e < 2048" "0 \<le> m" "m < 2 ^ 52"
    and w: "w = (if s then 2 ^ 63 else 0) + word_of_int (e * 2 ^ 52 + m)"
  shows "dbl_neg w = s" "dbl_exp w = e" "dbl_frac w = m"
proof -
  define b where "b = (of_bool s :: int)"
  define x where "x = (b * 2048 + e) * 2 ^ 52 + m"
  have b: "0 \<le> b" "b \<le> 1" by (simp_all add: b_def)
  have "x < 2 ^ 64" "0 \<le> x" using assms(1-4) b by (auto simp: x_def)
  moreover have "w = word_of_int x"
    by (simp add: w x_def b_def algebra_simps)
  ultimately have u: "uint w = x" by (simp add: uint_word_of_int)
  have d: "x div 2 ^ 52 = b * 2048 + e" "x mod 2 ^ 52 = m"
    using assms(1-4) by (simp_all add: x_def del: distrib_right_numeral mult.assoc power_numeral)
  show "dbl_exp w = e"
    using d(1) assms(1,2) by (simp add: dbl_exp_def u drop_bit_eq_div take_bit_eq_mod)
  show "dbl_frac w = m" using d(2) by (simp add: dbl_frac_def u take_bit_eq_mod)
  have "x div 2 ^ 63 = (x div 2 ^ 52) div 2048" by (simp add: zdiv_zmult2_eq [symmetric])
  then have "x div 2 ^ 63 = b" using d(1) assms(1,2) by simp
  moreover have "bit w 63 = bit (uint w) 63" by (simp add: bit_uint_iff)
  then have "bit w 63 = odd (x div 2 ^ 63)" unfolding u by (simp add: bit_iff_odd)
  ultimately show "dbl_neg w = s" by (simp add: dbl_neg_def b_def)
qed

lemma dbl_of_int_exact:
  assumes "\<bar>i\<bar> < 2 ^ 53"
  shows "dbl_to_long (dbl_of_int i) = Some i"
proof (cases "i = 0")
  case True
  then show ?thesis
    by (simp add: dbl_of_int_def dbl_to_long_def dbl_finite_def dbl_exp_def dbl_signif_def dbl_frac_def
        signed_by_def trunc_at_def long_chk_def)
next
  case False
  define n l where "n = \<bar>i\<bar>" and "l = bitlen n"
  have n: "0 < n" "n < 2 ^ 53" using assms False by (simp_all add: n_def)
  have l: "1 \<le> l" "l \<le> 53" "2 ^ nat (l - 1) \<le> n" "n < 2 ^ nat l"
    using n bitlen_le_iff_power [of n 53] bitlen_ge_iff_power [of 1 n] bitlen_bounds [of n]
    by (simp_all add: l_def)
  define m where "m = n * 2 ^ nat (53 - l)"
  have "2 ^ nat (l - 1) * 2 ^ nat (53 - l) = (2 ^ 52 :: int)"
    using l by (simp flip: power_add nat_add_distrib)
  moreover have "2 ^ nat l * 2 ^ nat (53 - l) = (2 ^ 53 :: int)"
    using l by (simp flip: power_add nat_add_distrib)
  ultimately have m: "2 ^ 52 \<le> m" "m < 2 ^ 53"
    using l mult_right_mono [OF l(3), of "2 ^ nat (53 - l)"] mult_strict_right_mono [OF l(4), of "2 ^ nat (53 - l)"]
    by (simp_all add: m_def)
  have "round53 n = n"
    using l by (simp add: round53_def round_even_def Let_def flip: l_def)
  then have w: "dbl_of_int i = (if i < 0 then 2 ^ 63 else 0) + word_of_int ((1022 + l) * 2 ^ 52 + (m - 2 ^ 52))"
    using n(1) l by (simp add: dbl_of_int_def Let_def push_bit_eq_mult m_def flip: n_def l_def)
  have fields: "dbl_neg (dbl_of_int i) = (i < 0)" "dbl_exp (dbl_of_int i) = 1022 + l"
    "dbl_frac (dbl_of_int i) = m - 2 ^ 52"
    using dbl_fields [OF _ _ _ _ w] l m by simp_all
  have "trunc_at (1022 + l) m = n"
    using l by (simp add: trunc_at_def m_def drop_bit_eq_div)
  then have "signed_by (dbl_of_int i) (trunc_at (dbl_scale (dbl_of_int i)) (dbl_signif (dbl_of_int i))) = i"
    using fields l by (simp add: signed_by_def dbl_scale_def dbl_signif_def n_def)
  moreover have "long_chk i = Some i" using assms by (auto simp: long_chk_def abs_less_iff)
  ultimately show ?thesis
    using fields l by (simp add: dbl_to_long_def dbl_finite_def)
qed

section \<open>Property\<close>

text \<open>Whenever a time is split at all, the microseconds stay below a million, however the
  multiplication rounds; they are not negative for a time that is not, and not positive for a
  negative time, where \<open>utimes\<close> and \<open>select\<close> refuse them.\<close>

theorem timeval_in_range:
  assumes "dbl_to_timeval d = Some (sec, usec)"
  shows "- 1000000 < usec \<and> usec < 1000000 \<and> (if dbl_neg d then usec \<le> 0 else 0 \<le> usec)"
  using usec_bounds [OF assms] by (auto simp: abs_less_iff)

text \<open>The largest double below 1, and minus one half.\<close>

theorem timeval_in_range_witness:
  "dbl_to_timeval 0x3FEFFFFFFFFFFFFF = Some (0, 999999) \<and> (999999 :: int) < 1000000 \<and>
    dbl_to_timeval 0xBFE0000000000000 = Some (0, - 500000)"
proof -
  have 1: "dbl_to_timeval 0x3FEFFFFFFFFFFFFF = Some (0, 999999)" by code_simp
  have 2: "dbl_to_timeval 0xBFE0000000000000 = Some (0, - 500000)" by code_simp
  show ?thesis using 1 2 timeval_in_range [OF 1] by simp
qed

end
