(* ===== verification/Eio_Emul.thy ===== *)
theory Eio_Emul
  imports Eio_Time Dent_Scandir
begin

text \<open>
  The functions of \<open>src/libeio/eio.c\<close> between a request and the system calls: the emulations of
  missing calls (\<open>pread\<close>, \<open>utimes\<close>, \<open>readahead\<close>, \<open>sync_file_range\<close>, \<open>sendfile\<close>), the page
  arithmetic of \<open>eio__mlock\<close>, \<open>eio__msync\<close> and \<open>eio__mtouch\<close>, and their flag translations.

  The operating system is a parameter: a function \<open>kernel\<close> from a system call and the machine state
  to its result and the new state. What \<open>configure\<close> and the system headers decide is a record
  \<open>platform\<close>. The errno codes are those of Linux.
\<close>

section \<open>The machine\<close>

type_synonym timeval = "int \<times> int"

datatype fd_call =
  K_read int "64 word" "64 word"
| K_write int "64 word" "64 word"
| K_pread int "64 word" "64 word" int
| K_pwrite int "64 word" "64 word" int
| K_lseek_cur int int
| K_lseek_set int int
| K_readahead int int "64 word"
| K_sendfile int int int "64 word"
| K_ftruncate int int
| K_close int
| K_dup2 int int
| K_sync
| K_fsync int
| K_fdatasync int
| K_sync_file_range int int "64 word" "32 word"

datatype path_call =
  K_open "64 word" int "32 word"
| K_unlink "64 word"
| K_rmdir "64 word"
| K_mkdir "64 word" "32 word"
| K_rename "64 word" "64 word"
| K_link "64 word" "64 word"
| K_symlink "64 word" "64 word"
| K_mknod "64 word" "32 word" "64 word"
| K_readlink "64 word" "64 word" "64 word"
| K_truncate "64 word" int

datatype stat_call =
  K_stat "64 word" "64 word"
| K_lstat "64 word" "64 word"
| K_fstat int "64 word"
| K_statvfs "64 word" "64 word"
| K_fstatvfs int "64 word"
| K_chown "64 word" "32 word" "32 word"
| K_fchown int "32 word" "32 word"
| K_chmod "64 word" "32 word"
| K_fchmod int "32 word"
| K_utime "64 word" "(int \<times> int) option"
| K_utimes "64 word" "(timeval \<times> timeval) option"
| K_futimes int "(timeval \<times> timeval) option"

text \<open>\<open>K_touch\<close> reads a word of memory or, with \<^term>\<open>True\<close>, writes it back unchanged.\<close>

datatype mem_call =
  K_msync "64 word" "64 word" int
| K_mlock "64 word" "64 word"
| K_mlockall int
| K_select timeval
| K_touch "64 word" bool

datatype syscall = Fd fd_call | Path path_call | Meta stat_call | Mem mem_call

text \<open>The state of an executing thread: its \<open>errno\<close>, its worker's \<open>dbuf\<close> and \<open>dirp\<close>, and the rest.\<close>

record 'w mach =
  m_errno :: int
  m_dbuf :: "64 word"
  m_dirp :: "64 word"
  m_os :: 'w

text \<open>The variants of \<open>sendfile\<close> the code knows.\<close>

datatype sendfile_api = SF_linux | SF_freebsd | SF_apple | SF_hpux | SF_solaris

record platform =
  have_preadwrite :: bool
  have_readahead :: bool
  have_sendfile :: "sendfile_api option"
  have_sync_file_range :: bool
  have_utimes :: bool
  have_futimes :: bool
  have_fdatasync :: bool
  posix_memlock :: bool
  posix_memlock_range :: bool
  posix_msync :: bool
  page :: "64 word"
  mcl_current :: int
  mcl_future :: int
  ms_async :: int
  ms_invalidate :: int
  ms_sync :: int
  sfr_wait_before :: "32 word"
  sfr_write :: "32 word"
  sfr_wait_after :: "32 word"
  sizeof_stat :: "64 word"
  sizeof_statvfs :: "64 word"
  path_max :: "64 word"

record 'w libc =
  plat :: platform
  kernel :: "syscall \<Rightarrow> 'w mach \<Rightarrow> int \<times> 'w mach"
  malloc :: "64 word \<Rightarrow> 'w mach \<Rightarrow> 64 word \<times> 'w mach"
  sent_bytes :: "syscall \<Rightarrow> 'w mach \<Rightarrow> int"  \<comment> \<open>what such a call leaves in \<open>*sbytes\<close>\<close>

definition ENOSYS :: int where "ENOSYS = 38"
definition EINVAL :: int where "EINVAL = 22"
definition ENOTSOCK :: int where "ENOTSOCK = 88"
definition EOPNOTSUPP :: int where "EOPNOTSUPP = 95"
definition EPROTOTYPE :: int where "EPROTOTYPE = 91"
definition EAFNOSUPPORT :: int where "EAFNOSUPPORT = 97"

lemmas errno_defs = EPROTOTYPE_def EAFNOSUPPORT_def ENOMEM_def ENOSYS_def EINVAL_def ENOTSOCK_def EOPNOTSUPP_def

definition no_such_call :: "'w mach \<Rightarrow> int \<times> 'w mach" where
  "no_such_call m = (- 1, m\<lparr>m_errno := ENOSYS\<rparr>)"

section \<open>pread and pwrite\<close>

definition eio__pread :: "'w libc \<Rightarrow> int \<Rightarrow> 64 word \<Rightarrow> 64 word \<Rightarrow> int \<Rightarrow> 'w mach \<Rightarrow> int \<times> 'w mach" where
  "eio__pread L fd buf nbytes offset m =
     (let (ooffset, m) = kernel L (Fd (K_lseek_cur fd 0)) m;
          (_, m) = kernel L (Fd (K_lseek_set fd offset)) m;
          (res, m) = kernel L (Fd (K_read fd buf nbytes)) m;
          (_, m) = kernel L (Fd (K_lseek_set fd ooffset)) m
      in (res, m))"

definition eio__pwrite :: "'w libc \<Rightarrow> int \<Rightarrow> 64 word \<Rightarrow> 64 word \<Rightarrow> int \<Rightarrow> 'w mach \<Rightarrow> int \<times> 'w mach" where
  "eio__pwrite L fd buf nbytes offset m =
     (let (ooffset, m) = kernel L (Fd (K_lseek_cur fd 0)) m;
          (_, m) = kernel L (Fd (K_lseek_set fd offset)) m;
          (res, m) = kernel L (Fd (K_write fd buf nbytes)) m;
          (_, m) = kernel L (Fd (K_lseek_set fd ooffset)) m
      in (res, m))"

text \<open>What the names mean behind the \<open>#define\<close>s.\<close>

definition pread :: "'w libc \<Rightarrow> int \<Rightarrow> 64 word \<Rightarrow> 64 word \<Rightarrow> int \<Rightarrow> 'w mach \<Rightarrow> int \<times> 'w mach" where
  "pread L fd buf nbytes offset =
     (if have_preadwrite (plat L) then kernel L (Fd (K_pread fd buf nbytes offset))
      else eio__pread L fd buf nbytes offset)"

definition pwrite :: "'w libc \<Rightarrow> int \<Rightarrow> 64 word \<Rightarrow> 64 word \<Rightarrow> int \<Rightarrow> 'w mach \<Rightarrow> int \<times> 'w mach" where
  "pwrite L fd buf nbytes offset =
     (if have_preadwrite (plat L) then kernel L (Fd (K_pwrite fd buf nbytes offset))
      else eio__pwrite L fd buf nbytes offset)"

section \<open>utimes, futimes, fdatasync\<close>

definition eio__utimes :: "'w libc \<Rightarrow> 64 word \<Rightarrow> (timeval \<times> timeval) option \<Rightarrow> 'w mach \<Rightarrow> int \<times> 'w mach" where
  "eio__utimes L filename tvs =
     (case tvs of
        Some (t0, t1) \<Rightarrow> kernel L (Meta (K_utime filename (Some (fst t0, fst t1))))
      | None \<Rightarrow> kernel L (Meta (K_utime filename None)))"

definition utimes :: "'w libc \<Rightarrow> 64 word \<Rightarrow> (timeval \<times> timeval) option \<Rightarrow> 'w mach \<Rightarrow> int \<times> 'w mach" where
  "utimes L path tvs =
     (if have_utimes (plat L) then kernel L (Meta (K_utimes path tvs)) else eio__utimes L path tvs)"

definition eio__futimes :: "int \<Rightarrow> (timeval \<times> timeval) option \<Rightarrow> 'w mach \<Rightarrow> int \<times> 'w mach" where
  "eio__futimes fd tv = no_such_call"

definition futimes :: "'w libc \<Rightarrow> int \<Rightarrow> (timeval \<times> timeval) option \<Rightarrow> 'w mach \<Rightarrow> int \<times> 'w mach" where
  "futimes L fd tvs =
     (if have_futimes (plat L) then kernel L (Meta (K_futimes fd tvs)) else eio__futimes fd tvs)"

definition fdatasync :: "'w libc \<Rightarrow> int \<Rightarrow> 'w mach \<Rightarrow> int \<times> 'w mach" where
  "fdatasync L fd = kernel L (Fd (if have_fdatasync (plat L) then K_fdatasync fd else K_fsync fd))"

section \<open>sync\_file\_range\<close>

definition EIO_SYNC_FILE_RANGE_WAIT_BEFORE :: "32 word" where "EIO_SYNC_FILE_RANGE_WAIT_BEFORE = 1"
definition EIO_SYNC_FILE_RANGE_WRITE :: "32 word" where "EIO_SYNC_FILE_RANGE_WRITE = 2"
definition EIO_SYNC_FILE_RANGE_WAIT_AFTER :: "32 word" where "EIO_SYNC_FILE_RANGE_WAIT_AFTER = 4"

lemmas sfr_defs = EIO_SYNC_FILE_RANGE_WAIT_BEFORE_def EIO_SYNC_FILE_RANGE_WRITE_def
  EIO_SYNC_FILE_RANGE_WAIT_AFTER_def

definition sync_flags :: "platform \<Rightarrow> 32 word \<Rightarrow> 32 word" where
  "sync_flags p fl =
     (if EIO_SYNC_FILE_RANGE_WAIT_BEFORE \<noteq> sfr_wait_before p \<or>
         EIO_SYNC_FILE_RANGE_WRITE \<noteq> sfr_write p \<or>
         EIO_SYNC_FILE_RANGE_WAIT_AFTER \<noteq> sfr_wait_after p
      then 0 OR (if fl AND EIO_SYNC_FILE_RANGE_WAIT_BEFORE \<noteq> 0 then sfr_wait_before p else 0)
             OR (if fl AND EIO_SYNC_FILE_RANGE_WRITE \<noteq> 0 then sfr_write p else 0)
             OR (if fl AND EIO_SYNC_FILE_RANGE_WAIT_AFTER \<noteq> 0 then sfr_wait_after p else 0)
      else fl)"

definition eio__sync_file_range ::
  "'w libc \<Rightarrow> int \<Rightarrow> int \<Rightarrow> 64 word \<Rightarrow> 32 word \<Rightarrow> 'w mach \<Rightarrow> int \<times> 'w mach" where
  "eio__sync_file_range L fd offset nbytes fl m =
     (if have_sync_file_range (plat L) then
        case kernel L (Fd (K_sync_file_range fd offset nbytes (sync_flags (plat L) fl))) m of (res, m) \<Rightarrow>
          if res = 0 \<or> m_errno m \<noteq> ENOSYS then (res, m) else fdatasync L fd m
      else fdatasync L fd m)"

section \<open>readahead\<close>

definition EIO_BUFSIZE :: "64 word" where "EIO_BUFSIZE = 65536"

text \<open>\<open>dBUF\<close>: the buffer is registered with the worker; a null pointer makes the function return -1.\<close>

definition dBUF :: "'w libc \<Rightarrow> 'w mach \<Rightarrow> 64 word \<times> 'w mach" where
  "dBUF L m = (case malloc L EIO_BUFSIZE m of (p, m) \<Rightarrow> (p, m\<lparr>m_dbuf := p, m_errno := ENOMEM\<rparr>))"

text \<open>\<open>offset += len\<close> adds a \<open>size_t\<close> to an \<open>off_t\<close>: an unsigned addition, converted back.\<close>

definition off_add :: "int \<Rightarrow> 64 word \<Rightarrow> int" where
  "off_add offset len = sint (word_of_int offset + len)"

function readahead_loop ::
  "'w libc \<Rightarrow> int \<Rightarrow> 64 word \<Rightarrow> int \<Rightarrow> 64 word \<Rightarrow> 'w mach \<Rightarrow> 'w mach" where
  "readahead_loop L fd buf offset todo m =
     (if todo > 0 then
        let len = (if todo < EIO_BUFSIZE then todo else EIO_BUFSIZE);
            (_, m) = pread L fd buf len offset m
        in readahead_loop L fd buf (off_add offset len) (todo - len) m
      else m)"
  by pat_completeness auto
termination
proof (relation "measure (\<lambda>(L, fd, buf, offset, todo, m). unat todo)", goal_cases)
  case (2 L fd buf offset todo m len)
  then have "0 < len" "len \<le> todo" by (auto simp: EIO_BUFSIZE_def not_less split: if_splits)
  then show ?case by (simp add: unat_sub word_less_nat_alt word_le_nat_alt)
qed simp

definition eio__readahead :: "'w libc \<Rightarrow> int \<Rightarrow> int \<Rightarrow> 64 word \<Rightarrow> 'w mach \<Rightarrow> int \<times> 'w mach" where
  "eio__readahead L fd offset nbytes m =
     (case dBUF L m of (buf, m) \<Rightarrow>
        if buf = 0 then (- 1, m)
        else (sint nbytes, (readahead_loop L fd buf offset nbytes m)\<lparr>m_errno := 0\<rparr>))"

definition readahead :: "'w libc \<Rightarrow> int \<Rightarrow> int \<Rightarrow> 64 word \<Rightarrow> 'w mach \<Rightarrow> int \<times> 'w mach" where
  "readahead L fd offset nbytes =
     (if have_readahead (plat L) then kernel L (Fd (K_readahead fd offset nbytes))
      else eio__readahead L fd offset nbytes)"

section \<open>sendfile\<close>

text \<open>The emulation copies through the buffer until the count is used up, the input ends or a call
  fails. The additions to \<open>offset\<close> and \<open>res\<close> are signed.\<close>

partial_function (option) sendfile_loop ::
  "'w libc \<Rightarrow> int \<Rightarrow> int \<Rightarrow> 64 word \<Rightarrow> int \<Rightarrow> 64 word \<Rightarrow> int \<Rightarrow> 'w mach \<Rightarrow> (int \<times> 'w mach) option" where
  "sendfile_loop L ofd ifd buf offset todo res m =
     (if todo = 0 then Some (res, m)
      else case pread L ifd buf (if todo > EIO_BUFSIZE then EIO_BUFSIZE else todo) offset m of (cnt, m) \<Rightarrow>
        if cnt \<le> 0 then Some (if cnt \<noteq> 0 \<and> res = 0 then - 1 else res, m)
        else case kernel L (Fd (K_write ofd buf (word_of_int cnt))) m of (cnt, m) \<Rightarrow>
          if cnt \<le> 0 then Some (if cnt \<noteq> 0 \<and> res = 0 then - 1 else res, m)
          else do {
            offset \<leftarrow> long_chk (offset + cnt);
            res \<leftarrow> long_chk (res + cnt);
            sendfile_loop L ofd ifd buf offset (todo - word_of_int cnt) res m })"

text \<open>
  The call itself, or \<open>ENOSYS\<close> without one. The BSD calls and Solaris report the bytes sent apart from
  the result. \<open>ENOTSUP\<close> and \<open>EOPNOTSUPP\<close> are one number on Linux.
\<close>

definition sendfile_call :: "'w libc \<Rightarrow> int \<Rightarrow> int \<Rightarrow> int \<Rightarrow> 64 word \<Rightarrow> 'w mach \<Rightarrow> int \<times> 'w mach" where
  "sendfile_call L ofd ifd offset todo m =
     (let call = Fd (K_sendfile ofd ifd offset todo);
          out = kernel L call m;
          sbytes = sent_bytes L call m
      in case have_sendfile (plat L) of
           None \<Rightarrow> no_such_call m
         | Some SF_linux \<Rightarrow> out
         | Some SF_freebsd \<Rightarrow> (if sbytes \<noteq> 0 then sbytes else fst out, snd out)
         | Some SF_apple \<Rightarrow> (if sbytes \<noteq> 0 then sbytes else fst out, snd out)
         | Some SF_hpux \<Rightarrow> out
         | Some SF_solaris \<Rightarrow> (if fst out < 0 \<and> sbytes \<noteq> 0 then sbytes else fst out, snd out))"

definition sendfile_missing :: "platform \<Rightarrow> int \<Rightarrow> int \<Rightarrow> bool" where
  "sendfile_missing p res err \<longleftrightarrow>
     res < 0 \<and> (err = ENOSYS \<or> err = EINVAL \<or> err = ENOTSOCK \<or> err = EOPNOTSUPP \<or>
       have_sendfile p = Some SF_solaris \<and> (err = EAFNOSUPPORT \<or> err = EPROTOTYPE))"

definition eio__sendfile :: "'w libc \<Rightarrow> int \<Rightarrow> int \<Rightarrow> int \<Rightarrow> 64 word \<Rightarrow> 'w mach \<Rightarrow> (int \<times> 'w mach) option" where
  "eio__sendfile L ofd ifd offset todo m =
     (if todo = 0 then Some (0, m)
      else case sendfile_call L ofd ifd offset todo m of (res, m) \<Rightarrow>
        if sendfile_missing (plat L) res (m_errno m) then
          case dBUF L m of (buf, m) \<Rightarrow>
            if buf = 0 then Some (- 1, m) else sendfile_loop L ofd ifd buf offset todo 0 m
        else Some (res, m))"

section \<open>Pages\<close>

text \<open>
  \<open>eio_pagesize\<close> with its static variable \<open>page\<close>, and what \<open>sysconf\<close> answers this time: the result and
  the variable. The other functions use \<^term>\<open>page p\<close>, the value it returns every time.
\<close>

definition eio_pagesize :: "64 word \<Rightarrow> 64 word \<Rightarrow> 64 word \<times> 64 word" where
  "eio_pagesize sysconf cached =
     (let cached = (if cached = 0 then sysconf else cached) in (cached, cached))"

lemma eio_pagesize_cached:
  "eio_pagesize answer 0 = (size1, var) \<Longrightarrow> size1 \<noteq> 0 \<Longrightarrow> eio_pagesize answer' var = (size1, var)"
  by (auto simp: eio_pagesize_def Let_def)

definition eio_page_align :: "platform \<Rightarrow> 64 word \<Rightarrow> 64 word \<Rightarrow> 64 word \<times> 64 word" where
  "eio_page_align p addr len =
     (let mask = page p - 1;
          adj = mask AND addr
      in (addr - adj, (len + adj + mask) AND NOT mask))"

definition EIO_MCL_CURRENT :: int where "EIO_MCL_CURRENT = 1"
definition EIO_MCL_FUTURE :: int where "EIO_MCL_FUTURE = 2"

definition mcl_flags :: "platform \<Rightarrow> int \<Rightarrow> int" where
  "mcl_flags p fl =
     (if EIO_MCL_CURRENT \<noteq> mcl_current p \<or> EIO_MCL_FUTURE \<noteq> mcl_future p
      then 0 OR (if fl AND EIO_MCL_CURRENT \<noteq> 0 then mcl_current p else 0)
             OR (if fl AND EIO_MCL_FUTURE \<noteq> 0 then mcl_future p else 0)
      else fl)"

definition eio__mlockall :: "'w libc \<Rightarrow> int \<Rightarrow> 'w mach \<Rightarrow> int \<times> 'w mach" where
  "eio__mlockall L fl =
     (if posix_memlock (plat L) then kernel L (Mem (K_mlockall (mcl_flags (plat L) fl))) else no_such_call)"

definition eio__mlock :: "'w libc \<Rightarrow> 64 word \<Rightarrow> 64 word \<Rightarrow> 'w mach \<Rightarrow> int \<times> 'w mach" where
  "eio__mlock L addr len =
     (if posix_memlock_range (plat L) then
        case eio_page_align (plat L) addr len of (addr, len) \<Rightarrow> kernel L (Mem (K_mlock addr len))
      else no_such_call)"

definition EIO_MS_ASYNC :: int where "EIO_MS_ASYNC = 1"
definition EIO_MS_INVALIDATE :: int where "EIO_MS_INVALIDATE = 2"
definition EIO_MS_SYNC :: int where "EIO_MS_SYNC = 4"

text \<open>The first comparison is with \<open>MS_SYNC\<close>, as in the code.\<close>

definition ms_flags :: "platform \<Rightarrow> int \<Rightarrow> int" where
  "ms_flags p fl =
     (if EIO_MS_ASYNC \<noteq> ms_sync p \<or> EIO_MS_INVALIDATE \<noteq> ms_invalidate p \<or> EIO_MS_SYNC \<noteq> ms_sync p
      then 0 OR (if fl AND EIO_MS_ASYNC \<noteq> 0 then ms_async p else 0)
             OR (if fl AND EIO_MS_INVALIDATE \<noteq> 0 then ms_invalidate p else 0)
             OR (if fl AND EIO_MS_SYNC \<noteq> 0 then ms_sync p else 0)
      else fl)"

definition eio__msync :: "'w libc \<Rightarrow> 64 word \<Rightarrow> 64 word \<Rightarrow> int \<Rightarrow> 'w mach \<Rightarrow> int \<times> 'w mach" where
  "eio__msync L mem len fl =
     (if posix_msync (plat L) then
        case eio_page_align (plat L) mem len of (mem, len) \<Rightarrow>
          kernel L (Mem (K_msync mem len (ms_flags (plat L) fl)))
      else no_such_call)"

definition EIO_MT_MODIFY :: int where "EIO_MT_MODIFY = 1"

text \<open>
  The loop touches \<open>addr\<close>, then \<open>addr + page\<close> as long as that is below the bound; the comparison
  with a \<open>size_t\<close> is unsigned, the addition of two \<open>intptr_t\<close> is signed.
\<close>

partial_function (option) touch_loop ::
  "'w libc \<Rightarrow> bool \<Rightarrow> 64 word \<Rightarrow> 64 word \<Rightarrow> 'w mach \<Rightarrow> 'w mach option" where
  "touch_loop L write bound addr m =
     (case kernel L (Mem (K_touch addr write)) m of (_, m) \<Rightarrow> do {
        next \<leftarrow> long_chk (sint addr + sint (page (plat L)));
        (if (word_of_int next :: 64 word) < bound then touch_loop L write bound (word_of_int next) m
         else Some m) })"

text \<open>\<open>addr < end\<close> compares two \<open>intptr_t\<close>; the loops compare with \<open>len\<close>.\<close>

definition eio__mtouch ::
  "'w libc \<Rightarrow> 64 word \<Rightarrow> 64 word \<Rightarrow> int \<Rightarrow> 'w mach \<Rightarrow> (int \<times> 'w mach) option" where
  "eio__mtouch L mem len fl m =
     (case eio_page_align (plat L) mem len of (mem, len) \<Rightarrow>
        if sint mem < sint (mem + len)
        then map_option (Pair 0) (touch_loop L (fl AND EIO_MT_MODIFY \<noteq> 0) len mem m)
        else Some (0, m))"

end
