(* ===== verification/Emul_Correct.thy ===== *)
theory Emul_Correct
  imports Eio_Emul
begin

text \<open>
  The properties of the emulations of \<open>Eio_Emul\<close>: what \<open>eio_page_align\<close> returns, which pages
  \<open>eio__mtouch\<close> touches, the flag translations on fl' platform, and that the emulated \<open>sendfile\<close>
  copies a prefix of what was asked for, whatever lengths the calls choose to transfer.
\<close>

section \<open>Page arithmetic\<close>

lemma uint_and_mask: "uint (x AND mask k :: 64 word) = uint x mod 2 ^ k"
  by (simp add: unsigned_take_bit_eq flip: take_bit_eq_mask take_bit_eq_mod)

lemma uint_and_not_mask: "uint (x AND NOT (mask k) :: 64 word) = uint x - uint x mod 2 ^ k"
proof -
  have "x AND NOT (mask k) = push_bit k (drop_bit k x)"
    by (rule bit_eqI) (auto simp: bit_simps)
  moreover have "push_bit k (drop_bit k (uint x)) = uint x - uint x mod 2 ^ k"
    by (simp add: push_bit_eq_mult drop_bit_eq_div minus_mod_eq_div_mult)
  moreover have "0 \<le> uint x - uint x mod 2 ^ k" "uint x - uint x mod 2 ^ k < 2 ^ 64"
    using uint_bounded [of x] by (simp_all add: zmod_le_nonneg_dividend le_less_trans [of _ "uint x"])
  moreover have "take_bit 64 (uint x) = uint x"
    using uint_bounded [of x] by (simp add: take_bit_int_eq_self)
  ultimately show ?thesis
    by (simp add: unsigned_push_bit_eq unsigned_drop_bit_eq take_bit_int_eq_self)
qed


lemma page_mask: "page p = 2 ^ k \<Longrightarrow> page p - 1 = mask k"
  by (simp add: mask_eq_exp_minus_1)

lemma page_align_value:
  assumes p: "page p = 2 ^ k" "k < 63" and room: "uint addr + uint len + 2 ^ k \<le> 2 ^ 64"
    and al: "eio_page_align p addr len = (a, l)"
  shows "uint a = uint addr - uint addr mod 2 ^ k"
    "uint l = uint len + uint addr mod 2 ^ k + (2 ^ k - 1) -
        (uint len + uint addr mod 2 ^ k + (2 ^ k - 1)) mod 2 ^ k"
proof -
  let ?r = "uint addr mod 2 ^ k"
  have adj: "uint (mask k AND addr) = ?r" using uint_and_mask [of addr k] by (simp add: and.commute)
  have r: "0 \<le> ?r" "?r \<le> uint addr" "?r < 2 ^ k"
    by (simp_all add: zmod_le_nonneg_dividend)
  have a: "a = addr - (mask k AND addr)" and l: "l = (len + (mask k AND addr) + mask k) AND NOT (mask k)"
    using al by (simp_all add: eio_page_align_def page_mask [OF p(1)] Let_def)
  show "uint a = uint addr - ?r" using r adj by (simp add: a uint_sub_if')
  have "uint (mask k :: 64 word) = mask (min k 64)"
    using uint_and_mask [of "- 1" k]
    by (simp add: unsigned_minus_1_eq_mask flip: take_bit_eq_mod)
  then have mk: "uint (mask k :: 64 word) = 2 ^ k - 1"
    using p(2) by (simp add: mask_eq_exp_minus_1)
  have "uint len + ?r + (2 ^ k - 1) < 2 ^ 64" "uint len + ?r < 2 ^ 64"
    using room r zero_less_power [of "2 :: int" k] by linarith+
  then have "uint (len + (mask k AND addr) + mask k) = uint len + ?r + (2 ^ k - 1)"
    using adj mk r(1) uint_ge_0 [of len] one_le_power [of "2 :: int" k] by (simp add: uint_add_lem [THEN iffD1] uint_plus_if')
  then show "uint l = uint len + ?r + (2 ^ k - 1) - (uint len + ?r + (2 ^ k - 1)) mod 2 ^ k"
    by (simp only: l uint_and_not_mask)
qed


section \<open>Properties\<close>

text \<open>On a power-of-two page size and a range that leaves room for one page, \<open>eio_page_align\<close>
  returns whole pages that cover the range and not one page more.\<close>

theorem page_align_covers:
  assumes "page p = 2 ^ k" and "k < 63" and "uint addr + uint len + 2 ^ k \<le> 2 ^ 64"
    and "eio_page_align p addr len = (a, l)"
  shows "2 ^ k dvd uint a \<and> 2 ^ k dvd uint l \<and> uint a \<le> uint addr \<and> uint addr < uint a + 2 ^ k \<and>
    uint addr + uint len \<le> uint a + uint l \<and> uint a + uint l < uint addr + uint len + 2 ^ k"
proof -
  define r x where "r = uint addr mod 2 ^ k" and "x = uint len + uint addr mod 2 ^ k + (2 ^ k - 1)"
  note v = page_align_value [OF assms, folded r_def, folded x_def [folded r_def]]
  have "0 \<le> r" "r < 2 ^ k" "0 \<le> x mod 2 ^ k" "x mod 2 ^ k < 2 ^ k"
    by (simp_all add: r_def)
  moreover have "2 ^ k dvd uint a" "2 ^ k dvd uint l"
    unfolding v r_def by (simp_all only: dvd_minus_mod)
  moreover have "x = uint len + r + (2 ^ k - 1)" by (simp add: x_def r_def)
  ultimately show ?thesis unfolding v by (intro conjI) linarith+
qed

text \<open>\<open>eio__mtouch\<close> compares the running address with the length instead of the end of the range:
  for a range no longer than its own address, as every mapping is in practice, it touches the
  first page and no other, however many pages the range has.\<close>

theorem mtouch_first_page_only:
  assumes "eio_page_align (plat L) mem len = (a, l)" and "page (plat L) = 2 ^ k" and "k < 62"
    and "sint a < sint (a + l)" and "uint a + 2 ^ k < 2 ^ 63" and "uint l \<le> uint a + 2 ^ k"
  shows "eio__mtouch L mem len fl m =
    Some (0, snd (kernel L (Mem (K_touch a (fl AND EIO_MT_MODIFY \<noteq> 0))) m))"
proof -
  have k: "(2 :: int) ^ k < 2 ^ 62" using assms(3) by (intro power_strict_increasing) simp_all
  have u: "uint (2 ^ k :: 64 word) = 2 ^ k"
    using k uint_word_of_int [of "2 ^ k", where 'a = 64] by simp
  have small: "sint w = uint w" if "uint w < 2 ^ 63" for w :: "64 word"
  proof -
    have "- (2 ^ 63) \<le> uint w" by (rule order_trans [of _ 0]) simp_all
    with that show ?thesis by (simp add: sint_uint signed_take_bit_int_eq_self)
  qed
  have "uint a < 2 ^ 63" using assms(5) zero_less_power [of "2 :: int" k] by linarith
  then have next_addr: "long_chk (sint a + sint (page (plat L))) = Some (uint a + 2 ^ k)"
    using k assms(5) order_trans [of "- (2 ^ 63)" 0 "uint a + 2 ^ k"]
    by (simp add: assms(2) small u long_chk_def)
  have "uint (word_of_int (uint a + 2 ^ k) :: 64 word) = uint a + 2 ^ k"
    using assms(5) mod_pos_pos_trivial [of "uint a + 2 ^ k" "2 ^ 64"]
    unfolding uint_word_of_int by simp
  then have "\<not> (word_of_int (uint a + 2 ^ k) :: 64 word) < l"
    using assms(6) by (simp add: word_less_def)
  with next_addr assms(1,4) show ?thesis
    by (simp add: eio__mtouch_def touch_loop.simps [where addr = a] split: prod.split)
qed


section \<open>Flag translations\<close>

text \<open>Flags of three given bits, as the \<open>|\<close> of the bits set.\<close>

definition picked :: "int \<Rightarrow> (int \<times> int) list \<Rightarrow> int" where
  "picked fl bits = fold (\<lambda>(b, v) acc. acc OR (if fl AND b \<noteq> 0 then v else 0)) bits 0"

lemma two_flags: "0 \<le> fl \<Longrightarrow> fl < 4 \<Longrightarrow> fl = 0 \<or> fl = 1 \<or> fl = 2 \<or> fl = (3 :: int)"
  by presburger

text \<open>On every platform \<open>msync\<close> and \<open>mlockall\<close> get the platform's constants for exactly the flags
  that were asked for. For \<open>msync\<close> this holds although the guard compares \<open>EIO_MS_ASYNC\<close> with
  \<open>MS_SYNC\<close>: the guard is then always true, and the translation is never skipped.\<close>

theorem flags_translated:
  assumes "0 \<le> fl" and "fl < 4"
  shows "ms_flags p fl' =
      picked fl' [(EIO_MS_ASYNC, ms_async p), (EIO_MS_INVALIDATE, ms_invalidate p), (EIO_MS_SYNC, ms_sync p)] \<and>
    mcl_flags p fl = picked fl [(EIO_MCL_CURRENT, mcl_current p), (EIO_MCL_FUTURE, mcl_future p)]"
proof -
  have "EIO_MS_ASYNC \<noteq> ms_sync p \<or> EIO_MS_SYNC \<noteq> ms_sync p"
    by (simp add: EIO_MS_ASYNC_def EIO_MS_SYNC_def)
  then have "ms_flags p fl' =
      picked fl' [(EIO_MS_ASYNC, ms_async p), (EIO_MS_INVALIDATE, ms_invalidate p), (EIO_MS_SYNC, ms_sync p)]"
    by (auto simp: ms_flags_def picked_def or.assoc)
  moreover have "mcl_flags p fl = picked fl [(EIO_MCL_CURRENT, mcl_current p), (EIO_MCL_FUTURE, mcl_future p)]"
    using two_flags [OF assms]
    by (auto simp: mcl_flags_def picked_def EIO_MCL_CURRENT_def EIO_MCL_FUTURE_def)
  ultimately show ?thesis ..
qed


section \<open>The emulated sendfile\<close>

text \<open>
  What POSIX says of the two calls the loop makes, for an input file with contents \<open>src\<close>: \<open>pread\<close>
  stores at most the bytes asked for, from the offset; \<open>write\<close> appends a prefix of the buffer to
  what the output has received. \<open>buf m\<close> and \<open>out m\<close> read the two from the state.
\<close>

definition copies ::
  "'w libc \<Rightarrow> int \<Rightarrow> int \<Rightarrow> 64 word \<Rightarrow> 8 word list \<Rightarrow> ('w mach \<Rightarrow> 8 word list) \<Rightarrow>
   ('w mach \<Rightarrow> 8 word list) \<Rightarrow> bool" where
  "copies L ofd ifd p src buf out \<longleftrightarrow>
     (\<forall>n off m cnt m'. pread L ifd p n off m = (cnt, m') \<longrightarrow> out m' = out m \<and>
        (0 < cnt \<longrightarrow> cnt \<le> uint n \<and> take (nat cnt) (buf m') = take (nat cnt) (drop (nat off) src))) \<and>
     (\<forall>n m cnt m'. kernel L (Fd (K_write ofd p n)) m = (cnt, m') \<longrightarrow>
        (0 < cnt \<longrightarrow> cnt \<le> uint n \<and> out m' = out m @ take (nat cnt) (buf m)) \<and>
        (cnt \<le> 0 \<longrightarrow> out m' = out m))"

lemma copies_read:
  assumes "copies L ofd ifd p src buf out" and "pread L ifd p n off m = (cnt, m')"
  shows "out m' = out m" "0 < cnt \<Longrightarrow> cnt \<le> uint n"
    "0 < cnt \<Longrightarrow> take (nat cnt) (buf m') = take (nat cnt) (drop (nat off) src)"
  using assms unfolding copies_def by blast+

lemma copies_write:
  assumes "copies L ofd ifd p src buf out" and "kernel L (Fd (K_write ofd p n)) m = (cnt, m')"
  shows "0 < cnt \<Longrightarrow> cnt \<le> uint n" "0 < cnt \<Longrightarrow> out m' = out m @ take (nat cnt) (buf m)"
    "cnt \<le> 0 \<Longrightarrow> out m' = out m"
  using assms unfolding copies_def by blast+

lemma sendfile_loop_step:
  assumes cp: "copies L ofd ifd p src buf out" and off: "0 \<le> off" "0 \<le> res"
    and room: "off + uint todo < 2 ^ 63" "res + uint todo < 2 ^ 63"
  obtains (stops) r m' where "sendfile_loop L ofd ifd p off todo res m = Some (r, m')" "out m' = out m"
      "r = res \<or> res = 0 \<and> r = - 1"
  | (goes_on) w m' where "0 < w" "w \<le> uint todo" "out m' = out m @ take (nat w) (drop (nat off) src)"
      "sendfile_loop L ofd ifd p off todo res m =
        sendfile_loop L ofd ifd p (off + w) (todo - word_of_int w) (res + w) m'"
proof -
  define c where "c = (if todo > EIO_BUFSIZE then EIO_BUFSIZE else todo)"
  obtain cnt m1 where r: "pread L ifd p c off m = (cnt, m1)" by fastforce
  obtain w m2 where w: "kernel L (Fd (K_write ofd p (word_of_int cnt))) m1 = (w, m2)" by fastforce
  have unfold: "sendfile_loop L ofd ifd p off todo res m =
      (if todo = 0 then Some (res, m)
       else if cnt \<le> 0 then Some (if cnt \<noteq> 0 \<and> res = 0 then - 1 else res, m1)
       else if w \<le> 0 then Some (if w \<noteq> 0 \<and> res = 0 then - 1 else res, m2)
       else do {
         off \<leftarrow> long_chk (off + w);
         res \<leftarrow> long_chk (res + w);
         sendfile_loop L ofd ifd p off (todo - word_of_int w) res m2 })"
    by (subst sendfile_loop.simps, fold c_def) (simp only: r w prod.case split: if_split)
  note R = copies_read [OF cp r]
  show thesis
  proof (cases "todo = 0 \<or> cnt \<le> 0 \<or> w \<le> 0")
    case True
    then have "\<exists>r m'. sendfile_loop L ofd ifd p off todo res m = Some (r, m') \<and> out m' = out m \<and>
        (r = res \<or> res = 0 \<and> r = - 1)"
      unfolding unfold using True R(1) copies_write(3) [OF cp w]
      by (cases "todo = 0"; cases "cnt \<le> 0"; cases "w \<le> 0") simp_all
    then show thesis using stops by blast
  next
    case False
    then have cnt: "0 < cnt" "0 < w" by simp_all
    have "uint c \<le> uint todo" by (simp add: c_def word_less_def)
    then have ct: "cnt \<le> uint todo" using R(2) cnt by linarith
    then have "uint (word_of_int cnt :: 64 word) = cnt"
      using cnt uint_bounded [of todo] by (simp add: uint_word_of_int)
    then have W: "w \<le> cnt" "out m2 = out m1 @ take (nat w) (buf m1)"
      using copies_write(1,2) [OF cp w] cnt by simp_all
    have wt: "w \<le> uint todo" using W(1) ct by linarith
    have "take (nat w) (buf m1) = take (nat w) (drop (nat off) src)"
      using R(3) cnt W(1) by (metis min.absorb1 nat_mono take_take)
    then have o: "out m2 = out m @ take (nat w) (drop (nat off) src)" using W(2) R(1) by simp
    have "long_chk (off + w) = Some (off + w)" "long_chk (res + w) = Some (res + w)"
      using off room cnt wt by (simp_all add: long_chk_def)
    then have "sendfile_loop L ofd ifd p off todo res m =
        sendfile_loop L ofd ifd p (off + w) (todo - word_of_int w) (res + w) m2"
      using False by (simp add: unfold)
    then show thesis using goes_on [OF cnt(2) wt o] by blast
  qed
qed

lemma todo_minus:
  fixes todo :: "64 word"
  assumes "0 < w" and "w \<le> uint todo"
  shows "uint (todo - word_of_int w) = uint todo - w"
    and "unat (todo - word_of_int w) = unat todo - nat w" and "nat w \<le> unat todo"
proof -
  have "uint (word_of_int w :: 64 word) = w"
    using assms uint_bounded [of todo] by (simp add: uint_word_of_int)
  then show u: "uint (todo - word_of_int w) = uint todo - w" using assms(2) by (simp add: uint_sub_if')
  show "unat (todo - word_of_int w) = unat todo - nat w" "nat w \<le> unat todo"
    using assms u unat_eq_nat_uint [of todo] unat_eq_nat_uint [of "todo - word_of_int w"] nat_mono [OF assms(2)]
    by (simp_all only: nat_diff_distrib)
qed

lemma sendfile_loop_copies:
  assumes cp: "copies L ofd ifd p src buf out" and off: "0 \<le> off" "0 \<le> res"
    and room: "off + uint todo < 2 ^ 63" "res + uint todo < 2 ^ 63"
  shows "\<exists>r m'. sendfile_loop L ofd ifd p off todo res m = Some (r, m') \<and>
    (\<exists>n. n \<le> unat todo \<and> out m' = out m @ take n (drop (nat off) src) \<and>
       (if n = 0 \<and> res = 0 then r = 0 \<or> r = - 1 else r = res + int n))"
  using off room
proof (induction "unat todo" arbitrary: off todo res m rule: less_induct)
  case less
  from cp less.prems show ?case
  proof (cases rule: sendfile_loop_step [where m = m])
    case (stops r m')
    then show ?thesis by (intro exI [of _ r] exI [of _ m'] exI [of _ 0] conjI) auto
  next
    case (goes_on w m2)
    let ?todo = "todo - word_of_int w"
    note T = todo_minus [OF goes_on(1,2)]
    have "unat ?todo < unat todo" using T goes_on(1) by simp
    from less.hyps [OF this, of "off + w" "res + w" m2] less.prems goes_on(1,2) T(1) obtain r' m' n where
      ih: "sendfile_loop L ofd ifd p (off + w) ?todo (res + w) m2 = Some (r', m')" "n \<le> unat ?todo"
        "out m' = out m2 @ take n (drop (nat (off + w)) src)" "r' = res + w + int n" by auto
    have "nat (off + w) = nat w + nat off" using less.prems(1) goes_on(1) by (simp add: nat_add_distrib)
    then have "out m' = out m @ take (nat w + n) (drop (nat off) src)"
      using ih(3) goes_on(3) by (simp add: take_add)
    moreover have "nat w + n \<le> unat todo" using ih(2) T by simp
    ultimately show ?thesis
      using ih(1,4) goes_on(1,4) by (intro exI [of _ r'] exI [of _ m'] conjI exI [of _ "nat w + n"]) simp_all
  qed
qed


text \<open>C36: when \<open>sendfile\<close> is missing and there is memory for the buffer, \<open>eio__sendfile\<close> returns, and
  however short the single reads and writes are, the output has received a prefix of the bytes of
  the input from the offset on, no longer than asked for. The result is its length; -1 is only
  returned when nothing was copied.\<close>

theorem sendfile_copies:
  assumes "todo \<noteq> 0" and "sendfile_call L ofd ifd off todo m = (res, m0)"
    and "sendfile_missing (plat L) res (m_errno m0)" and "dBUF L m0 = (p, m1)" and "p \<noteq> 0"
    and "copies L ofd ifd p src buf out" and "0 \<le> off" and "off + uint todo < 2 ^ 63"
  shows "\<exists>r m' n. eio__sendfile L ofd ifd off todo m = Some (r, m') \<and> n \<le> unat todo \<and>
    out m' = out m1 @ take n (drop (nat off) src) \<and> (if n = 0 then r = 0 \<or> r = - 1 else r = int n)"
proof -
  have "eio__sendfile L ofd ifd off todo m = sendfile_loop L ofd ifd p off todo 0 m1"
    using assms(1-5) by (simp add: eio__sendfile_def)
  moreover have "0 + uint todo < 2 ^ 63" using assms(7,8) by simp
  then obtain r m' n where "sendfile_loop L ofd ifd p off todo 0 m1 = Some (r, m')" "n \<le> unat todo"
    "out m' = out m1 @ take n (drop (nat off) src)" "if n = 0 then r = 0 \<or> r = - 1 else r = int n"
    using sendfile_loop_copies [OF assms(6,7) order_refl assms(8), of m1] by auto
  ultimately show ?thesis by (intro exI conjI) simp_all
qed

section \<open>Witnesses\<close>

definition linux :: platform where
  "linux = \<lparr>have_preadwrite = True, have_readahead = True, have_sendfile = Some SF_linux,
     have_sync_file_range = True, have_utimes = True, have_futimes = True, have_fdatasync = True,
     posix_memlock = True, posix_memlock_range = True, posix_msync = True, page = 4096,
     mcl_current = 1, mcl_future = 2, ms_async = 1, ms_invalidate = 2, ms_sync = 4,
     sfr_wait_before = 1, sfr_write = 2, sfr_wait_after = 4, sizeof_stat = 144,
     sizeof_statvfs = 112, path_max = 4096\<rparr>"

text \<open>A kernel that reads at most three bytes and writes at most two at a time; every other call is
  missing. The state holds the buffer and the output.\<close>

definition slow_kernel ::
  "8 word list \<Rightarrow> syscall \<Rightarrow> (8 word list \<times> 8 word list) mach \<Rightarrow> int \<times> (8 word list \<times> 8 word list) mach" where
  "slow_kernel src c m =
     (case c of
        Fd (K_pread fd p n off) \<Rightarrow>
          let x = take (min 3 (unat n)) (drop (nat off) src) in (int (length x), m\<lparr>m_os := (x, snd (m_os m))\<rparr>)
      | Fd (K_write fd p n) \<Rightarrow>
          let x = take (min 2 (unat n)) (fst (m_os m))
          in (int (length x), m\<lparr>m_os := (fst (m_os m), snd (m_os m) @ x)\<rparr>)
      | _ \<Rightarrow> no_such_call m)"

definition slow_libc :: "8 word list \<Rightarrow> (8 word list \<times> 8 word list) libc" where
  "slow_libc src = \<lparr>plat = linux, kernel = slow_kernel src, malloc = (\<lambda>n m. (4096, m)),
     sent_bytes = (\<lambda>c m. 0)\<rparr>"

definition slow_start :: "(8 word list \<times> 8 word list) mach" where
  "slow_start = \<lparr>m_errno = 0, m_dbuf = 0, m_dirp = 0, m_os = ([], [])\<rparr>"

lemma length_take_min: "int (length (take (min k (unat n)) xs)) \<le> uint (n :: 64 word)"
  by (simp add: of_nat_min min_le_iff_disj)

lemma take_length_take: "take (length (take k xs)) xs = take k xs"
  by (simp add: min_def)

lemma slow_copies:
  "copies (slow_libc src) 1 3 4096 src (\<lambda>m. fst (m_os m)) (\<lambda>m. snd (m_os m))"
  unfolding copies_def pread_def
  by (auto simp: slow_libc_def slow_kernel_def linux_def Let_def length_take_min take_length_take
      simp del: length_take take_take)

theorem sendfile_copies_witness:
  "\<exists>r m' n. eio__sendfile (slow_libc [1, 2, 3, 4, 5]) 1 3 1 10 slow_start = Some (r, m') \<and> n \<le> 10 \<and>
    snd (m_os m') = take n [2, 3, 4, 5] \<and> (if n = 0 then r = 0 \<or> r = - 1 else r = int n)"
proof -
  let ?L = "slow_libc [1, 2, 3, 4, 5]"
  have call: "sendfile_call ?L 1 3 1 10 slow_start = (- 1, slow_start\<lparr>m_errno := ENOSYS\<rparr>)"
    by (simp add: sendfile_call_def slow_libc_def linux_def slow_kernel_def no_such_call_def)
  have buf: "dBUF ?L (slow_start\<lparr>m_errno := ENOSYS\<rparr>) = (4096, slow_start\<lparr>m_dbuf := 4096, m_errno := ENOMEM\<rparr>)"
    by (simp add: dBUF_def slow_libc_def slow_start_def)
  from sendfile_copies [OF _ call _ buf _ slow_copies] show ?thesis
    by (simp add: sendfile_missing_def slow_start_def drop_Cons')
qed

theorem page_align_covers_witness:
  "eio_page_align linux 0x12345 0x1800 = (0x12000, 0x2000) \<and>
    uint (0x12345 :: 64 word) + uint (0x1800 :: 64 word) \<le> uint (0x12000 :: 64 word) + uint (0x2000 :: 64 word)"
proof -
  have p: "page linux = 2 ^ 12" by (simp add: linux_def)
  have a: "eio_page_align linux 0x12345 0x1800 = (0x12000, 0x2000)"
    by (simp add: eio_page_align_def linux_def Let_def)
  from page_align_covers [OF p _ _ a] a show ?thesis by simp
qed

theorem mtouch_first_page_only_witness:
  "eio__mtouch (slow_libc []) 0x10000 0x5000 0 slow_start =
    Some (0, snd (kernel (slow_libc []) (Mem (K_touch 0x10000 False)) slow_start))"
proof -
  have a: "eio_page_align (plat (slow_libc [])) 0x10000 0x5000 = (0x10000, 0x5000)"
    by (simp add: eio_page_align_def linux_def slow_libc_def Let_def)
  have p: "page (plat (slow_libc [])) = 2 ^ 12" by (simp add: linux_def slow_libc_def)
  from mtouch_first_page_only [OF a p, of 0 slow_start] show ?thesis by simp
qed

theorem flags_translated_witness:
  "ms_flags linux 5 = 5 \<and> mcl_flags linux 3 = 3"
  using flags_translated [of 3 linux 5]
  by (simp add: picked_def linux_def EIO_MS_ASYNC_def EIO_MS_INVALIDATE_def EIO_MS_SYNC_def
      EIO_MCL_CURRENT_def EIO_MCL_FUTURE_def)

end
