(* ===== verification/Eio_Execute.thy ===== *)
theory Eio_Execute
  imports Emul_Correct Eio_Req
begin

text \<open>
  \<open>eio_execute\<close> of \<open>src/libeio/eio.c\<close>: the dispatch of a worker thread on the type of its request.
  The request is the structure as the worker sees it; the other arguments are the C library of
  \<open>Eio_Emul\<close>, what a directory scan finds (\<open>Dent_Scandir\<close>) and what client code at a code address
  does for an \<open>EIO_CUSTOM\<close> request. \<^term>\<open>None\<close> is an undefined conversion of a time, a loop that
  does not end, or \<open>abort ()\<close>.
\<close>

section \<open>Parameters\<close>

text \<open>The answers to one directory scan: entries with the cancel flag seen after each, the \<open>errno\<close> of
  the end, the allocator, and the addresses of the open directory and the two buffers.\<close>

record scan_input =
  si_env :: scan_env
  si_entries :: "(sys_dirent \<times> bool) list"
  si_end_errno :: int
  si_dirp :: "64 word"
  si_dents :: "64 word"
  si_names :: "64 word"

record 'w exec_env =
  libc :: "'w libc"
  endianness_of :: endian
  scan_of :: "64 word \<Rightarrow> 'w mach \<Rightarrow> scan_input"
  run_custom :: "64 word \<Rightarrow> eio_req \<Rightarrow> 'w mach \<Rightarrow> (eio_req \<times> 'w mach) option"

section \<open>Conversions of members\<close>

text \<open>A \<open>long\<close> member passed as \<open>int\<close>, as \<open>mode_t\<close>, \<open>uid_t\<close> or \<open>gid_t\<close>, and \<open>off_t\<close> as \<open>dev_t\<close>.\<close>

definition as_int :: "int \<Rightarrow> int" where "as_int i = sint (word_of_int i :: 32 word)"
definition as_uint :: "int \<Rightarrow> 32 word" where "as_uint i = word_of_int i"
definition as_dev :: "int \<Rightarrow> 64 word" where "as_dev i = word_of_int i"

section \<open>The parts of the switch\<close>

text \<open>\<open>ALLOC (len)\<close>: \<^term>\<open>Inl\<close> is its \<open>break\<close> out of the switch.\<close>

definition ALLOC :: "'w libc \<Rightarrow> 64 word \<Rightarrow> eio_req \<Rightarrow> 'w mach \<Rightarrow> (eio_req \<times> 'w mach) + (eio_req \<times> 'w mach)" where
  "ALLOC L len req m =
     (if ptr2 req = 0 then
        let req = req\<lparr>flags := flags req OR EIO_FLAG_PTR2_FREE\<rparr>;
            (p, m) = malloc L len m;
            req = req\<lparr>ptr2 := p\<rparr>
        in if p = 0 then Inl (req\<lparr>result := - 1\<rparr>, m\<lparr>m_errno := ENOMEM\<rparr>) else Inr (req, m)
      else Inr (req, m))"

text \<open>\<open>req->result = call\<close>, and the same behind an \<open>ALLOC\<close>.\<close>

definition set_result :: "eio_req \<Rightarrow> int \<times> 'w mach \<Rightarrow> eio_req \<times> 'w mach" where
  "set_result req out = (req\<lparr>result := fst out\<rparr>, snd out)"

definition with_buffer ::
  "'w libc \<Rightarrow> 64 word \<Rightarrow> (eio_req \<Rightarrow> 'w mach \<Rightarrow> int \<times> 'w mach) \<Rightarrow> eio_req \<Rightarrow> 'w mach \<Rightarrow> eio_req \<times> 'w mach" where
  "with_buffer L len f req m =
     (case ALLOC L len req m of Inl out \<Rightarrow> out | Inr (req, m) \<Rightarrow> set_result req (f req m))"

text \<open>\<open>eio__scandir\<close> on the request: the buffers it leaves, and the flags that free them.\<close>

definition exec_readdir :: "'w exec_env \<Rightarrow> eio_req \<Rightarrow> 'w mach \<Rightarrow> (eio_req \<times> 'w mach) option" where
  "exec_readdir E req m =
     (let si = scan_of E (ptr1 req) m in do {
        out \<leftarrow> eio_scandir (endianness_of E) (si_env si) (si_entries si) (si_end_errno si) (int1 req);
        Some (req\<lparr>result := out_result out, int1 := out_int1 out,
                  flags := flags req OR (EIO_FLAG_PTR1_FREE OR EIO_FLAG_PTR2_FREE),
                  ptr1 := (if out_dents out = None then 0 else si_dents si),
                  ptr2 := (if malloc_names (si_env si) then si_names si else 0)\<rparr>,
              m\<lparr>m_errno := out_errno out,
                m_dirp := (if opendir_ok (si_env si) then si_dirp si else 0)\<rparr>) })"

text \<open>The times of \<open>EIO_UTIME\<close> and \<open>EIO_FUTIME\<close>; both -1 means the current time.\<close>

definition request_times :: "eio_req \<Rightarrow> (timeval \<times> timeval) option option" where
  "request_times req =
     (if nv1 req \<noteq> dbl_minus_one \<or> nv2 req \<noteq> dbl_minus_one then do {
        t0 \<leftarrow> dbl_to_timeval (nv1 req);
        t1 \<leftarrow> dbl_to_timeval (nv2 req);
        Some (Some (t0, t1)) }
      else Some None)"

section \<open>The switch\<close>

definition exec_switch :: "'w exec_env \<Rightarrow> eio_req \<Rightarrow> 'w mach \<Rightarrow> (eio_req \<times> 'w mach) option" where
  "exec_switch E req m =
     (let L = libc E; K = (\<lambda>c. Some (set_result req (kernel L c m)))
      in case type_of_code (req_type req) of
        Some EIO_READ \<Rightarrow> Some (with_buffer L (req_size req)
          (\<lambda>r. if offs r \<ge> 0 then pread L (int1 r) (ptr2 r) (req_size r) (offs r)
               else kernel L (Fd (K_read (int1 r) (ptr2 r) (req_size r)))) req m)
      | Some EIO_WRITE \<Rightarrow> Some (set_result req
          (if offs req \<ge> 0 then pwrite L (int1 req) (ptr2 req) (req_size req) (offs req) m
           else kernel L (Fd (K_write (int1 req) (ptr2 req) (req_size req))) m))
      | Some EIO_READAHEAD \<Rightarrow> Some (set_result req (readahead L (int1 req) (offs req) (req_size req) m))
      | Some EIO_SENDFILE \<Rightarrow>
          map_option (set_result req) (eio__sendfile L (int1 req) (as_int (int2 req)) (offs req) (req_size req) m)
      | Some EIO_STAT \<Rightarrow> Some (with_buffer L (sizeof_stat (plat L)) (\<lambda>r. kernel L (Meta (K_stat (ptr1 r) (ptr2 r)))) req m)
      | Some EIO_LSTAT \<Rightarrow> Some (with_buffer L (sizeof_stat (plat L)) (\<lambda>r. kernel L (Meta (K_lstat (ptr1 r) (ptr2 r)))) req m)
      | Some EIO_FSTAT \<Rightarrow> Some (with_buffer L (sizeof_stat (plat L)) (\<lambda>r. kernel L (Meta (K_fstat (int1 r) (ptr2 r)))) req m)
      | Some EIO_STATVFS \<Rightarrow> Some (with_buffer L (sizeof_statvfs (plat L)) (\<lambda>r. kernel L (Meta (K_statvfs (ptr1 r) (ptr2 r)))) req m)
      | Some EIO_FSTATVFS \<Rightarrow> Some (with_buffer L (sizeof_statvfs (plat L)) (\<lambda>r. kernel L (Meta (K_fstatvfs (int1 r) (ptr2 r)))) req m)
      | Some EIO_CHOWN \<Rightarrow> K (Meta (K_chown (ptr1 req) (as_uint (int2 req)) (as_uint (int3 req))))
      | Some EIO_FCHOWN \<Rightarrow> K (Meta (K_fchown (int1 req) (as_uint (int2 req)) (as_uint (int3 req))))
      | Some EIO_CHMOD \<Rightarrow> K (Meta (K_chmod (ptr1 req) (as_uint (int2 req))))
      | Some EIO_FCHMOD \<Rightarrow> K (Meta (K_fchmod (int1 req) (as_uint (int2 req))))
      | Some EIO_TRUNCATE \<Rightarrow> K (Path (K_truncate (ptr1 req) (offs req)))
      | Some EIO_FTRUNCATE \<Rightarrow> K (Fd (K_ftruncate (int1 req) (offs req)))
      | Some EIO_OPEN \<Rightarrow> K (Path (K_open (ptr1 req) (int1 req) (as_uint (int2 req))))
      | Some EIO_CLOSE \<Rightarrow> K (Fd (K_close (int1 req)))
      | Some EIO_DUP2 \<Rightarrow> K (Fd (K_dup2 (int1 req) (as_int (int2 req))))
      | Some EIO_UNLINK \<Rightarrow> K (Path (K_unlink (ptr1 req)))
      | Some EIO_RMDIR \<Rightarrow> K (Path (K_rmdir (ptr1 req)))
      | Some EIO_MKDIR \<Rightarrow> K (Path (K_mkdir (ptr1 req) (as_uint (int2 req))))
      | Some EIO_RENAME \<Rightarrow> K (Path (K_rename (ptr1 req) (ptr2 req)))
      | Some EIO_LINK \<Rightarrow> K (Path (K_link (ptr1 req) (ptr2 req)))
      | Some EIO_SYMLINK \<Rightarrow> K (Path (K_symlink (ptr1 req) (ptr2 req)))
      | Some EIO_MKNOD \<Rightarrow> K (Path (K_mknod (ptr1 req) (as_uint (int2 req)) (as_dev (offs req))))
      | Some EIO_READLINK \<Rightarrow> Some (with_buffer L (path_max (plat L))
          (\<lambda>r. kernel L (Path (K_readlink (ptr1 r) (ptr2 r) (path_max (plat L))))) req m)
      | Some EIO_SYNC \<Rightarrow> Some (req\<lparr>result := 0\<rparr>, snd (kernel L (Fd K_sync) m))
      | Some EIO_FSYNC \<Rightarrow> K (Fd (K_fsync (int1 req)))
      | Some EIO_FDATASYNC \<Rightarrow> Some (set_result req (fdatasync L (int1 req) m))
      | Some EIO_MSYNC \<Rightarrow> Some (set_result req (eio__msync L (ptr2 req) (req_size req) (int1 req) m))
      | Some EIO_MTOUCH \<Rightarrow> map_option (set_result req) (eio__mtouch L (ptr2 req) (req_size req) (int1 req) m)
      | Some EIO_MLOCK \<Rightarrow> Some (set_result req (eio__mlock L (ptr2 req) (req_size req) m))
      | Some EIO_MLOCKALL \<Rightarrow> Some (set_result req (eio__mlockall L (int1 req) m))
      | Some EIO_SYNC_FILE_RANGE \<Rightarrow> Some (set_result req
          (eio__sync_file_range L (int1 req) (offs req) (req_size req) (as_uint (int2 req)) m))
      | Some EIO_READDIR \<Rightarrow> exec_readdir E req m
      | Some EIO_BUSY \<Rightarrow> do {
          tv \<leftarrow> dbl_to_timeval (nv1 req);
          Some (set_result req (kernel L (Mem (K_select tv)) m)) }
      | Some EIO_UTIME \<Rightarrow> do { tv \<leftarrow> request_times req; Some (set_result req (utimes L (ptr1 req) tv m)) }
      | Some EIO_FUTIME \<Rightarrow> do { tv \<leftarrow> request_times req; Some (set_result req (futimes L (int1 req) tv m)) }
      | Some EIO_GROUP \<Rightarrow> None
      | Some EIO_NOP \<Rightarrow> Some (req\<lparr>result := 0\<rparr>, m)
      | Some EIO_CUSTOM \<Rightarrow> (case feed req of None \<Rightarrow> None | Some f \<Rightarrow> run_custom E f req m)
      | None \<Rightarrow> Some (req\<lparr>result := - 1\<rparr>, m\<lparr>m_errno := ENOSYS\<rparr>))"

definition eio_execute :: "'w exec_env \<Rightarrow> eio_req \<Rightarrow> 'w mach \<Rightarrow> (eio_req \<times> 'w mach) option" where
  "eio_execute E req m = do {
     (req, m) \<leftarrow> exec_switch E req m;
     Some (req\<lparr>errorno := m_errno m\<rparr>, m) }"

end
