(* ===== verification/Eio_Api.thy ===== *)
theory Eio_Api
  imports Eio_Execute Etp_Poll
begin

text \<open>
  The public functions of \<open>src/libeio/eio.c\<close>: the wrappers that allocate, fill and submit a request,
  and the functions that pass their argument on to the thread pool. What \<open>calloc\<close>, \<open>strdup\<close> and a
  thread start by the submission answer is the record \<open>api_env\<close>. A wrapper returns the request, or
  the null pointer.
\<close>

section \<open>Filling and sending a request\<close>

record api_env =
  ae_req :: ptr                          \<comment> \<open>\<open>calloc\<close> for the request\<close>
  ae_strdup1 :: "64 word \<Rightarrow> 64 word"
  ae_strdup2 :: "64 word \<Rightarrow> 64 word"
  ae_wrk :: ptr
  ae_created :: bool

text \<open>The address of the code of \<open>eio_api_destroy\<close>.\<close>

definition eio_api_destroy_code :: "64 word" where "eio_api_destroy_code = 1"

definition REQ :: "eio_type \<Rightarrow> int \<Rightarrow> code_ptr \<Rightarrow> 64 word \<Rightarrow> eio_req" where
  "REQ rtype pr cb dat = zero_req
    \<lparr>req_type := type_code rtype, pri := to_schar pr, finish := cb, data := dat,
     destroy := Some eio_api_destroy_code\<rparr>"

definition eio_submit :: "api_env \<Rightarrow> addr \<Rightarrow> etp \<Rightarrow> etp option" where
  "eio_submit env req = etp_submit (ae_wrk env) (ae_created env) req"

definition SEND :: "api_env \<Rightarrow> addr \<Rightarrow> etp \<Rightarrow> (ptr \<times> etp) option" where
  "SEND env req s = do { s \<leftarrow> eio_submit env req s; Some (Some req, s) }"

text \<open>\<open>REQ (type); ...; SEND\<close>, with the assignments between them applied to the structure.\<close>

definition request :: "api_env \<Rightarrow> eio_req \<Rightarrow> etp \<Rightarrow> (ptr \<times> etp) option" where
  "request env r s =
     (case ae_req env of
        None \<Rightarrow> Some (None, s)
      | Some req \<Rightarrow> SEND env req (s\<lparr>reqs := (reqs s)(req \<mapsto> r)\<rparr>))"

text \<open>\<open>PATH\<close>: the request keeps a copy of the path; \<^term>\<open>Inl\<close> is the \<open>return 0\<close>.\<close>

definition PATH :: "api_env \<Rightarrow> addr \<Rightarrow> 64 word \<Rightarrow> etp \<Rightarrow> (etp + etp) option" where
  "PATH env req path s = do {
     s \<leftarrow> modify req (\<lambda>r. r\<lparr>flags := flags r OR EIO_FLAG_PTR1_FREE\<rparr>) s;
     s \<leftarrow> modify req (ptr1_update (\<lambda>_. ae_strdup1 env path)) s;
     (if ae_strdup1 env path = 0 then map_option Inl (eio_api_destroy req s) else Some (Inr s)) }"

text \<open>\<open>REQ (type); PATH; ...; SEND\<close>: \<open>f\<close> is the assignments behind \<open>PATH\<close>.\<close>

definition request_path ::
  "api_env \<Rightarrow> eio_req \<Rightarrow> 64 word \<Rightarrow> (eio_req \<Rightarrow> eio_req) \<Rightarrow> etp \<Rightarrow> (ptr \<times> etp) option" where
  "request_path env r path f s =
     (case ae_req env of
        None \<Rightarrow> Some (None, s)
      | Some req \<Rightarrow> do {
          out \<leftarrow> PATH env req path (s\<lparr>reqs := (reqs s)(req \<mapsto> r)\<rparr>);
          (case out of
             Inl s \<Rightarrow> Some (None, s)
           | Inr s \<Rightarrow> do { s \<leftarrow> modify req f s; SEND env req s }) })"

definition eio__1path ::
  "api_env \<Rightarrow> eio_type \<Rightarrow> 64 word \<Rightarrow> int \<Rightarrow> code_ptr \<Rightarrow> 64 word \<Rightarrow> etp \<Rightarrow> (ptr \<times> etp) option" where
  "eio__1path env rtype path pr cb dat = request_path env (REQ rtype pr cb dat) path id"

text \<open>When the second copy cannot be made only the structure is freed.\<close>

definition eio__2path ::
  "api_env \<Rightarrow> eio_type \<Rightarrow> 64 word \<Rightarrow> 64 word \<Rightarrow> int \<Rightarrow> code_ptr \<Rightarrow> 64 word \<Rightarrow> etp \<Rightarrow> (ptr \<times> etp) option" where
  "eio__2path env rtype path new_path pr cb dat s =
     (case ae_req env of
        None \<Rightarrow> Some (None, s)
      | Some req \<Rightarrow> do {
          out \<leftarrow> PATH env req path (s\<lparr>reqs := (reqs s)(req \<mapsto> REQ rtype pr cb dat)\<rparr>);
          (case out of
             Inl s \<Rightarrow> Some (None, s)
           | Inr s \<Rightarrow> do {
               s \<leftarrow> modify req (\<lambda>r. r\<lparr>flags := flags r OR EIO_FLAG_PTR2_FREE\<rparr>) s;
               s \<leftarrow> modify req (ptr2_update (\<lambda>_. ae_strdup2 env new_path)) s;
               (if ae_strdup2 env new_path = 0 then do { s \<leftarrow> eio_api_destroy req s; Some (None, s) }
                else SEND env req s) }) })"

section \<open>The wrappers\<close>

definition eio_nop ::
  "api_env \<Rightarrow> int \<Rightarrow> code_ptr \<Rightarrow> 64 word \<Rightarrow> etp \<Rightarrow> (ptr \<times> etp) option" where
  "eio_nop env pr cb dat =
     request env (REQ EIO_NOP pr cb dat)"

definition eio_busy ::
  "api_env \<Rightarrow> eio_tstamp \<Rightarrow> int \<Rightarrow> code_ptr \<Rightarrow> 64 word \<Rightarrow> etp \<Rightarrow> (ptr \<times> etp) option" where
  "eio_busy env delay pr cb dat =
     request env ((REQ EIO_BUSY pr cb dat)\<lparr>nv1 := delay\<rparr>)"

definition eio_sync ::
  "api_env \<Rightarrow> int \<Rightarrow> code_ptr \<Rightarrow> 64 word \<Rightarrow> etp \<Rightarrow> (ptr \<times> etp) option" where
  "eio_sync env pr cb dat =
     request env (REQ EIO_SYNC pr cb dat)"

definition eio_fsync ::
  "api_env \<Rightarrow> int \<Rightarrow> int \<Rightarrow> code_ptr \<Rightarrow> 64 word \<Rightarrow> etp \<Rightarrow> (ptr \<times> etp) option" where
  "eio_fsync env fd pr cb dat =
     request env ((REQ EIO_FSYNC pr cb dat)\<lparr>int1 := fd\<rparr>)"

definition eio_msync ::
  "api_env \<Rightarrow> 64 word \<Rightarrow> 64 word \<Rightarrow> int \<Rightarrow> int \<Rightarrow> code_ptr \<Rightarrow> 64 word \<Rightarrow> etp \<Rightarrow> (ptr \<times> etp) option" where
  "eio_msync env a len fl pr cb dat =
     request env ((REQ EIO_MSYNC pr cb dat)\<lparr>ptr2 := a, req_size := len, int1 := fl\<rparr>)"

definition eio_mtouch ::
  "api_env \<Rightarrow> 64 word \<Rightarrow> 64 word \<Rightarrow> int \<Rightarrow> int \<Rightarrow> code_ptr \<Rightarrow> 64 word \<Rightarrow> etp \<Rightarrow> (ptr \<times> etp) option" where
  "eio_mtouch env a len fl pr cb dat =
     request env ((REQ EIO_MTOUCH pr cb dat)\<lparr>ptr2 := a, req_size := len, int1 := fl\<rparr>)"

definition eio_mlock ::
  "api_env \<Rightarrow> 64 word \<Rightarrow> 64 word \<Rightarrow> int \<Rightarrow> code_ptr \<Rightarrow> 64 word \<Rightarrow> etp \<Rightarrow> (ptr \<times> etp) option" where
  "eio_mlock env a len pr cb dat =
     request env ((REQ EIO_MLOCK pr cb dat)\<lparr>ptr2 := a, req_size := len\<rparr>)"

definition eio_mlockall ::
  "api_env \<Rightarrow> int \<Rightarrow> int \<Rightarrow> code_ptr \<Rightarrow> 64 word \<Rightarrow> etp \<Rightarrow> (ptr \<times> etp) option" where
  "eio_mlockall env fl pr cb dat =
     request env ((REQ EIO_MLOCKALL pr cb dat)\<lparr>int1 := fl\<rparr>)"

definition eio_sync_file_range ::
  "api_env \<Rightarrow> int \<Rightarrow> int \<Rightarrow> 64 word \<Rightarrow> 32 word \<Rightarrow> int \<Rightarrow> code_ptr \<Rightarrow> 64 word \<Rightarrow> etp \<Rightarrow> (ptr \<times> etp) option" where
  "eio_sync_file_range env fd off nbytes fl pr cb dat =
     request env ((REQ EIO_SYNC_FILE_RANGE pr cb dat)\<lparr>int1 := fd, offs := off, req_size := nbytes, int2 := uint fl\<rparr>)"

definition eio_fdatasync ::
  "api_env \<Rightarrow> int \<Rightarrow> int \<Rightarrow> code_ptr \<Rightarrow> 64 word \<Rightarrow> etp \<Rightarrow> (ptr \<times> etp) option" where
  "eio_fdatasync env fd pr cb dat =
     request env ((REQ EIO_FDATASYNC pr cb dat)\<lparr>int1 := fd\<rparr>)"

definition eio_close ::
  "api_env \<Rightarrow> int \<Rightarrow> int \<Rightarrow> code_ptr \<Rightarrow> 64 word \<Rightarrow> etp \<Rightarrow> (ptr \<times> etp) option" where
  "eio_close env fd pr cb dat =
     request env ((REQ EIO_CLOSE pr cb dat)\<lparr>int1 := fd\<rparr>)"

definition eio_readahead ::
  "api_env \<Rightarrow> int \<Rightarrow> int \<Rightarrow> 64 word \<Rightarrow> int \<Rightarrow> code_ptr \<Rightarrow> 64 word \<Rightarrow> etp \<Rightarrow> (ptr \<times> etp) option" where
  "eio_readahead env fd off len pr cb dat =
     request env ((REQ EIO_READAHEAD pr cb dat)\<lparr>int1 := fd, offs := off, req_size := len\<rparr>)"

definition eio_read ::
  "api_env \<Rightarrow> int \<Rightarrow> 64 word \<Rightarrow> 64 word \<Rightarrow> int \<Rightarrow> int \<Rightarrow> code_ptr \<Rightarrow> 64 word \<Rightarrow> etp \<Rightarrow> (ptr \<times> etp) option" where
  "eio_read env fd buf len off pr cb dat =
     request env ((REQ EIO_READ pr cb dat)\<lparr>int1 := fd, offs := off, req_size := len, ptr2 := buf\<rparr>)"

definition eio_write ::
  "api_env \<Rightarrow> int \<Rightarrow> 64 word \<Rightarrow> 64 word \<Rightarrow> int \<Rightarrow> int \<Rightarrow> code_ptr \<Rightarrow> 64 word \<Rightarrow> etp \<Rightarrow> (ptr \<times> etp) option" where
  "eio_write env fd buf len off pr cb dat =
     request env ((REQ EIO_WRITE pr cb dat)\<lparr>int1 := fd, offs := off, req_size := len, ptr2 := buf\<rparr>)"

definition eio_fstat ::
  "api_env \<Rightarrow> int \<Rightarrow> int \<Rightarrow> code_ptr \<Rightarrow> 64 word \<Rightarrow> etp \<Rightarrow> (ptr \<times> etp) option" where
  "eio_fstat env fd pr cb dat =
     request env ((REQ EIO_FSTAT pr cb dat)\<lparr>int1 := fd\<rparr>)"

definition eio_fstatvfs ::
  "api_env \<Rightarrow> int \<Rightarrow> int \<Rightarrow> code_ptr \<Rightarrow> 64 word \<Rightarrow> etp \<Rightarrow> (ptr \<times> etp) option" where
  "eio_fstatvfs env fd pr cb dat =
     request env ((REQ EIO_FSTATVFS pr cb dat)\<lparr>int1 := fd\<rparr>)"

definition eio_futime ::
  "api_env \<Rightarrow> int \<Rightarrow> eio_tstamp \<Rightarrow> eio_tstamp \<Rightarrow> int \<Rightarrow> code_ptr \<Rightarrow> 64 word \<Rightarrow> etp \<Rightarrow> (ptr \<times> etp) option" where
  "eio_futime env fd atime mtime pr cb dat =
     request env ((REQ EIO_FUTIME pr cb dat)\<lparr>int1 := fd, nv1 := atime, nv2 := mtime\<rparr>)"

definition eio_ftruncate ::
  "api_env \<Rightarrow> int \<Rightarrow> int \<Rightarrow> int \<Rightarrow> code_ptr \<Rightarrow> 64 word \<Rightarrow> etp \<Rightarrow> (ptr \<times> etp) option" where
  "eio_ftruncate env fd off pr cb dat =
     request env ((REQ EIO_FTRUNCATE pr cb dat)\<lparr>int1 := fd, offs := off\<rparr>)"

definition eio_fchmod ::
  "api_env \<Rightarrow> int \<Rightarrow> 32 word \<Rightarrow> int \<Rightarrow> code_ptr \<Rightarrow> 64 word \<Rightarrow> etp \<Rightarrow> (ptr \<times> etp) option" where
  "eio_fchmod env fd mode pr cb dat =
     request env ((REQ EIO_FCHMOD pr cb dat)\<lparr>int1 := fd, int2 := uint mode\<rparr>)"

definition eio_fchown ::
  "api_env \<Rightarrow> int \<Rightarrow> 32 word \<Rightarrow> 32 word \<Rightarrow> int \<Rightarrow> code_ptr \<Rightarrow> 64 word \<Rightarrow> etp \<Rightarrow> (ptr \<times> etp) option" where
  "eio_fchown env fd uid gid pr cb dat =
     request env ((REQ EIO_FCHOWN pr cb dat)\<lparr>int1 := fd, int2 := uint uid, int3 := uint gid\<rparr>)"

definition eio_dup2 ::
  "api_env \<Rightarrow> int \<Rightarrow> int \<Rightarrow> int \<Rightarrow> code_ptr \<Rightarrow> 64 word \<Rightarrow> etp \<Rightarrow> (ptr \<times> etp) option" where
  "eio_dup2 env fd fd2 pr cb dat =
     request env ((REQ EIO_DUP2 pr cb dat)\<lparr>int1 := fd, int2 := fd2\<rparr>)"

definition eio_sendfile ::
  "api_env \<Rightarrow> int \<Rightarrow> int \<Rightarrow> int \<Rightarrow> 64 word \<Rightarrow> int \<Rightarrow> code_ptr \<Rightarrow> 64 word \<Rightarrow> etp \<Rightarrow> (ptr \<times> etp) option" where
  "eio_sendfile env out_fd in_fd in_offset len pr cb dat =
     request env ((REQ EIO_SENDFILE pr cb dat)\<lparr>int1 := out_fd, int2 := in_fd, offs := in_offset, req_size := len\<rparr>)"

definition eio_open ::
  "api_env \<Rightarrow> 64 word \<Rightarrow> int \<Rightarrow> 32 word \<Rightarrow> int \<Rightarrow> code_ptr \<Rightarrow> 64 word \<Rightarrow> etp \<Rightarrow> (ptr \<times> etp) option" where
  "eio_open env path fl mode pr cb dat =
     request_path env (REQ EIO_OPEN pr cb dat) path (\<lambda>r. r\<lparr>int1 := fl, int2 := uint mode\<rparr>)"

definition eio_utime ::
  "api_env \<Rightarrow> 64 word \<Rightarrow> eio_tstamp \<Rightarrow> eio_tstamp \<Rightarrow> int \<Rightarrow> code_ptr \<Rightarrow> 64 word \<Rightarrow> etp \<Rightarrow> (ptr \<times> etp) option" where
  "eio_utime env path atime mtime pr cb dat =
     request_path env (REQ EIO_UTIME pr cb dat) path (\<lambda>r. r\<lparr>nv1 := atime, nv2 := mtime\<rparr>)"

definition eio_truncate ::
  "api_env \<Rightarrow> 64 word \<Rightarrow> int \<Rightarrow> int \<Rightarrow> code_ptr \<Rightarrow> 64 word \<Rightarrow> etp \<Rightarrow> (ptr \<times> etp) option" where
  "eio_truncate env path off pr cb dat =
     request_path env (REQ EIO_TRUNCATE pr cb dat) path (\<lambda>r. r\<lparr>offs := off\<rparr>)"

definition eio_chown ::
  "api_env \<Rightarrow> 64 word \<Rightarrow> 32 word \<Rightarrow> 32 word \<Rightarrow> int \<Rightarrow> code_ptr \<Rightarrow> 64 word \<Rightarrow> etp \<Rightarrow> (ptr \<times> etp) option" where
  "eio_chown env path uid gid pr cb dat =
     request_path env (REQ EIO_CHOWN pr cb dat) path (\<lambda>r. r\<lparr>int2 := uint uid, int3 := uint gid\<rparr>)"

definition eio_chmod ::
  "api_env \<Rightarrow> 64 word \<Rightarrow> 32 word \<Rightarrow> int \<Rightarrow> code_ptr \<Rightarrow> 64 word \<Rightarrow> etp \<Rightarrow> (ptr \<times> etp) option" where
  "eio_chmod env path mode pr cb dat =
     request_path env (REQ EIO_CHMOD pr cb dat) path (\<lambda>r. r\<lparr>int2 := uint mode\<rparr>)"

definition eio_mkdir ::
  "api_env \<Rightarrow> 64 word \<Rightarrow> 32 word \<Rightarrow> int \<Rightarrow> code_ptr \<Rightarrow> 64 word \<Rightarrow> etp \<Rightarrow> (ptr \<times> etp) option" where
  "eio_mkdir env path mode pr cb dat =
     request_path env (REQ EIO_MKDIR pr cb dat) path (\<lambda>r. r\<lparr>int2 := uint mode\<rparr>)"

definition eio_readlink ::
  "api_env \<Rightarrow> 64 word \<Rightarrow> int \<Rightarrow> code_ptr \<Rightarrow> 64 word \<Rightarrow> etp \<Rightarrow> (ptr \<times> etp) option" where
  "eio_readlink env path pr cb dat =
     eio__1path env EIO_READLINK path pr cb dat"

definition eio_stat ::
  "api_env \<Rightarrow> 64 word \<Rightarrow> int \<Rightarrow> code_ptr \<Rightarrow> 64 word \<Rightarrow> etp \<Rightarrow> (ptr \<times> etp) option" where
  "eio_stat env path pr cb dat =
     eio__1path env EIO_STAT path pr cb dat"

definition eio_lstat ::
  "api_env \<Rightarrow> 64 word \<Rightarrow> int \<Rightarrow> code_ptr \<Rightarrow> 64 word \<Rightarrow> etp \<Rightarrow> (ptr \<times> etp) option" where
  "eio_lstat env path pr cb dat =
     eio__1path env EIO_LSTAT path pr cb dat"

definition eio_statvfs ::
  "api_env \<Rightarrow> 64 word \<Rightarrow> int \<Rightarrow> code_ptr \<Rightarrow> 64 word \<Rightarrow> etp \<Rightarrow> (ptr \<times> etp) option" where
  "eio_statvfs env path pr cb dat =
     eio__1path env EIO_STATVFS path pr cb dat"

definition eio_unlink ::
  "api_env \<Rightarrow> 64 word \<Rightarrow> int \<Rightarrow> code_ptr \<Rightarrow> 64 word \<Rightarrow> etp \<Rightarrow> (ptr \<times> etp) option" where
  "eio_unlink env path pr cb dat =
     eio__1path env EIO_UNLINK path pr cb dat"

definition eio_rmdir ::
  "api_env \<Rightarrow> 64 word \<Rightarrow> int \<Rightarrow> code_ptr \<Rightarrow> 64 word \<Rightarrow> etp \<Rightarrow> (ptr \<times> etp) option" where
  "eio_rmdir env path pr cb dat =
     eio__1path env EIO_RMDIR path pr cb dat"

definition eio_readdir ::
  "api_env \<Rightarrow> 64 word \<Rightarrow> int \<Rightarrow> int \<Rightarrow> code_ptr \<Rightarrow> 64 word \<Rightarrow> etp \<Rightarrow> (ptr \<times> etp) option" where
  "eio_readdir env path fl pr cb dat =
     request_path env (REQ EIO_READDIR pr cb dat) path (\<lambda>r. r\<lparr>int1 := fl\<rparr>)"

definition eio_mknod ::
  "api_env \<Rightarrow> 64 word \<Rightarrow> 32 word \<Rightarrow> 64 word \<Rightarrow> int \<Rightarrow> code_ptr \<Rightarrow> 64 word \<Rightarrow> etp \<Rightarrow> (ptr \<times> etp) option" where
  "eio_mknod env path mode dev pr cb dat =
     request_path env (REQ EIO_MKNOD pr cb dat) path (\<lambda>r. r\<lparr>int2 := uint mode, offs := sint dev\<rparr>)"

definition eio_link ::
  "api_env \<Rightarrow> 64 word \<Rightarrow> 64 word \<Rightarrow> int \<Rightarrow> code_ptr \<Rightarrow> 64 word \<Rightarrow> etp \<Rightarrow> (ptr \<times> etp) option" where
  "eio_link env path new_path pr cb dat =
     eio__2path env EIO_LINK path new_path pr cb dat"

definition eio_symlink ::
  "api_env \<Rightarrow> 64 word \<Rightarrow> 64 word \<Rightarrow> int \<Rightarrow> code_ptr \<Rightarrow> 64 word \<Rightarrow> etp \<Rightarrow> (ptr \<times> etp) option" where
  "eio_symlink env path new_path pr cb dat =
     eio__2path env EIO_SYMLINK path new_path pr cb dat"

definition eio_rename ::
  "api_env \<Rightarrow> 64 word \<Rightarrow> 64 word \<Rightarrow> int \<Rightarrow> code_ptr \<Rightarrow> 64 word \<Rightarrow> etp \<Rightarrow> (ptr \<times> etp) option" where
  "eio_rename env path new_path pr cb dat =
     eio__2path env EIO_RENAME path new_path pr cb dat"

definition eio_custom ::
  "api_env \<Rightarrow> code_ptr \<Rightarrow> int \<Rightarrow> code_ptr \<Rightarrow> 64 word \<Rightarrow> etp \<Rightarrow> (ptr \<times> etp) option" where
  "eio_custom env execute pr cb dat =
     request env ((REQ EIO_CUSTOM pr cb dat)\<lparr>feed := execute\<rparr>)"

definition eio_grp :: "api_env \<Rightarrow> code_ptr \<Rightarrow> 64 word \<Rightarrow> etp \<Rightarrow> (ptr \<times> etp) option" where
  "eio_grp env cb dat = request env (REQ EIO_GROUP EIO_PRI_MAX cb dat)"

section \<open>Passing on\<close>

definition eio_init :: "code_ptr \<Rightarrow> code_ptr \<Rightarrow> etp \<Rightarrow> int \<times> etp" where
  "eio_init want_poll done_poll = etp_init want_poll done_poll"

definition eio_poll :: "poll_env \<Rightarrow> callbacks \<Rightarrow> etp \<Rightarrow> ((int \<times> int option) \<times> etp) option" where
  "eio_poll env cb = etp_poll env cb"

definition eio_nreqs :: "etp \<Rightarrow> 32 word" where "eio_nreqs = etp_nreqs"
definition eio_nready :: "etp \<Rightarrow> 32 word" where "eio_nready = etp_nready"
definition eio_npending :: "etp \<Rightarrow> 32 word" where "eio_npending = etp_npending"
definition eio_nthreads :: "etp \<Rightarrow> 32 word" where "eio_nthreads = etp_nthreads"

definition eio_set_max_poll_reqs :: "32 word \<Rightarrow> etp \<Rightarrow> etp" where
  "eio_set_max_poll_reqs maxreqs = etp_set_max_poll_reqs maxreqs"

definition eio_set_max_idle :: "32 word \<Rightarrow> etp \<Rightarrow> etp" where
  "eio_set_max_idle nthreads = etp_set_max_idle nthreads"

definition eio_set_idle_timeout :: "32 word \<Rightarrow> etp \<Rightarrow> etp" where
  "eio_set_idle_timeout seconds = etp_set_idle_timeout seconds"

definition eio_set_min_parallel :: "32 word \<Rightarrow> etp \<Rightarrow> etp" where
  "eio_set_min_parallel nthreads = etp_set_min_parallel nthreads"

definition eio_set_max_parallel :: "(nat \<Rightarrow> ptr) \<Rightarrow> 32 word \<Rightarrow> etp \<Rightarrow> etp option" where
  "eio_set_max_parallel mem nthreads = etp_set_max_parallel mem nthreads"

text \<open>\<open>max_poll_time = nseconds * EIO_TICKS\<close>; undefined when the product is no \<open>unsigned int\<close>.\<close>

definition etp_set_max_poll_time :: "eio_tstamp \<Rightarrow> etp \<Rightarrow> etp option" where
  "etp_set_max_poll_time nseconds s =
     map_option (\<lambda>t. s\<lparr>max_poll_time := t\<rparr>) (dbl_scaled_unsigned nseconds EIO_TICKS)"

definition eio_set_max_poll_time :: "eio_tstamp \<Rightarrow> etp \<Rightarrow> etp option" where
  "eio_set_max_poll_time nseconds = etp_set_max_poll_time nseconds"

text \<open>\<open>eio_sendfile_sync\<close>: with a worker structure of its own, whose buffer is freed at the end.\<close>

definition eio_sendfile_sync ::
  "'w libc \<Rightarrow> int \<Rightarrow> int \<Rightarrow> int \<Rightarrow> 64 word \<Rightarrow> 'w mach \<Rightarrow> (int \<times> 64 word list \<times> 'w mach) option" where
  "eio_sendfile_sync L ofd ifd offset len m = do {
     (ret, m') \<leftarrow> eio__sendfile L ofd ifd offset len (m\<lparr>m_dbuf := 0\<rparr>);
     Some (ret, if m_dbuf m' \<noteq> 0 then [m_dbuf m'] else [], m'\<lparr>m_dbuf := m_dbuf m\<rparr>) }"

end
