(* ===== verification/Api_Correct.thy ===== *)
theory Api_Correct
  imports Eio_Api
begin

text \<open>
  What the wrappers of \<open>Eio_Api\<close> achieve: the request each one submits makes, when a worker
  executes it, exactly the system call its name and arguments say; a wrapper that runs out of
  memory leaves no trace; and executing never touches what the thread pool relies on.
\<close>

section \<open>The submitted request\<close>

text \<open>Up to the priority and the link, which belong to the pool.\<close>

lemma push_stores:
  assumes "reqq_push q a h = Some (n, q', h')" and "h b = Some r"
  shows "\<exists>nx. h' b = Some (r\<lparr>next_req := nx\<rparr>)"
  using assms
  by (auto simp: reqq_push_def upd_Some Let_def split: bind_splits option.splits if_splits)
    (metis eio_req.surjective eio_req.update_convs(1))+

lemma put_stores:
  "put_request a s = Some s' \<Longrightarrow> reqs s b = Some r \<Longrightarrow> \<exists>nx. reqs s' b = Some (r\<lparr>next_req := nx\<rparr>)"
  "put_result a s = Some s' \<Longrightarrow> reqs s b = Some r \<Longrightarrow> \<exists>nx. reqs s' b = Some (r\<lparr>next_req := nx\<rparr>)"
  by (auto simp: put_request_def put_result_def push_req_def push_res_def trace_if_def
      split: bind_splits if_splits intro: push_stores)

lemma maybe_start_keeps: "etp_maybe_start_thread mem created s = Some s' \<Longrightarrow> reqs s' = reqs s"
  by (auto simp: etp_maybe_start_thread_def etp_start_thread_def split: bind_splits if_splits option.splits)

lemma submit_stores:
  assumes "eio_submit env a s = Some s'" and "reqs s a = Some r"
  shows "\<exists>nx. reqs s' a = Some (r\<lparr>pri := submit_pri (pri r), next_req := nx\<rparr>)"
proof -
  let ?s = "s\<lparr>reqs := (reqs s)(a \<mapsto> r\<lparr>pri := submit_pri (pri r)\<rparr>)\<rparr>"
  have a: "reqs ?s a = Some (r\<lparr>pri := submit_pri (pri r)\<rparr>)" "reqs (?s\<lparr>nreqs := nreqs s + 1\<rparr>) a = Some (r\<lparr>pri := submit_pri (pri r)\<rparr>)" by simp_all
  have sub: "(if req_type r = type_code EIO_GROUP then put_result a (?s\<lparr>nreqs := nreqs s + 1\<rparr>)
      else do { s \<leftarrow> put_request a ?s; etp_maybe_start_thread (ae_wrk env) (ae_created env) s }) = Some s'"
    using assms by (simp add: eio_submit_def etp_submit_def Let_def split: if_splits)
  show ?thesis
  proof (cases "req_type r = type_code EIO_GROUP")
    case True
    with sub put_stores(2) [OF _ a(2)] show ?thesis by simp
  next
    case False
    with sub obtain t where t: "put_request a ?s = Some t"
      "etp_maybe_start_thread (ae_wrk env) (ae_created env) t = Some s'"
      by (auto split: bind_splits)
    with put_stores(1) [OF t(1) a(1)] maybe_start_keeps [OF t(2)] show ?thesis by simp
  qed
qed

text \<open>\<open>performs E out c\<close>: whatever request a wrapper with the outcome \<open>out\<close> has submitted, executing
  it makes the one system call \<open>c\<close>, and the result and \<open>errno\<close> of the call end up in the request.\<close>

definition executed :: "'w exec_env \<Rightarrow> eio_req \<Rightarrow> 'w mach \<Rightarrow> (int \<times> int \<times> 'w mach) option" where
  "executed E r m = map_option (\<lambda>(r', m'). (result r', errorno r', m')) (eio_execute E r m)"

definition called :: "'w exec_env \<Rightarrow> syscall \<Rightarrow> 'w mach \<Rightarrow> (int \<times> int \<times> 'w mach) option" where
  "called E c m = (case kernel (libc E) c m of (x, m') \<Rightarrow> Some (x, m_errno m', m'))"

definition performs :: "'w exec_env \<Rightarrow> (ptr \<times> etp) option \<Rightarrow> syscall \<Rightarrow> bool" where
  "performs E out c \<longleftrightarrow>
     (\<forall>a s r m. out = Some (Some a, s) \<longrightarrow> reqs s a = Some r \<longrightarrow> executed E r m = called E c m)"

lemma request_performs:
  assumes "\<And>p nx m. executed E (r\<lparr>pri := p, next_req := nx\<rparr>) m = called E c m"
  shows "performs E (request env r s) c"
  using assms submit_stores [where env = env]
  by (fastforce simp: performs_def request_def SEND_def split: option.splits bind_splits)

lemma request_path_performs:
  assumes "\<And>p nx m. executed E ((f (r\<lparr>flags := EIO_FLAG_PTR1_FREE, ptr1 := ae_strdup1 env path\<rparr>))
      \<lparr>pri := p, next_req := nx\<rparr>) m = called E c m" and "flags r = 0"
  shows "performs E (request_path env r path f s) c"
  using assms submit_stores [where env = env]
  by (fastforce simp: performs_def request_path_def SEND_def PATH_def modify_def upd_def
      split: option.splits bind_splits if_splits)

lemma PATH_value:
  assumes "reqs s a = Some r"
  shows "PATH env a path s =
    (if ae_strdup1 env path = 0
     then Some (Inl (s\<lparr>reqs := (reqs s)(a := None), trace := Free_req a # trace s\<rparr>))
     else Some (Inr (s\<lparr>reqs := (reqs s)(a \<mapsto> r\<lparr>flags := flags r OR EIO_FLAG_PTR1_FREE,
       ptr1 := ae_strdup1 env path\<rparr>)\<rparr>)))"
  using assms by (simp add: PATH_def modify_def eio_api_destroy_def)

lemma two_paths_value:
  assumes "ae_req env = Some a" and "ae_strdup1 env path \<noteq> 0"
  shows "eio__2path env rtype path new_path pr cb dat s =
    (if ae_strdup2 env new_path = 0
     then Some (None, s\<lparr>reqs := (reqs s)(a := None), trace := Free_req a # trace s\<rparr>)
     else SEND env a (s\<lparr>reqs := (reqs s)(a \<mapsto> (REQ rtype pr cb dat)
       \<lparr>flags := EIO_FLAG_PTR1_FREE OR EIO_FLAG_PTR2_FREE, ptr1 := ae_strdup1 env path,
        ptr2 := ae_strdup2 env new_path\<rparr>)\<rparr>))"
  using assms by (simp add: eio__2path_def PATH_value modify_def eio_api_destroy_def REQ_def zero_req_def)

lemma SEND_stored:
  "SEND env a s = Some (Some b, s') \<Longrightarrow> reqs s a = Some r \<Longrightarrow>
   b = a \<and> (\<exists>nx. reqs s' b = Some (r\<lparr>pri := submit_pri (pri r), next_req := nx\<rparr>))"
  using submit_stores [of env a s s' r] by (auto simp: SEND_def split: bind_splits)

lemma request_2path_performs:
  assumes "\<And>p nx m. executed E ((REQ rtype pr cb dat)\<lparr>flags := EIO_FLAG_PTR1_FREE OR EIO_FLAG_PTR2_FREE,
      ptr1 := ae_strdup1 env path, ptr2 := ae_strdup2 env new_path, pri := p, next_req := nx\<rparr>) m = called E c m"
  shows "performs E (eio__2path env rtype path new_path pr cb dat s) c"
proof -
  { fix a t r m assume out: "eio__2path env rtype path new_path pr cb dat s = Some (Some a, t)" "reqs t a = Some r"
    then obtain b where b: "ae_req env = Some b" by (auto simp: eio__2path_def split: option.splits)
    with out(1) have d1: "ae_strdup1 env path \<noteq> 0"
      by (auto simp: eio__2path_def PATH_value split: if_splits)
    with out(1) two_paths_value [OF b d1] have "ae_strdup2 env new_path \<noteq> 0" by (auto split: if_splits)
    with out two_paths_value [OF b d1] have "executed E r m = called E c m"
      using assms by (auto dest!: SEND_stored) }
  then show ?thesis by (simp add: performs_def)
qed

text \<open>The same for a request whose result buffer the worker allocates.\<close>

definition called_with_buffer ::
  "'w exec_env \<Rightarrow> 64 word \<Rightarrow> (64 word \<Rightarrow> syscall) \<Rightarrow> 'w mach \<Rightarrow> (int \<times> int \<times> 'w mach) option" where
  "called_with_buffer E len c m =
     (case malloc (libc E) len m of (p, m) \<Rightarrow>
        if p = 0 then Some (- 1, ENOMEM, m\<lparr>m_errno := ENOMEM\<rparr>) else called E (c p) m)"

definition performs_with_buffer ::
  "'w exec_env \<Rightarrow> (ptr \<times> etp) option \<Rightarrow> 64 word \<Rightarrow> (64 word \<Rightarrow> syscall) \<Rightarrow> bool" where
  "performs_with_buffer E out len c \<longleftrightarrow>
     (\<forall>a s r m. out = Some (Some a, s) \<longrightarrow> reqs s a = Some r \<longrightarrow> executed E r m = called_with_buffer E len c m)"

lemma request_submits:
  "request env r s = Some (Some a, t) \<Longrightarrow> reqs t a = Some r' \<Longrightarrow> \<exists>p nx. r' = r\<lparr>pri := p, next_req := nx\<rparr>"
  by (auto simp: request_def split: option.splits dest!: SEND_stored) blast

lemma request_path_submits:
  assumes "request_path env r path f s = Some (Some a, t)" and "reqs t a = Some r'" and "flags r = 0"
  shows "\<exists>p nx. r' = (f (r\<lparr>flags := EIO_FLAG_PTR1_FREE, ptr1 := ae_strdup1 env path\<rparr>))
    \<lparr>pri := p, next_req := nx\<rparr>"
  using assms by (auto simp: request_path_def PATH_value modify_def split: option.splits if_splits dest!: SEND_stored) blast

lemmas exec_simps = executed_def called_def eio_execute_def exec_switch_def set_result_def REQ_def
  zero_req_def as_uint_def as_dev_def as_int_def

section \<open>Properties\<close>


text \<open>C35: the same for the wrappers that work on descriptors, on a platform that has the calls;
  \<open>eio_read\<close> is given a buffer here.\<close>

theorem fd_wrappers_perform:
  assumes "have_preadwrite (plat (libc E))" and "have_readahead (plat (libc E))"
    and "have_fdatasync (plat (libc E))" and "buf \<noteq> 0" and "- (2 ^ 31) \<le> fd2" and "fd2 < 2 ^ 31"
  shows "performs E (eio_fsync env fd pr cb dat s) (Fd (K_fsync fd)) \<and>
   performs E (eio_fdatasync env fd pr cb dat s) (Fd (K_fdatasync fd)) \<and>
   performs E (eio_close env fd pr cb dat s) (Fd (K_close fd)) \<and>
   performs E (eio_dup2 env fd fd2 pr cb dat s) (Fd (K_dup2 fd fd2)) \<and>
   performs E (eio_ftruncate env fd off pr cb dat s) (Fd (K_ftruncate fd off)) \<and>
   performs E (eio_fchmod env fd mode pr cb dat s) (Meta (K_fchmod fd mode)) \<and>
   performs E (eio_fchown env fd uid gid pr cb dat s) (Meta (K_fchown fd uid gid)) \<and>
   performs E (eio_readahead env fd off len pr cb dat s) (Fd (K_readahead fd off len)) \<and>
   performs E (eio_read env fd buf len off pr cb dat s)
     (Fd (if 0 \<le> off then K_pread fd buf len off else K_read fd buf len)) \<and>
   performs E (eio_write env fd buf len off pr cb dat s)
     (Fd (if 0 \<le> off then K_pwrite fd buf len off else K_write fd buf len))"
proof -
  have fd2: "sint (word_of_int fd2 :: 32 word) = fd2"
    using assms(5,6) by (simp add: sint_sbintrunc' signed_take_bit_int_eq_self)
  show ?thesis
    unfolding eio_fsync_def eio_fdatasync_def eio_close_def eio_dup2_def eio_ftruncate_def eio_fchmod_def
      eio_fchown_def eio_readahead_def eio_read_def eio_write_def
    by (intro conjI; rule request_performs; simp add: assms(1-4) exec_simps fd2 fdatasync_def readahead_def pread_def
        pwrite_def with_buffer_def ALLOC_def split: prod.split)
qed

text \<open>C40: a request for file status, for the target of a link, or for data without a buffer gets a
  buffer of the right size for its call; without memory it fails with \<open>ENOMEM\<close> and makes no call.\<close>

theorem buffers_allocated:
  assumes "0 \<le> off" and "have_preadwrite (plat (libc E))"
  shows "performs_with_buffer E (eio_stat env path pr cb dat s) (sizeof_stat (plat (libc E)))
     (\<lambda>p. Meta (K_stat (ae_strdup1 env path) p)) \<and>
   performs_with_buffer E (eio_lstat env path pr cb dat s) (sizeof_stat (plat (libc E)))
     (\<lambda>p. Meta (K_lstat (ae_strdup1 env path) p)) \<and>
   performs_with_buffer E (eio_fstat env fd pr cb dat s) (sizeof_stat (plat (libc E)))
     (\<lambda>p. Meta (K_fstat fd p)) \<and>
   performs_with_buffer E (eio_statvfs env path pr cb dat s) (sizeof_statvfs (plat (libc E)))
     (\<lambda>p. Meta (K_statvfs (ae_strdup1 env path) p)) \<and>
   performs_with_buffer E (eio_fstatvfs env fd pr cb dat s) (sizeof_statvfs (plat (libc E)))
     (\<lambda>p. Meta (K_fstatvfs fd p)) \<and>
   performs_with_buffer E (eio_readlink env path pr cb dat s) (path_max (plat (libc E)))
     (\<lambda>p. Path (K_readlink (ae_strdup1 env path) p (path_max (plat (libc E))))) \<and>
   performs_with_buffer E (eio_read env fd 0 len off pr cb dat s) len (\<lambda>p. Fd (K_pread fd p len off))"
  unfolding performs_with_buffer_def eio_stat_def eio_lstat_def eio_fstat_def eio_statvfs_def
    eio_fstatvfs_def eio_readlink_def eio_read_def eio__1path_def called_with_buffer_def
  by (intro conjI allI impI; (drule (1) request_submits | drule (1) request_path_submits);
      auto simp: assms exec_simps with_buffer_def ALLOC_def pread_def Let_def split: prod.split)

text \<open>A wrapper that gets no memory for the request returns the null pointer and changes nothing;
  one that gets none for the copy of its path frees the structure again and queues nothing.\<close>

theorem no_memory_no_request:
  assumes "reqs s a = None" and "ae_req env = None \<or> ae_req env = Some a \<and> ae_strdup1 env path = 0"
  shows "request_path env r path f s = eio__2path env rtype path new_path pr cb dat s \<and>
    eio__2path env rtype path new_path pr cb dat s =
      Some (None, if ae_req env = None then s else s\<lparr>trace := Free_req a # trace s\<rparr>) \<and>
    (ae_req env = None \<longrightarrow> request env r s = Some (None, s))"
  using assms(2) fun_upd_triv [of "reqs s" a]
  by (auto simp: request_path_def eio__2path_def request_def PATH_value assms(1))

text \<open>When the second of the two copies of \<open>eio_link\<close>, \<open>eio_symlink\<close> or \<open>eio_rename\<close> cannot be made,
  the only call of \<open>free\<close> is for the structure: the first copy, whose address is lost, leaks.\<close>

theorem two_paths_leak:
  assumes "reqs s a = None" and "ae_req env = Some a" and "ae_strdup1 env path \<noteq> 0"
    and "ae_strdup2 env new_path = 0"
  shows "eio_rename env path new_path pr cb dat s = Some (None, s\<lparr>trace := Free_req a # trace s\<rparr>)"
  using assms fun_upd_triv [of "reqs s" a] by (simp add: eio_rename_def two_paths_value)

section \<open>Executing and the pool\<close>

text \<open>What \<open>eio_execute\<close> may change in a request that is not an \<open>EIO_CUSTOM\<close> one.\<close>

definition exec_frame :: "eio_req \<Rightarrow> eio_req \<Rightarrow> bool" where
  "exec_frame r r' \<longleftrightarrow>
     next_req r' = next_req r \<and> pri r' = pri r \<and> req_type r' = req_type r \<and> offs r' = offs r \<and>
     req_size r' = req_size r \<and> nv1 r' = nv1 r \<and> nv2 r' = nv2 r \<and> int2 r' = int2 r \<and> int3 r' = int3 r \<and>
     data r' = data r \<and> finish r' = finish r \<and> destroy r' = destroy r \<and> feed r' = feed r \<and>
     grp r' = grp r \<and> grp_prev r' = grp_prev r \<and> grp_next r' = grp_next r \<and> grp_first r' = grp_first r \<and>
     flags r' AND NOT (EIO_FLAG_PTR1_FREE OR EIO_FLAG_PTR2_FREE) =
       flags r AND NOT (EIO_FLAG_PTR1_FREE OR EIO_FLAG_PTR2_FREE)"

lemma or_mask: "fl AND NOT M = (0 :: 8 word) \<Longrightarrow> (w OR fl) AND NOT M = w AND NOT M"
  by (simp add: bit.conj_disj_distrib2)

lemmas buffer_flags =
  or_mask [of EIO_FLAG_PTR2_FREE "EIO_FLAG_PTR1_FREE OR EIO_FLAG_PTR2_FREE"]
  or_mask [of "EIO_FLAG_PTR1_FREE OR EIO_FLAG_PTR2_FREE" "EIO_FLAG_PTR1_FREE OR EIO_FLAG_PTR2_FREE"]

lemma exec_frame_result: "exec_frame r (r\<lparr>result := x\<rparr>)"
  by (simp add: exec_frame_def)

lemma set_result_frame: "set_result r out = (r', m') \<Longrightarrow> exec_frame r r'"
  by (auto simp: set_result_def exec_frame_def)

lemma map_set_result: "map_option (set_result r) x = Some (r', m') \<Longrightarrow> exec_frame r r'"
  by (auto simp: set_result_def exec_frame_def)

lemma with_buffer_frame: "with_buffer L len f r m = (r', m') \<Longrightarrow> exec_frame r r'"
  using buffer_flags(1)
  by (auto simp: with_buffer_def ALLOC_def set_result_def Let_def exec_frame_def eio_flag_defs
      split: prod.splits if_splits)

lemma readdir_frame: "exec_readdir E r m = Some (r', m') \<Longrightarrow> exec_frame r r'"
  using buffer_flags(2) [of "flags r"]
  by (auto simp: exec_readdir_def Let_def exec_frame_def simp del: bit.de_Morgan_disj split: bind_splits)

lemma index_of_nth: "distinct xs \<Longrightarrow> i < length xs \<Longrightarrow> length (takeWhile (\<lambda>u. u \<noteq> xs ! i) xs) = i"
proof (induction xs arbitrary: i)
  case (Cons x xs)
  then show ?case by (cases i) auto
qed simp

lemma type_of_code_Some: "type_of_code c = Some t \<Longrightarrow> c = type_code t"
proof -
  assume t: "type_of_code c = Some t"
  have "distinct eio_types" by (simp add: eio_types_def)
  with t index_of_nth [of eio_types "nat c"] show ?thesis
    by (auto simp: type_of_code_def type_code_def split: if_splits)
qed

lemma exec_switch_frame:
  assumes "exec_switch E r m = Some (r', m')" and "req_type r \<noteq> type_code EIO_CUSTOM"
  shows "exec_frame r r'"
proof (cases "type_of_code (req_type r)")
  case None
  with assms(1) show ?thesis by (auto simp: exec_switch_def exec_frame_def)
next
  case (Some t)
  then have "t \<noteq> EIO_CUSTOM" using assms(2) type_of_code_Some by blast
  with Some assms(1) show ?thesis
    by (cases t)
      (auto simp: exec_switch_def Let_def exec_frame_result split: bind_splits
        dest: set_result_frame map_set_result with_buffer_frame readdir_frame)
qed

lemma execute_frame:
  assumes "eio_execute E r m = Some (r', m')" and "req_type r \<noteq> type_code EIO_CUSTOM"
  shows "exec_frame r r' \<and> same_req r r' \<and> (EIO_CANCELLED r' \<longleftrightarrow> EIO_CANCELLED r)"
proof -
  from assms(1) obtain q where "exec_switch E r m = Some (q, m')" "r' = q\<lparr>errorno := m_errno m'\<rparr>"
    by (auto simp: eio_execute_def split: bind_splits)
  with exec_switch_frame [OF _ assms(2)] have f: "exec_frame r r'" by (simp add: exec_frame_def)
  then have fl: "flags r' AND NOT (EIO_FLAG_PTR1_FREE OR EIO_FLAG_PTR2_FREE) =
      flags r AND NOT (EIO_FLAG_PTR1_FREE OR EIO_FLAG_PTR2_FREE)" and same: "same_req r r'"
    by (simp_all only: exec_frame_def same_req_def simp_thms)
  have "bit (flags r') 0 = bit (flags r) 0"
    using arg_cong [OF fl, of "\<lambda>w. bit w 0"] by (simp add: bit_and_iff bit_or_iff bit_not_iff eio_flag_defs)
  with f same show ?thesis unfolding EIO_CANCELLED_bit by blast
qed

text \<open>The step the interleaving model takes for \<open>ETP_EXECUTE\<close> allows everything \<open>eio_execute\<close> does:
  for a request that is not an \<open>EIO_CUSTOM\<close> one, the queue link, the priority, the type, the
  callbacks, the group and the cancel flag survive the execution.\<close>

theorem execute_is_step:
  assumes "eio_execute E r m = Some (r', m')" and "req_type r \<noteq> type_code EIO_CUSTOM"
    and "reqs s a = Some r" and "wrks s self = Some w"
  shows "exec_step self a s (s\<lparr>reqs := (reqs s)(a \<mapsto> r'),
      wrks := (wrks s)(self \<mapsto> w\<lparr>dbuf := m_dbuf m', dirp := m_dirp m'\<rparr>)\<rparr>) \<and>
    exec_frame r r' \<and> (EIO_CANCELLED r' \<longleftrightarrow> EIO_CANCELLED r)"
  using execute_frame [OF assms(1,2)] assms(3,4) unfolding exec_step_def by blast

lemma submit_pri_in_range:
  assumes "- 4 \<le> sint p" and "sint p \<le> 4"
  shows "sint (submit_pri p) = sint p + 4"
  using assms sint_to_schar [of "sint p + 4"] by (simp add: submit_pri_def eio_pri_defs Let_def)

lemma enter_queue:
  assumes "ae_req env = Some a" and "reqs s a = None" and "req_type r \<noteq> type_code EIO_GROUP"
    and "reqq_rep (reqs s) (req_queue s) rq" and "room (req_queue s)" and "wanted s \<le> started s"
    and "- 4 \<le> sint (pri r)" and "sint (pri r) \<le> 4"
  shows "\<exists>s'. request env r s = Some (Some a, s') \<and>
    reqq_rep (reqs s') (req_queue s') (fifo_push (nat (sint (pri r) + 4)) a rq) \<and>
    nreqs s' = nreqs s + 1 \<and> nready s' = nready s + 1 \<and> res_queue s' = res_queue s"
proof -
  let ?r = "r\<lparr>pri := submit_pri (pri r)\<rparr>"
  let ?h = "(reqs s)(a \<mapsto> ?r)" and ?k = "nat (sint (pri r) + 4)"
  have fresh: "a \<notin> set (concat rq)"
    using reqq_rep_member [OF assms(4)] assms(2) by (metis option.distinct(1))
  have rep: "reqq_rep ?h (req_queue s) rq"
    using reqq_rep_frame [OF assms(4) same_links_upd_other [OF fresh]] .
  have k: "pri_index ?r = Some ?k"
    using assms(7,8) submit_pri_in_range [OF assms(7,8)] by (simp add: pri_index_def)
  have "int (length (concat rq)) < INT_MAX" using assms(5) reqq_repD(6) [OF assms(4)] by (simp add: room_def)
  from reqq_push_rep [OF rep _ k fresh this] obtain q h where
    q: "reqq_push (req_queue s) a ?h = Some (int (length (concat rq)), q, h)"
      "reqq_rep h q (fifo_push ?k a rq)" by auto
  let ?s = "s\<lparr>reqs := h, nreqs := nreqs s + 1, nready := nready s + 1, req_queue := q, trace := Cond_signal # trace s\<rparr>"
  have "put_request a (s\<lparr>reqs := ?h\<rparr>) = Some ?s"
    using q(1) by (simp add: put_request_def push_req_def trace_if_def)
  moreover have "etp_maybe_start_thread (ae_wrk env) (ae_created env) ?s = Some ?s"
    using assms(6) by (intro no_start) simp
  ultimately have "request env r s = Some (Some a, ?s)"
    using assms(1,3) by (simp add: request_def SEND_def eio_submit_def etp_submit_def Let_def)
  with q(2) show ?thesis by (intro exI [of _ ?s]) simp
qed

text \<open>With memory for it, and threads enough not to start another, a request that is no group is
  entered behind the waiting requests of its priority and the two counters go up by one; the
  result queue stays as it is.\<close>

theorem request_enters_queue:
  assumes "ae_req env = Some a" and "reqs s a = None" and "req_type r \<noteq> type_code EIO_GROUP"
    and "reqq_rep (reqs s) (req_queue s) rq" and "room (req_queue s)" and "wanted s \<le> started s"
    and "- 4 \<le> sint (pri r)" and "sint (pri r) \<le> 4"
  shows "\<exists>s'. request env r s = Some (Some a, s') \<and>
    reqq_rep (reqs s') (req_queue s') (fifo_push (nat (sint (pri r) + 4)) a rq) \<and>
    nreqs s' = nreqs s + 1 \<and> nready s' = nready s + 1 \<and> res_queue s' = res_queue s"
  by (rule enter_queue [OF assms])

section \<open>Witnesses\<close>

definition some_api :: api_env where
  "some_api = \<lparr>ae_req = Some 64, ae_strdup1 = (\<lambda>p. p + 0x1000), ae_strdup2 = (\<lambda>p. p + 0x2000),
     ae_wrk = None, ae_created = False\<rparr>"

definition ready_pool :: etp where
  "ready_pool = (etp_start Map.empty)\<lparr>started := 4\<rparr>"

definition no_dir :: scan_env where
  "no_dir = \<lparr>opendir_ok = False, open_errno = 2, malloc_names = True, malloc_dents = True,
     realloc_names = (\<lambda>n. True), realloc_dents = (\<lambda>n. True)\<rparr>"

definition some_exec :: "(8 word list \<times> 8 word list) exec_env" where
  "some_exec = \<lparr>libc = slow_libc [1, 2, 3], endianness_of = Little,
     scan_of = (\<lambda>p m. \<lparr>si_env = no_dir, si_entries = [], si_end_errno = 0, si_dirp = 0, si_dents = 0, si_names = 0\<rparr>),
     run_custom = (\<lambda>f r m. None)\<rparr>"

lemma ready_pool_facts:
  "reqq_rep (reqs ready_pool) (req_queue ready_pool) (replicate 9 [])" "room (req_queue ready_pool)"
  "wanted ready_pool \<le> started ready_pool" "reqs ready_pool 64 = None" "ae_req some_api = Some 64"
  using reqq_rep_empty
  by (simp_all add: ready_pool_def etp_start_def room_def reqq_empty_def INT_MAX_def some_api_def)

lemma some_submitted:
  assumes "req_type q \<noteq> type_code EIO_GROUP" and "pri q = 0"
  shows "\<exists>s r. request some_api q ready_pool = Some (Some 64, s) \<and> reqs s 64 = Some r"
proof -
  from enter_queue [OF ready_pool_facts(5,4) assms(1) ready_pool_facts(1-3)] assms(2) obtain s where
    s: "request some_api q ready_pool = Some (Some 64, s)"
      "reqq_rep (reqs s) (req_queue s) (fifo_push (nat (sint (pri q) + 4)) 64 (replicate 9 []))" by auto
  have "64 \<in> set (concat (fifo_push (nat (sint (pri q) + 4)) 64 (replicate 9 [])))"
    using assms(2) by (auto simp: fifo_push_def intro!: bexI [of _ "[64]"] set_update_memI)
  from reqq_rep_member [OF s(2) this] s(1) show ?thesis by blast
qed

theorem request_enters_queue_witness:
  "\<exists>s. eio_nop some_api 2 None 7 ready_pool = Some (Some 64, s) \<and>
    reqq_rep (reqs s) (req_queue s) (fifo_push 6 64 (replicate 9 [])) \<and> nreqs s = 1 \<and> nready s = 1"
proof -
  let ?r = "REQ EIO_NOP 2 None 7"
  have r: "req_type ?r \<noteq> type_code EIO_GROUP" "sint (pri ?r) = 2"
    by (simp_all add: REQ_def sint_to_schar)
  from request_enters_queue [OF ready_pool_facts(5,4) r(1) ready_pool_facts(1-3)] r(2) show ?thesis
    by (auto simp: eio_nop_def ready_pool_def etp_start_def)
qed

theorem fd_wrappers_perform_witness:
  "\<exists>s r. eio_close some_api 3 0 None 0 ready_pool = Some (Some 64, s) \<and> reqs s 64 = Some r \<and>
    executed some_exec r slow_start = called some_exec (Fd (K_close 3)) slow_start"
proof -
  have p: "have_preadwrite (plat (libc some_exec))" "have_readahead (plat (libc some_exec))"
    "have_fdatasync (plat (libc some_exec))" by (simp_all add: some_exec_def slow_libc_def linux_def)
  have "performs some_exec (eio_close some_api 3 0 None 0 ready_pool) (Fd (K_close 3))"
    using fd_wrappers_perform [OF p, of 1 2] by simp
  moreover have "\<exists>s r. eio_close some_api 3 0 None 0 ready_pool = Some (Some 64, s) \<and> reqs s 64 = Some r"
    unfolding eio_close_def by (rule some_submitted) (simp_all add: REQ_def to_schar_def)
  ultimately show ?thesis unfolding performs_def by blast
qed

theorem buffers_allocated_witness:
  "\<exists>s r. eio_fstat some_api 3 0 None 0 ready_pool = Some (Some 64, s) \<and> reqs s 64 = Some r \<and>
    executed some_exec r slow_start =
      called_with_buffer some_exec (sizeof_stat linux) (\<lambda>p. Meta (K_fstat 3 p)) slow_start"
proof -
  have p: "plat (libc some_exec) = linux" "have_preadwrite linux"
    by (simp_all add: some_exec_def slow_libc_def linux_def)
  have "performs_with_buffer some_exec (eio_fstat some_api 3 0 None 0 ready_pool) (sizeof_stat linux)
      (\<lambda>p. Meta (K_fstat 3 p))"
    using buffers_allocated [of 0 some_exec, unfolded p(1), OF _ p(2)] by simp
  moreover have "\<exists>s r. eio_fstat some_api 3 0 None 0 ready_pool = Some (Some 64, s) \<and> reqs s 64 = Some r"
    unfolding eio_fstat_def by (rule some_submitted) (simp_all add: REQ_def to_schar_def)
  ultimately show ?thesis unfolding performs_with_buffer_def by blast
qed

theorem no_memory_no_request_witness:
  "eio_open (some_api\<lparr>ae_req := None\<rparr>) 7 0 0 0 None 0 ready_pool = Some (None, ready_pool)"
  using no_memory_no_request [where s = ready_pool and a = 64 and env = "some_api\<lparr>ae_req := None\<rparr>"
      and path = 7 and rtype = EIO_LINK and new_path = 9 and pr = 0 and cb = None and dat = 0
      and r = "REQ EIO_OPEN 0 None 0" and f = "\<lambda>r. r\<lparr>int1 := 0, int2 := uint (0 :: 32 word)\<rparr>"]
    ready_pool_facts(4)
  by (simp add: eio_open_def)

theorem two_paths_leak_witness:
  "eio_rename (some_api\<lparr>ae_strdup2 := (\<lambda>p. 0)\<rparr>) 7 9 0 None 0 ready_pool =
    Some (None, ready_pool\<lparr>trace := [Free_req 64]\<rparr>)"
proof -
  have "ae_strdup1 (some_api\<lparr>ae_strdup2 := (\<lambda>p. 0)\<rparr>) 7 \<noteq> 0" by (simp add: some_api_def)
  from two_paths_leak [OF ready_pool_facts(4) _ this] ready_pool_facts(5) show ?thesis
    by (simp add: ready_pool_def etp_start_def)
qed

theorem execute_is_step_witness:
  "exec_step 16 64
    ((etp_start [64 \<mapsto> zero_req\<lparr>req_type := type_code EIO_NOP\<rparr>])\<lparr>wrks := [16 \<mapsto> zero_worker]\<rparr>)
    ((etp_start [64 \<mapsto> zero_req\<lparr>req_type := type_code EIO_NOP\<rparr>])\<lparr>wrks := [16 \<mapsto> zero_worker]\<rparr>)"
proof -
  let ?r = "zero_req\<lparr>req_type := type_code EIO_NOP\<rparr>"
  let ?s = "(etp_start [64 \<mapsto> ?r])\<lparr>wrks := [16 \<mapsto> zero_worker]\<rparr>"
  have ex: "eio_execute some_exec ?r slow_start = Some (?r, slow_start)"
    by (simp add: eio_execute_def exec_switch_def slow_start_def zero_req_def)
  have s: "reqs ?s 64 = Some ?r" "wrks ?s 16 = Some zero_worker" by (simp_all add: etp_start_def)
  have "?s\<lparr>reqs := (reqs ?s)(64 \<mapsto> ?r), wrks := (wrks ?s)(16 \<mapsto> zero_worker
      \<lparr>dbuf := m_dbuf slow_start, dirp := m_dirp slow_start\<rparr>)\<rparr> = ?s"
    by (simp add: etp_start_def slow_start_def zero_worker_def)
  with execute_is_step [OF ex _ s] show ?thesis by simp
qed

end
