(* ===== verification/Eio_Life.thy ===== *)
theory Eio_Life
  imports Api_Correct
begin

text \<open>
  The life of one request through all parts of \<open>src/libeio/eio.c\<close>: the wrapper that builds and
  submits it, a round of a worker thread, and the poll that calls its callback and frees it.
\<close>

section \<open>One round of a worker\<close>

text \<open>
  The body of the loop of \<open>etp_proc\<close> with a request waiting that is no terminator: take it, execute
  it unless it is cancelled, hand it over. The worker's buffer and directory are in its record.
\<close>

definition run_request ::
  "'w exec_env \<Rightarrow> addr \<Rightarrow> addr \<Rightarrow> etp \<Rightarrow> 'w mach \<Rightarrow> (etp \<times> 'w mach) option" where
  "run_request E self a s m = do {
     r \<leftarrow> reqs s a;
     w \<leftarrow> wrks s self;
     (r, m) \<leftarrow> eio_execute E r (m\<lparr>m_dbuf := dbuf w, m_dirp := dirp w\<rparr>);
     Some (s\<lparr>reqs := (reqs s)(a \<mapsto> r), wrks := (wrks s)(self \<mapsto> w\<lparr>dbuf := m_dbuf m, dirp := m_dirp m\<rparr>)\<rparr>, m) }"

definition proc_round :: "'w exec_env \<Rightarrow> addr \<Rightarrow> etp \<Rightarrow> 'w mach \<Rightarrow> (etp \<times> 'w mach) option" where
  "proc_round E self s m = do {
     (req, s) \<leftarrow> proc_shift self s;
     a \<leftarrow> req;
     r \<leftarrow> reqs s a;
     (s, m) \<leftarrow> (if req_type r < 0 then None
       else if EIO_CANCELLED r then Some (s, m) else run_request E self a s m);
     s \<leftarrow> proc_done self a s;
     Some (s, m) }"

section \<open>The only request of a queue\<close>

definition only :: "nat \<Rightarrow> addr \<Rightarrow> etp_reqq" where
  "only k a = \<lparr>qs = (replicate 9 None)[k := Some a], qe = (replicate 9 None)[k := Some a], qsize = 1\<rparr>"

lemma push_only:
  assumes "h a = Some r" and "pri_index r = Some k"
  shows "reqq_push reqq_empty a h = Some (0, only k a, h(a \<mapsto> r\<lparr>next_req := None\<rparr>))"
proof -
  have "k < 9" using assms(2) by (simp add: pri_index_Some)
  then show ?thesis
    using assms by (simp add: reqq_push_def reqq_empty_def only_def upd_Some int_chk_def INT_MIN_def INT_MAX_def)
qed

lemma shift_only:
  assumes "h a = Some r" and "k < 9" and "next_req r = None"
  shows "reqq_shift (only k a) h = Some (Some a, reqq_empty)"
proof -
  have scan: "reqq_scan n \<lparr>qs = (replicate 9 None)[k := Some a], qe = (replicate 9 None)[k := Some a], qsize = 0\<rparr> h =
      Some (Some a, reqq_empty)" if "k < n" "n \<le> 9" for n
    using that
  proof (induction n)
    case (Suc n)
    then show ?case
    proof (cases "k = n")
      case True
      have "(replicate 9 None)[n := None] = replicate 9 (None :: ptr)"
        using Suc.prems(2) by (metis Suc_le_lessD list_update_id nth_replicate)
      with True Suc.prems assms show ?thesis by (simp add: reqq_empty_def)
    next
      case False
      with Suc show ?thesis by simp
    qed
  qed simp
  from scan [of 9] assms(2) show ?thesis
    by (simp add: reqq_shift_def only_def int_chk_def INT_MIN_def INT_MAX_def)
qed

text \<open>What is in the request queue is not yet in the result queue: the queues take turns.\<close>

definition quiet :: "etp \<Rightarrow> bool" where
  "quiet s \<longleftrightarrow> req_queue s = reqq_empty \<and> res_queue s = reqq_empty"

lemma submit_only:
  assumes "quiet s" and "ae_req env = Some a" and "req_type r \<noteq> type_code EIO_GROUP" and "wanted s \<le> started s"
    and "pri_index (r\<lparr>pri := submit_pri (pri r)\<rparr>) = Some k"
  shows "request env r s = Some (Some a, s\<lparr>reqs := (reqs s)(a \<mapsto> r\<lparr>pri := submit_pri (pri r), next_req := None\<rparr>),
    nreqs := nreqs s + 1, nready := nready s + 1, req_queue := only k a, trace := Cond_signal # trace s\<rparr>)"
proof -
  let ?r = "r\<lparr>pri := submit_pri (pri r)\<rparr>"
  have "reqq_push reqq_empty a ((reqs s)(a \<mapsto> ?r)) = Some (0, only k a, (reqs s)(a \<mapsto> ?r\<lparr>next_req := None\<rparr>))"
    using push_only [of "(reqs s)(a \<mapsto> ?r)" a ?r k] assms(5) by simp
  then show ?thesis
    using assms(1-4)
    by (simp add: request_def SEND_def eio_submit_def etp_submit_def Let_def put_request_def push_req_def
        trace_if_def quiet_def no_start)
qed

definition round_trace :: "etp \<Rightarrow> 'w mach \<Rightarrow> event list" where
  "round_trace s m =
     (if m_dirp m \<noteq> 0 then [Close_dir (m_dirp m)] else []) @ (if m_dbuf m \<noteq> 0 then [Free_buf (m_dbuf m)] else []) @
     (if want_poll_cb s \<noteq> None then [Want_poll] else []) @ trace s"

lemma round_only:
  assumes "req_queue s = only k a" and "res_queue s = reqq_empty" and "k < 9" and "wrks s self = Some w"
    and r: "reqs s a = Some r" "next_req r = None" "\<not> EIO_CANCELLED r" "pri_index r = Some k" "0 \<le> req_type r"
    and ex: "eio_execute E r (m\<lparr>m_dbuf := dbuf w, m_dirp := dirp w\<rparr>) = Some (r', m')"
    and same: "next_req r' = next_req r" "pri r' = pri r"
  shows "proc_round E self s m = Some (s\<lparr>reqs := (reqs s)(a \<mapsto> r'),
      wrks := (wrks s)(self \<mapsto> w\<lparr>wrk_req := None, dbuf := 0, dirp := 0\<rparr>), nready := nready s - 1,
      npending := npending s + 1, req_queue := reqq_empty, res_queue := only k a,
      trace := round_trace s m'\<rparr>, m')"
proof -
  let ?w = "(wrks s)(self \<mapsto> w\<lparr>wrk_req := Some a\<rparr>)"
  let ?s = "s\<lparr>wrks := ?w, req_queue := reqq_empty, nready := nready s - 1\<rparr>"
  have "proc_shift self s = Some (Some a, ?s)"
    using shift_only [of "reqs s", OF r(1) assms(3) r(2)] assms(1,4)
    by (simp add: proc_shift_def shift_req_def wupd_def Let_def)
  moreover let ?t = "?s\<lparr>reqs := (reqs s)(a \<mapsto> r'),
      wrks := ?w(self \<mapsto> w\<lparr>wrk_req := Some a, dbuf := m_dbuf m', dirp := m_dirp m'\<rparr>)\<rparr>"
  have "run_request E self a ?s m = Some (?t, m')"
    using r(1) ex by (simp add: run_request_def)
  moreover have "proc_done self a ?t = Some (s\<lparr>reqs := (reqs s)(a \<mapsto> r'),
      wrks := (wrks s)(self \<mapsto> w\<lparr>wrk_req := None, dbuf := 0, dirp := 0\<rparr>), nready := nready s - 1,
      npending := npending s + 1, req_queue := reqq_empty, res_queue := only k a,
      trace := round_trace s m'\<rparr>)"
  proof -
    have "r'\<lparr>next_req := None\<rparr> = r'" using same r(2) by simp
    then have "reqq_push reqq_empty a ((reqs s)(a \<mapsto> r')) = Some (0, only k a, (reqs s)(a \<mapsto> r'))"
      using push_only [of "(reqs s)(a \<mapsto> r')" a r' k] same r(4) by (simp add: pri_index_cong [OF same(2)])
    then show ?thesis
      using assms(2)
      by (simp add: proc_done_def put_result_def push_res_def trace_if_def wupd_def etp_worker_clear_def
          round_trace_def)
  qed
  ultimately show ?thesis using r(1,3,5) by (auto simp: proc_round_def)
qed

text \<open>A callback that looks at its request and answers \<open>ans\<close> of it.\<close>

definition answers :: "(eio_req \<Rightarrow> int) \<Rightarrow> callbacks \<Rightarrow> bool" where
  "answers ans cb \<longleftrightarrow>
     cb_finish cb = (\<lambda>f a s. map_option (\<lambda>r. (ans r, s)) (reqs s a)) \<and> cb_destroy cb = (\<lambda>f. eio_api_destroy)"

lemma finish_answers:
  assumes "answers ans cb" and r: "reqs s a = Some r" "finish r = Some f" "\<not> EIO_CANCELLED r" "grp r = None"
    "destroy r \<noteq> None"
  shows "\<exists>tr. eio_finish cb a s = Some (ans r, s\<lparr>reqs := (reqs s)(a := None), trace := tr\<rparr>) \<and>
    filter is_free tr = Free_req a # filter is_free (trace s)"
proof -
  have "EIO_FINISH cb a s = Some (ans r, s)" using assms by (simp add: EIO_FINISH_def answers_def)
  moreover have "\<exists>tr. eio_destroy cb a s = Some (s\<lparr>reqs := (reqs s)(a := None), trace := tr\<rparr>) \<and>
      filter is_free tr = Free_req a # filter is_free (trace s)"
    using assms(1) r(1,5)
    by (auto simp: eio_destroy_def EIO_DESTROY_def answers_def eio_api_destroy_def free_buf_def trace_if_def
        Let_def is_free_def)
  ultimately show ?thesis using r(1,4) by (auto simp: eio_finish_unfold [of cb a])
qed

lemma poll_only:
  assumes "req_queue s = reqq_empty" and "res_queue s = only k a" and k: "k < 9"
    and r: "reqs s a = Some r" "next_req r = None" "finish r = Some f" "\<not> EIO_CANCELLED r" "grp r = None" "destroy r \<noteq> None"
    and ty: "req_type r \<noteq> type_code EIO_GROUP" and cb: "answers ans cb" and th: "wanted s \<le> started s"
    and lim: "max_poll_reqs s \<noteq> 1" "max_poll_time s = 0"
  shows "\<exists>tr. etp_poll env cb s = Some ((ans r, None), s\<lparr>reqs := (reqs s)(a := None), res_queue := reqq_empty,
      npending := npending s - 1, nreqs := nreqs s - 1, trace := tr\<rparr>) \<and> filter is_free tr = Free_req a # filter is_free (trace s)"
proof -
  define t0 where "t0 = trace_if (done_poll_cb s \<noteq> None) Done_poll (s\<lparr>res_queue := reqq_empty, npending := npending s - 1\<rparr>)"
  define t where "t = t0\<lparr>nreqs := nreqs t0 - 1\<rparr>"
  have take: "take_result s = Some (Some a, t0)"
    using shift_only [of "reqs s", OF r(1) k r(2)] assms(2)
    by (simp add: take_result_def shift_res_def reqq_empty_def t0_def)
  have t: "reqs t = reqs s" "\<And>h tr. t\<lparr>reqs := h, trace := tr\<rparr> = s\<lparr>reqs := h, res_queue := reqq_empty,
      npending := npending s - 1, nreqs := nreqs s - 1, trace := tr\<rparr>"
    "filter is_free (trace t) = filter is_free (trace s)"
    by (simp_all add: t_def t0_def trace_if_def is_free_def)
  have ra: "reqs t a = Some r" "reqs t0 a = Some r" using t(1) r(1) by (simp_all add: t0_def trace_if_def)
  from finish_answers [OF cb ra(1) r(3-6)] obtain tr where
    fin: "eio_finish cb a t = Some (ans r, t\<lparr>reqs := (reqs s)(a := None), trace := tr\<rparr>)"
      "filter is_free tr = Free_req a # filter is_free (trace s)" using t(1,3) by auto
  define u where "u = t\<lparr>reqs := (reqs s)(a := None), trace := tr\<rparr>"
  have "wanted u \<le> started u" "res_queue u = reqq_empty" using th by (simp_all add: u_def t(2))
  then have empty: "poll_loop env cb x 0 n u = Some ((0, None), u)" for x n
    by (intro poll_loop_empty) (simp_all add: take_result_def shift_res_def reqq_shift_def reqq_empty_def)
  have "etp_poll env cb s = Some ((ans r, None), u)"
    using no_start [OF th] take fin(1) ra ty lim empty unfolding t_def [symmetric] u_def [symmetric]
    by (simp add: etp_poll_def poll_loop.simps [of env cb _ _ _ s] t_def [symmetric])
  with fin(2) show ?thesis by (intro exI [of _ tr]) (simp add: u_def t(2))
qed

text \<open>C4: On an idle pool a request that a wrapper has built is submitted, one round of a worker executes
  it and one poll calls its callback on it with the result and \<open>errno\<close> of the execution; the value of
  the callback is the value of the poll. The request is freed, once, and queues, counters and
  requests are what they were.\<close>

theorem request_served:
  assumes pool: "quiet s" "wanted s \<le> started s" "max_poll_reqs s \<noteq> 1" "max_poll_time s = 0"
    and env: "ae_req env = Some a" "reqs s a = None" "wrks s self = Some w" "answers ans cb"
    and r: "finish r = Some f" "destroy r \<noteq> None" "\<not> EIO_CANCELLED r" "grp r = None" "0 \<le> req_type r"
      "req_type r \<noteq> type_code EIO_GROUP" "req_type r \<noteq> type_code EIO_CUSTOM"
    and ex: "eio_execute E (r\<lparr>pri := submit_pri (pri r), next_req := None\<rparr>)
      (m\<lparr>m_dbuf := dbuf w, m_dirp := dirp w\<rparr>) = Some (q, m')"
  shows "\<exists>s1 s2 s3. request env r s = Some (Some a, s1) \<and> proc_round E self s1 m = Some (s2, m') \<and>
    etp_poll penv cb s2 = Some ((ans q, None), s3) \<and> quiet s3 \<and> reqs s3 = reqs s \<and>
    nreqs s3 = nreqs s \<and> nready s3 = nready s \<and> npending s3 = npending s \<and>
    filter is_free (trace s3) = Free_req a # filter is_free (trace s)"
proof -
  let ?r = "r\<lparr>pri := submit_pri (pri r), next_req := None\<rparr>"
  obtain k where k: "pri_index (r\<lparr>pri := submit_pri (pri r)\<rparr>) = Some k" "k < 9"
    using submit_pri_index [of "pri r" r] by (auto simp: pri_index_Some)
  have k': "pri_index ?r = Some k" using k(1) pri_index_cong [of ?r "r\<lparr>pri := submit_pri (pri r)\<rparr>"] by simp
  let ?s1 = "s\<lparr>reqs := (reqs s)(a \<mapsto> ?r), nreqs := nreqs s + 1, nready := nready s + 1,
    req_queue := only k a, trace := Cond_signal # trace s\<rparr>"
  have sub: "request env r s = Some (Some a, ?s1)" by (rule submit_only) (use pool env r k in simp_all)
  have frame: "exec_frame ?r q" "same_req ?r q" "EIO_CANCELLED q \<longleftrightarrow> EIO_CANCELLED ?r"
    using execute_frame [OF ex] r(7) by simp_all
  have fr: "next_req q = None" "pri q = submit_pri (pri r)" "finish q = Some f" "destroy q \<noteq> None" "grp q = None"
    "req_type q = req_type r" "\<not> EIO_CANCELLED q"
    using frame r by (simp_all add: exec_frame_def EIO_CANCELLED_def)
  define s2 where "s2 = ?s1\<lparr>reqs := (reqs ?s1)(a \<mapsto> q),
      wrks := (wrks ?s1)(self \<mapsto> w\<lparr>wrk_req := None, dbuf := 0, dirp := 0\<rparr>), nready := nready ?s1 - 1,
      npending := npending ?s1 + 1, req_queue := reqq_empty, res_queue := only k a,
      trace := round_trace ?s1 m'\<rparr>"
  have round: "proc_round E self ?s1 m = Some (s2, m')"
    unfolding s2_def by (rule round_only [where r = ?r])
      (use pool(1) env(3) r k(2) k' ex fr in \<open>simp_all add: quiet_def EIO_CANCELLED_def\<close>)
  have "\<exists>tr. etp_poll penv cb s2 = Some ((ans q, None), s2\<lparr>reqs := (reqs s2)(a := None), res_queue := reqq_empty,
      npending := npending s2 - 1, nreqs := nreqs s2 - 1, trace := tr\<rparr>) \<and>
    filter is_free tr = Free_req a # filter is_free (trace s2)"
    by (rule poll_only [where k = k and r = q and f = f])
      (use pool env fr r(6) k(2) in \<open>simp_all add: s2_def\<close>)
  then obtain tr where poll: "etp_poll penv cb s2 = Some ((ans q, None), s2\<lparr>reqs := (reqs s2)(a := None),
      res_queue := reqq_empty, npending := npending s2 - 1, nreqs := nreqs s2 - 1, trace := tr\<rparr>)"
    "filter is_free tr = Free_req a # filter is_free (trace s2)" by blast
  have "filter is_free (trace s2) = filter is_free (trace s)" by (simp add: s2_def round_trace_def is_free_def)
  moreover define s3 where "s3 = s2\<lparr>reqs := (reqs s2)(a := None), res_queue := reqq_empty,
    npending := npending s2 - 1, nreqs := nreqs s2 - 1, trace := tr\<rparr>"
  have "quiet s3 \<and> reqs s3 = reqs s \<and> nreqs s3 = nreqs s \<and> nready s3 = nready s \<and> npending s3 = npending s \<and>
      trace s3 = tr"
    using env(2) by (simp add: quiet_def s3_def s2_def fun_upd_idem)
  ultimately show ?thesis
    using sub round poll unfolding s3_def [symmetric] by metis
qed

text \<open>A descriptor that is not open, closed with the callback at 5: the poll returns the -1 of \<open>close\<close>.\<close>

definition result_cb :: callbacks where
  "result_cb = \<lparr>cb_finish = (\<lambda>f a s. map_option (\<lambda>r. (result r, s)) (reqs s a)),
     cb_destroy = (\<lambda>f. eio_api_destroy), cb_feed = (\<lambda>f a s. Some s)\<rparr>"

theorem request_served_witness:
  "\<exists>s1 s2 s3. eio_close some_api 3 0 (Some 5) 7 (ready_pool\<lparr>wrks := [16 \<mapsto> zero_worker]\<rparr>) = Some (Some 64, s1) \<and>
    proc_round some_exec 16 s1 slow_start = Some (s2, slow_start\<lparr>m_errno := ENOSYS\<rparr>) \<and>
    etp_poll poll_start_env result_cb s2 = Some ((- 1, None), s3) \<and> quiet s3 \<and> reqs s3 = Map.empty \<and>
    nreqs s3 = 0 \<and> filter is_free (trace s3) = [Free_req 64]"
proof -
  let ?s = "ready_pool\<lparr>wrks := [16 \<mapsto> zero_worker]\<rparr>" and ?r = "(REQ EIO_CLOSE 0 (Some 5) 7)\<lparr>int1 := 3\<rparr>"
  have m: "slow_start\<lparr>m_dbuf := dbuf zero_worker, m_dirp := dirp zero_worker\<rparr> = slow_start"
    by (simp add: slow_start_def zero_worker_def)
  have "\<exists>q. result q = - 1 \<and> eio_execute some_exec (?r\<lparr>pri := submit_pri (pri ?r), next_req := None\<rparr>) slow_start =
      Some (q, slow_start\<lparr>m_errno := ENOSYS\<rparr>)"
    by (simp add: exec_simps some_exec_def slow_libc_def slow_kernel_def no_such_call_def)
  then obtain q where q: "result q = - 1"
    "eio_execute some_exec (?r\<lparr>pri := submit_pri (pri ?r), next_req := None\<rparr>) slow_start =
      Some (q, slow_start\<lparr>m_errno := ENOSYS\<rparr>)" by blast
  have cb: "answers result result_cb" by (simp add: answers_def result_cb_def)
  have "quiet ?s" "wanted ?s \<le> started ?s" "max_poll_reqs ?s \<noteq> 1" "max_poll_time ?s = 0" "reqs ?s 64 = None"
    "wrks ?s 16 = Some zero_worker" "reqs ?s = Map.empty" "nreqs ?s = 0" "trace ?s = []"
    by (simp_all add: ready_pool_def etp_start_def quiet_def)
  with request_served [where s = ?s and env = some_api and a = 64 and self = 16 and w = zero_worker and r = ?r
      and m = slow_start and f = 5 and penv = poll_start_env, unfolded m, OF _ _ _ _ ready_pool_facts(5) _ _ cb _ _ _ _ _ _ _ q(2)] q(1)
  show ?thesis
    by (auto simp: eio_close_def REQ_def zero_req_def EIO_CANCELLED_def type_code_def eio_types_def)
qed

end
