(* ===== verification/Eio_Demo.thy ===== *)
theory Eio_Demo
  imports Eio_Life
begin

text \<open>
  The demonstration program \<open>src/libeio/demo.c\<close>: its callbacks, its event loop and the script of
  requests. A line a callback prints and a value it stores are \<^term>\<open>Client\<close> events of the trace.
  Parameters are the addresses of functions and string literals, the memory behind the buffers of
  the results, the user, and what the other threads do while the program waits.
\<close>

section \<open>The program's surroundings\<close>

datatype demo_cb = Res_cb | Readdir_cb | Stat_cb | Read_cb | Open_cb

record demo =
  de_code :: "demo_cb \<Rightarrow> 64 word"
  de_str :: "string \<Rightarrow> 64 word"
  de_text :: "64 word \<Rightarrow> string"      \<comment> \<open>the bytes from an address on\<close>
  de_size :: "64 word \<Rightarrow> int"         \<comment> \<open>\<open>st_size\<close> and \<open>st_mode\<close> of a \<open>struct stat\<close>\<close>
  de_mode :: "64 word \<Rightarrow> 32 word"
  de_uid :: "32 word"
  de_gid :: "32 word"
  de_api :: "nat \<Rightarrow> api_env"            \<comment> \<open>what the allocator answers the \<open>n\<close>-th request\<close>
  de_wait :: "nat \<Rightarrow> etp \<Rightarrow> etp"        \<comment> \<open>the \<open>n\<close>-th \<open>poll (&pfd, 1, -1)\<close>\<close>
  de_poll :: "nat \<Rightarrow> poll_env"

definition O_RDWR :: int where "O_RDWR = 2"
definition O_CREAT :: int where "O_CREAT = 64"
definition S_IFIFO :: "32 word" where "S_IFIFO = 0x1000"

definition noted :: "demo \<Rightarrow> demo_cb \<Rightarrow> int list \<Rightarrow> etp \<Rightarrow> etp" where
  "noted D c vs s = s\<lparr>trace := Client (de_code D c) vs # trace s\<rparr>"

section \<open>The callbacks\<close>

text \<open>\<open>abort\<close> is \<^term>\<open>None\<close>.\<close>

definition res_cb :: "demo \<Rightarrow> addr \<Rightarrow> etp \<Rightarrow> (int \<times> etp) option" where
  "res_cb D req s = do {
     r \<leftarrow> reqs s req;
     (let s = noted D Res_cb [req_type r, uint (data r), result r] s
      in if result r < 0 then None else Some (0, s)) }"

text \<open>Behind the loop the result is -1.\<close>

definition readdir_cb :: "demo \<Rightarrow> addr \<Rightarrow> etp \<Rightarrow> (int \<times> etp) option" where
  "readdir_cb D req s = do {
     r \<leftarrow> reqs s req;
     (let s = noted D Readdir_cb [result r] s
      in if result r < 0 then Some (0, s)
         else do {
           (let names = read_names (nat (result r)) (de_text D (ptr2 r));
                s = fold (\<lambda>name. noted D Readdir_cb (map of_char name)) names s
            in do {
              s \<leftarrow> modify req (result_update (\<lambda>_. - 1)) s;
              Some (0, s) }) }) }"

definition stat_cb :: "demo \<Rightarrow> addr \<Rightarrow> etp \<Rightarrow> (int \<times> etp) option" where
  "stat_cb D req s = do {
     r \<leftarrow> reqs s req;
     (let s = (if req_type r = type_code EIO_FSTAT then noted D Stat_cb [result r] s
               else noted D Stat_cb [uint (ptr1 r), result r] s);
          s = (if result r = 0
               then noted D Stat_cb [de_size D (ptr2 r), uint (de_mode D (ptr2 r) AND 0x1FF)] s else s)
      in Some (0, s)) }"

definition read_cb :: "demo \<Rightarrow> addr \<Rightarrow> etp \<Rightarrow> (int \<times> etp) option" where
  "read_cb D req s = do {
     r \<leftarrow> reqs s req;
     Some (0, noted D Read_cb (result r # map of_char (take 8 (de_text D (ptr2 r)))) s) }"

text \<open>The value is also the new \<open>last_fd\<close>.\<close>

definition open_cb :: "demo \<Rightarrow> addr \<Rightarrow> etp \<Rightarrow> (int \<times> etp) option" where
  "open_cb D req s = do {
     r \<leftarrow> reqs s req;
     Some (0, noted D Open_cb [result r] s) }"

fun run_cb :: "demo_cb \<Rightarrow> demo \<Rightarrow> addr \<Rightarrow> etp \<Rightarrow> (int \<times> etp) option" where
  "run_cb Res_cb = res_cb"
| "run_cb Readdir_cb = readdir_cb"
| "run_cb Stat_cb = stat_cb"
| "run_cb Read_cb = read_cb"
| "run_cb Open_cb = open_cb"

definition cb_at :: "demo \<Rightarrow> 64 word \<Rightarrow> demo_cb option" where
  "cb_at D f = List.find (\<lambda>c. de_code D c = f) [Res_cb, Readdir_cb, Stat_cb, Read_cb, Open_cb]"

definition demo_callbacks :: "demo \<Rightarrow> callbacks" where
  "demo_callbacks D =
     \<lparr>cb_finish = (\<lambda>f a s. case cb_at D f of None \<Rightarrow> None | Some c \<Rightarrow> run_cb c D a s),
      cb_destroy = (\<lambda>f. eio_api_destroy), cb_feed = (\<lambda>f a s. None)\<rparr>"

text \<open>\<open>static int last_fd\<close>.\<close>

fun last_noted :: "64 word \<Rightarrow> event list \<Rightarrow> int" where
  "last_noted c [] = 0"
| "last_noted c (Client f vs # tr) = (if f = c \<and> length vs = 1 then hd vs else last_noted c tr)"
| "last_noted c (_ # tr) = last_noted c tr"

definition last_fd :: "demo \<Rightarrow> etp \<Rightarrow> int" where
  "last_fd D s = last_noted (de_code D Open_cb) (trace s)"

section \<open>The pipe\<close>

text \<open>The bytes in the pipe; reading from an empty one blocks, \<^term>\<open>None\<close>.\<close>

definition demo_want_poll :: "nat \<Rightarrow> nat option" where
  "demo_want_poll n = Some (n + 1)"

definition demo_done_poll :: "nat \<Rightarrow> nat option" where
  "demo_done_poll n = (if n = 0 then None else Some (n - 1))"

fun demo_pipe :: "event list \<Rightarrow> nat option" where
  "demo_pipe [] = Some 0"
| "demo_pipe (Want_poll # tr) = Option.bind (demo_pipe tr) demo_want_poll"
| "demo_pipe (Done_poll # tr) = Option.bind (demo_pipe tr) demo_done_poll"
| "demo_pipe (_ # tr) = demo_pipe tr"

text \<open>The calls of the pool never block, and leave a byte in the pipe while results wait.\<close>

lemma demo_pipe_bytes: "alternates tr b \<Longrightarrow> demo_pipe tr = Some (if b then 1 else 0)"
  by (induction tr b rule: alternates.induct) (auto simp: demo_want_poll_def demo_done_poll_def)

lemma demo_never_blocks: "edge_inv p \<Longrightarrow> want_poll_cb p \<noteq> None \<Longrightarrow> done_poll_cb p \<noteq> None \<Longrightarrow>
    demo_pipe (trace p) = Some (if 0 < qsize (res_queue p) then 1 else 0)"
  by (simp add: edge_inv_def demo_pipe_bytes)

section \<open>The event loop\<close>

partial_function (option) event_loop :: "demo \<Rightarrow> nat \<Rightarrow> etp \<Rightarrow> (nat \<times> etp) option" where
  "event_loop D n s =
     (if eio_nreqs s = 0 then Some (n, s)
      else do {
        (out, s) \<leftarrow> eio_poll (de_poll D n) (demo_callbacks D) (de_wait D n s);
        event_loop D (Suc n) s })"

section \<open>The script\<close>

type_synonym demo_call = "api_env \<Rightarrow> int \<Rightarrow> etp \<Rightarrow> (ptr \<times> etp) option"

text \<open>The requests between two event loops, given \<open>last_fd\<close>.\<close>

definition demo_script :: "demo \<Rightarrow> demo_call list list" where
  "demo_script D =
     (let str = de_str D; res_cb = Some (de_code D Res_cb); readdir_cb = Some (de_code D Readdir_cb);
          stat_cb = Some (de_code D Stat_cb); read_cb = Some (de_code D Read_cb);
          open_cb = Some (de_code D Open_cb)
      in
      [[\<lambda>E last_fd. eio_mkdir E (str ''eio-test-dir'') 0x1FF 0 res_cb (str ''mkdir''),
        \<lambda>E last_fd. eio_nop E 0 res_cb (str ''nop'')],
       [\<lambda>E last_fd. eio_stat E (str ''eio-test-dir'') 0 stat_cb (str ''stat''),
        \<lambda>E last_fd. eio_lstat E (str ''eio-test-dir'') 0 stat_cb (str ''stat''),
        \<lambda>E last_fd. eio_open E (str ''eio-test-dir/eio-test-file'') (O_RDWR OR O_CREAT) 0x1FF 0 open_cb (str ''open''),
        \<lambda>E last_fd. eio_symlink E (str ''test'') (str ''eio-test-dir/eio-symlink'') 0 res_cb (str ''symlink''),
        \<lambda>E last_fd. eio_mknod E (str ''eio-test-dir/eio-fifo'') S_IFIFO 0 0 res_cb (str ''mknod'')],
       [\<lambda>E last_fd. eio_utime E (str ''eio-test-dir'') 0x40C81CD6C8B43958 0x40D6E8327EF9DB23 0 res_cb (str ''utime''),
        \<lambda>E last_fd. eio_futime E last_fd 0x40F68B9AD916872B 0x40F6D10C9FBE76C9 0 res_cb (str ''futime''),
        \<lambda>E last_fd. eio_chown E (str ''eio-test-dir'') (de_uid D) (de_gid D) 0 res_cb (str ''chown''),
        \<lambda>E last_fd. eio_fchown E last_fd (de_uid D) (de_gid D) 0 res_cb (str ''fchown''),
        \<lambda>E last_fd. eio_fchmod E last_fd 0x1D3 0 res_cb (str ''fchmod''),
        \<lambda>E last_fd. eio_readdir E (str ''eio-test-dir'') 0 0 readdir_cb (str ''readdir''),
        \<lambda>E last_fd. eio_readdir E (str ''/nonexistant'') 0 0 readdir_cb (str ''readdir''),
        \<lambda>E last_fd. eio_fstat E last_fd 0 stat_cb (str ''stat''),
        \<lambda>E last_fd. eio_write E last_fd (str (''test'' @ [CHR 0x0A] @ ''fail'' @ [CHR 0x0A])) 10 4 0 res_cb (str ''write'')],
       [\<lambda>E last_fd. eio_read E last_fd 0 8 0 EIO_PRI_DEFAULT read_cb (str ''read''),
        \<lambda>E last_fd. eio_readlink E (str ''eio-test-dir/eio-symlink'') 0 res_cb (str ''readlink'')],
       [\<lambda>E last_fd. eio_dup2 E 1 2 EIO_PRI_DEFAULT res_cb (str ''dup''),
        \<lambda>E last_fd. eio_chmod E (str ''eio-test-dir'') 0x1F5 0 res_cb (str ''chmod''),
        \<lambda>E last_fd. eio_ftruncate E last_fd 9 0 res_cb (str ''ftruncate''),
        \<lambda>E last_fd. eio_fdatasync E last_fd 0 res_cb (str ''fdatasync''),
        \<lambda>E last_fd. eio_fsync E last_fd 0 res_cb (str ''fsync''),
        \<lambda>E last_fd. eio_sync E 0 res_cb (str ''sync''),
        \<lambda>E last_fd. eio_busy E 0x3FE0000000000000 0 res_cb (str ''busy'')],
       [\<lambda>E last_fd. eio_sendfile E 1 last_fd 4 5 0 res_cb (str ''sendfile''),
        \<lambda>E last_fd. eio_fstat E last_fd 0 stat_cb (str ''stat'')],
       [\<lambda>E last_fd. eio_truncate E (str ''eio-test-dir/eio-test-file'') 6 0 res_cb (str ''truncate''),
        \<lambda>E last_fd. eio_readahead E last_fd 0 64 0 res_cb (str ''readahead'')],
       [\<lambda>E last_fd. eio_close E last_fd 0 res_cb (str ''close''),
        \<lambda>E last_fd. eio_link E (str ''eio-test-dir/eio-test-file'') (str ''eio-test-dir/eio-test-file-2'') 0 res_cb (str ''link'')],
       [\<lambda>E last_fd. eio_rename E (str ''eio-test-dir/eio-test-file'') (str ''eio-test-dir/eio-test-file-renamed'') 0 res_cb (str ''rename'')],
       [\<lambda>E last_fd. eio_unlink E (str ''eio-test-dir/eio-fifo'') 0 res_cb (str ''unlink''),
        \<lambda>E last_fd. eio_unlink E (str ''eio-test-dir/eio-symlink'') 0 res_cb (str ''unlink''),
        \<lambda>E last_fd. eio_unlink E (str ''eio-test-dir/eio-test-file-2'') 0 res_cb (str ''unlink''),
        \<lambda>E last_fd. eio_unlink E (str ''eio-test-dir/eio-test-file-renamed'') 0 res_cb (str ''unlink'')],
       [\<lambda>E last_fd. eio_rmdir E (str ''eio-test-dir'') 0 res_cb (str ''rmdir'')]])"

text \<open>The calls of one part of the script; \<open>n\<close> numbers the calls.\<close>

fun demo_calls :: "demo \<Rightarrow> demo_call list \<Rightarrow> nat \<Rightarrow> etp \<Rightarrow> (nat \<times> etp) option" where
  "demo_calls D [] n s = Some (n, s)"
| "demo_calls D (c # cs) n s = do {
     (req, s) \<leftarrow> c (de_api D n) (last_fd D s) s;
     demo_calls D cs (Suc n) s }"

fun demo_run :: "demo \<Rightarrow> demo_call list list \<Rightarrow> nat \<Rightarrow> nat \<Rightarrow> etp \<Rightarrow> etp option" where
  "demo_run D [] n k s = Some s"
| "demo_run D (cs # css) n k s = do {
     (n, s) \<leftarrow> demo_calls D cs n s;
     (k, s) \<leftarrow> event_loop D k s;
     demo_run D css n k s }"

text \<open>\<open>main\<close>: \<open>pipe_rc\<close> is what \<open>pipe\<close> returns, \<open>want_poll\<close> and \<open>done_poll\<close> the addresses of the two.\<close>

definition demo_main :: "demo \<Rightarrow> int \<Rightarrow> code_ptr \<Rightarrow> code_ptr \<Rightarrow> heap \<Rightarrow> (int \<times> etp) option" where
  "demo_main D pipe_rc want_poll done_poll h =
     (if pipe_rc \<noteq> 0 then None
      else case eio_init want_poll done_poll (etp_start h) of (rc, s) \<Rightarrow>
        if rc \<noteq> 0 then None else map_option (\<lambda>s. (0, s)) (demo_run D (demo_script D) 0 0 s))"

section \<open>The callbacks leave the pool alone\<close>

lemma cb_finishes:
  assumes cb: "cb_destroy cb = (\<lambda>f. eio_api_destroy)" and a: "single h a" "h a = Some r" "finish r = Some f"
    and run: "\<And>s. reqs s a = Some r \<Longrightarrow> \<exists>r' tr. cb_finish cb f a s = Some (0, s\<lparr>reqs := (reqs s)(a \<mapsto> r'), trace := tr\<rparr>) \<and>
      grp r' = grp r \<and> destroy r' = destroy r \<and> quiet_ext (trace s) tr \<and> filter is_free tr = filter is_free (trace s)"
  shows "finishes cb h a"
proof -
  have r: "grp r = None" "destroy r \<noteq> None" "\<not> (req_type r = type_code EIO_GROUP \<and> req_size r \<noteq> 0)"
    using a(1,2) by (auto simp: single_def)
  have fin: "\<exists>tr. eio_finish cb a s = Some (0, s\<lparr>reqs := (reqs s)(a := None), trace := tr\<rparr>) \<and>
      quiet_ext (trace s) tr \<and> filter is_free tr = Free_req a # filter is_free (trace s)" if s: "reqs s a = Some r" for s
  proof -
    have "\<exists>r' tr. EIO_FINISH cb a s = Some (0, s\<lparr>reqs := (reqs s)(a \<mapsto> r'), trace := tr\<rparr>) \<and>
        grp r' = None \<and> destroy r' \<noteq> None \<and> quiet_ext (trace s) tr \<and> filter is_free tr = filter is_free (trace s)"
    proof (cases "EIO_CANCELLED r")
      case True
      then have "EIO_FINISH cb a s = Some (0, s\<lparr>reqs := (reqs s)(a \<mapsto> r), trace := trace s\<rparr>)"
        using s a(3) by (simp add: EIO_FINISH_def map_upd_triv)
      with r show ?thesis using quiet_ext_refl by blast
    next
      case False
      from run [OF s] obtain r' tr where q: "cb_finish cb f a s = Some (0, s\<lparr>reqs := (reqs s)(a \<mapsto> r'), trace := tr\<rparr>)"
        "grp r' = grp r" "destroy r' = destroy r" "quiet_ext (trace s) tr" "filter is_free tr = filter is_free (trace s)" by blast
      have "EIO_FINISH cb a s = Some (0, s\<lparr>reqs := (reqs s)(a \<mapsto> r'), trace := tr\<rparr>)"
        using False s a(3) q(1) by (simp add: EIO_FINISH_def)
      with q(2-5) r(1,2) show ?thesis by (intro exI [of _ r'] exI [of _ tr]) simp
    qed
    then obtain r' tr where f: "EIO_FINISH cb a s = Some (0, s\<lparr>reqs := (reqs s)(a \<mapsto> r'), trace := tr\<rparr>)"
      and r': "grp r' = None" "destroy r' \<noteq> None" and ext: "quiet_ext (trace s) tr" and tr: "filter is_free tr = filter is_free (trace s)" by blast
    let ?s = "s\<lparr>reqs := (reqs s)(a \<mapsto> r'), trace := tr\<rparr>"
    have "\<exists>tr'. eio_destroy cb a ?s = Some (?s\<lparr>reqs := (reqs ?s)(a := None), trace := tr'\<rparr>) \<and>
        quiet_ext tr tr' \<and> filter is_free tr' = Free_req a # filter is_free tr"
      using cb r'(2)
      by (auto simp: eio_destroy_def EIO_DESTROY_def eio_api_destroy_def free_buf_def trace_if_def Let_def is_free_def
          intro!: quiet_ext_cons)
    then obtain tr' where d: "eio_destroy cb a ?s = Some (?s\<lparr>reqs := (reqs ?s)(a := None), trace := tr'\<rparr>)"
      "quiet_ext tr tr'" "filter is_free tr' = Free_req a # filter is_free tr" by blast
    have "eio_finish cb a s = Some (0, s\<lparr>reqs := (reqs s)(a := None), trace := tr'\<rparr>)"
      using f r'(1) d(1) by (simp add: eio_finish_unfold [of cb a])
    with d(2,3) tr quiet_ext_trans [OF ext] show ?thesis by auto
  qed
  show ?thesis unfolding finishes_def using a(2) r(3) fin by blast
qed

lemma noted_sel [simp]:
  "noted D c vs s = s\<lparr>trace := Client (de_code D c) vs # trace s\<rparr>"
  by (simp add: noted_def)

lemma is_free_Client [simp]: "\<not> is_free (Client f vs)"
  by (simp add: is_free_def)

lemma noted_names:
  "\<exists>tr. fold (\<lambda>name. noted D c (g name)) xs s = s\<lparr>trace := tr\<rparr> \<and>
    quiet_ext (trace s) tr \<and> filter is_free tr = filter is_free (trace s)"
proof (induction xs arbitrary: s)
  case Nil
  show ?case by (intro exI [of _ "trace s"]) simp
next
  case (Cons x xs)
  from Cons [of "noted D c (g x) s"] quiet_ext_trans [OF quiet_ext_cons [OF quiet_ext_refl]] show ?case
    by fastforce
qed

lemma run_cb_quiet:
  assumes "reqs s a = Some r" and "c = Res_cb \<Longrightarrow> 0 \<le> result r"
  shows "\<exists>r' tr. run_cb c D a s = Some (0, s\<lparr>reqs := (reqs s)(a \<mapsto> r'), trace := tr\<rparr>) \<and>
    grp r' = grp r \<and> destroy r' = destroy r \<and> quiet_ext (trace s) tr \<and> filter is_free tr = filter is_free (trace s)"
proof (cases c)
  case Readdir_cb
  define t where "t = noted D Readdir_cb [result r] s"
  have t: "reqs t = reqs s" "quiet_ext (trace s) (trace t)" "filter is_free (trace t) = filter is_free (trace s)"
    "\<And>h tr. t\<lparr>trace := tr, reqs := h\<rparr> = s\<lparr>reqs := h, trace := tr\<rparr>"
    "s\<lparr>reqs := reqs s, trace := trace t\<rparr> = t"
    by (simp_all add: t_def quiet_ext_cons)
  obtain tr where tr: "fold (\<lambda>name. noted D Readdir_cb (map of_char name)) (read_names (nat (result r)) (de_text D (ptr2 r))) t =
      t\<lparr>trace := tr\<rparr>" "quiet_ext (trace t) tr" "filter is_free tr = filter is_free (trace t)" using noted_names by blast
  show ?thesis
  proof (cases "result r < 0")
    case True
    with Readdir_cb assms(1) t(2,3,5) show ?thesis unfolding run_cb.simps readdir_cb_def t_def [symmetric]
      by (intro exI [of _ r] exI [of _ "trace t"])
        (simp add: readdir_cb_def map_upd_triv t_def [symmetric] del: noted_sel)
  next
    case False
    with Readdir_cb assms(1) tr t quiet_ext_trans [OF t(2) tr(2)] show ?thesis
      by (intro exI [of _ "r\<lparr>result := - 1\<rparr>"] exI [of _ tr])
        (simp add: readdir_cb_def modify_def upd_Some t_def [symmetric] del: noted_sel)
  qed
next
  case Stat_cb
  let ?tr = "if req_type r = type_code EIO_FSTAT then Client (de_code D Stat_cb) [result r] # trace s
    else Client (de_code D Stat_cb) [uint (ptr1 r), result r] # trace s"
  let ?tr' = "if result r = 0 then
    Client (de_code D Stat_cb) [de_size D (ptr2 r), uint (de_mode D (ptr2 r) AND 0x1FF)] # ?tr else ?tr"
  from Stat_cb assms(1) show ?thesis
    by (intro exI [of _ r] exI [of _ ?tr']) (simp add: stat_cb_def map_upd_triv Let_def quiet_ext_cons)
next
  case Res_cb
  with assms show ?thesis
    by (intro exI [of _ r] exI [of _ "Client (de_code D c) [req_type r, uint (data r), result r] # trace s"])
      (simp add: res_cb_def map_upd_triv quiet_ext_cons)
next
  case Read_cb
  with assms(1) show ?thesis
    by (intro exI [of _ r] exI [of _ "Client (de_code D c) (result r # map of_char (take 8 (de_text D (ptr2 r)))) # trace s"])
      (simp add: read_cb_def map_upd_triv quiet_ext_cons)
next
  case Open_cb
  with assms(1) show ?thesis
    by (intro exI [of _ r] exI [of _ "Client (de_code D c) [result r] # trace s"])
      (simp add: open_cb_def map_upd_triv quiet_ext_cons)
qed

lemma cb_at_code: "inj (de_code D) \<Longrightarrow> cb_at D (de_code D c) = Some c"
  by (cases c) (auto simp: cb_at_def inj_eq)

text \<open>A request of the script whose execution succeeded, if its callback insists on that.\<close>

definition demo_done :: "demo \<Rightarrow> heap \<Rightarrow> addr \<Rightarrow> bool" where
  "demo_done D h a \<longleftrightarrow> single h a \<and>
     (\<exists>r c. h a = Some r \<and> finish r = Some (de_code D c) \<and> (c = Res_cb \<longrightarrow> 0 \<le> result r))"

lemma demo_finishes:
  assumes "inj (de_code D)" and "demo_done D h a"
  shows "finishes (demo_callbacks D) h a"
proof -
  from assms(2) obtain r c where r: "h a = Some r" "finish r = Some (de_code D c)" "c = Res_cb \<longrightarrow> 0 \<le> result r"
    and s: "single h a" by (auto simp: demo_done_def)
  show ?thesis
    by (rule cb_finishes [OF _ s r(1,2)])
      (use run_cb_quiet [of _ a r c D] r(3) cb_at_code [OF assms(1)] in \<open>simp_all add: demo_callbacks_def\<close>)
qed

section \<open>The event loop ends\<close>

text \<open>
  After the wait some results are there, all from requests that can be finished, and no request was
  submitted or lost.
\<close>

definition results_wait :: "demo \<Rightarrow> etp \<Rightarrow> etp \<Rightarrow> bool" where
  "results_wait D s s' \<longleftrightarrow>
     nreqs s' = nreqs s \<and> wanted s' \<le> started s' \<and> max_poll_time s' = 0 \<and>
     (\<exists>rs. reqq_rep (reqs s') (res_queue s') rs \<and> concat rs \<noteq> [] \<and> qsize (res_queue s') \<le> INT_MAX \<and>
        length (concat rs) \<le> unat (nreqs s) \<and> (\<forall>a \<in> set (concat rs). demo_done D (reqs s') a))"

lemma poll_progress:
  assumes inj: "inj (de_code D)" and wait: "results_wait D s s'"
  shows "\<exists>out t. eio_poll env (demo_callbacks D) s' = Some (out, t) \<and> unat (nreqs t) < unat (nreqs s)"
proof -
  from wait obtain rs where w: "nreqs s' = nreqs s" "wanted s' \<le> started s'" "max_poll_time s' = 0"
    and rs: "reqq_rep (reqs s') (res_queue s') rs" "concat rs \<noteq> []" "qsize (res_queue s') \<le> INT_MAX"
      "length (concat rs) \<le> unat (nreqs s)" "\<forall>a \<in> set (concat rs). demo_done D (reqs s') a"
    by (auto simp: results_wait_def)
  let ?xs = "concat (rev rs)"
  define m where "m = (if max_poll_reqs s' = 0 \<or> length ?xs < unat (max_poll_reqs s') then length ?xs
      else unat (max_poll_reqs s'))"
  have set: "set ?xs = set (concat rs)" by simp
  have "mset ?xs = mset (concat rs)"
    by (metis mset_concat mset_map mset_rev sum_mset_sum_list)
  then have len: "length ?xs = length (concat rs)" by (rule mset_eq_length)
  have fin: "\<forall>a \<in> set ?xs. finishes (demo_callbacks D) (reqs s') a"
    unfolding set using rs(5) demo_finishes [OF inj] by blast
  from poll_loop_drains [OF w(2) rs(1,3) refl fin m_def, of env 0] obtain out t where
    "poll_loop env (demo_callbacks D) (max_poll_reqs s') 0 0 s' = Some (out, t)" "nreqs t = nreqs s - word_of_nat m"
    unfolding w(1) by blast
  then have t: "eio_poll env (demo_callbacks D) s' = Some (out, t)" "nreqs t = nreqs s - word_of_nat m"
    by (simp_all add: eio_poll_def etp_poll_def w(3))
  have "0 < length ?xs" using rs(2) len by simp
  moreover have "0 < unat (max_poll_reqs s')" if "max_poll_reqs s' \<noteq> 0" using that by (simp add: unat_gt_0)
  ultimately have m: "0 < m" "m \<le> unat (nreqs s)" using rs(4) len by (auto simp: m_def)
  have un: "unat (word_of_nat m :: 32 word) = m"
  proof -
    have "unat (nreqs s) < 2 ^ 32" by (rule order.strict_trans2 [OF unsigned_less]) simp
    then have "m < 2 ^ 32" using m(2) by linarith
    then show ?thesis by (simp add: unsigned_of_nat take_bit_nat_eq_self)
  qed
  then have "(word_of_nat m :: 32 word) \<le> nreqs s" using m(2) by (simp add: word_le_nat_alt)
  then have "unat (nreqs t) = unat (nreqs s) - m" unfolding t(2) by (simp add: unat_sub un)
  with t(1) m show ?thesis by auto
qed

lemma eio_nreqs_zero: "eio_nreqs s = 0 \<longleftrightarrow> nreqs s = 0"
  by (simp add: eio_nreqs_def etp_nreqs_def)


text \<open>One request, done while the program waits.\<close>

definition demo_codes :: "demo_cb \<Rightarrow> 64 word" where
  "demo_codes c = (case c of Res_cb \<Rightarrow> 16 | Readdir_cb \<Rightarrow> 17 | Stat_cb \<Rightarrow> 18 | Read_cb \<Rightarrow> 19 | Open_cb \<Rightarrow> 20)"

definition demo_req :: eio_req where
  "demo_req = zero_req\<lparr>pri := 4, finish := Some 16, destroy := Some eio_api_destroy_code\<rparr>"

definition demo_waited :: etp where
  "demo_waited = (etp_start [64 \<mapsto> demo_req])\<lparr>res_queue := only 4 64, nreqs := 1, npending := 1, started := 4\<rparr>"

definition some_demo :: demo where
  "some_demo = \<lparr>de_code = demo_codes, de_str = (\<lambda>s. 0), de_text = (\<lambda>p. []), de_size = (\<lambda>p. 0), de_mode = (\<lambda>p. 0),
     de_uid = 0, de_gid = 0, de_api = (\<lambda>n. some_api), de_wait = (\<lambda>n s. demo_waited), de_poll = (\<lambda>n. poll_start_env)\<rparr>"

lemma some_demo_waits:
  assumes "nreqs s = 1"
  shows "results_wait some_demo s demo_waited"
proof -
  have r: "demo_req\<lparr>next_req := None\<rparr> = demo_req" "pri_index demo_req = Some 4"
    by (simp_all add: demo_req_def zero_req_def pri_index_def)
  have c: "concat (replicate 9 []) = ([] :: addr list)" by (simp add: numeral_eq_Suc)
  have "reqq_rep [64 \<mapsto> demo_req] (only 4 64) (fifo_push 4 64 (replicate 9 []))"
    using reqq_push_rep [OF reqq_rep_empty, of "[64 \<mapsto> demo_req]" 64 demo_req 4] push_only [of "[64 \<mapsto> demo_req]" 64 demo_req 4] r c
    by (simp add: INT_MAX_def)
  moreover have "concat (fifo_push 4 64 (replicate 9 [])) = [64 :: addr]" by code_simp
  moreover have "demo_done some_demo [64 \<mapsto> demo_req] 64"
    by (simp add: demo_done_def single_def some_demo_def demo_req_def zero_req_def type_code_def eio_types_def
        demo_codes_def exI [of _ Res_cb])
  ultimately show ?thesis
    using assms unfolding results_wait_def
    by (intro conjI exI [of _ "fifo_push 4 64 (replicate 9 [])"])
      (simp_all add: demo_waited_def etp_start_def only_def INT_MAX_def del: set_concat)
qed


end
