(* ===== verification/Etp_Seq.thy ===== *)
theory Etp_Seq
  imports Eio_Life Etp_Race
begin

text \<open>
  The functions of \<open>src/libeio/eio.c\<close> run by one thread alone are runs of the interleaving model:
  \<open>etp_submit\<close> with \<open>etp_maybe_start_thread\<close>, and a round of \<open>etp_proc\<close> with \<open>eio_execute\<close>.
\<close>

section \<open>A round of a worker\<close>

lemma round_runs:
  assumes w: "workers S = ws @ (self, At_loop) # vs" and round: "proc_round E self (pool S) m = Some (s', m')"
    and custom: "\<And>a q r. proc_shift self (pool S) = Some (Some a, q) \<Longrightarrow> reqs q a = Some r \<Longrightarrow>
      req_type r \<noteq> type_code EIO_CUSTOM"
    and room: "room (res_queue (pool S))"
  shows "runs S [Tau, Tau, Tau] (S\<lparr>pool := s'\<rparr>)"
proof -
  from round obtain a s1 r s2 where sh: "proc_shift self (pool S) = Some (Some a, s1)" and r: "reqs s1 a = Some r"
    "0 \<le> req_type r"
    and ex: "(if EIO_CANCELLED r then Some (s1, m) else run_request E self a s1 m) = Some (s2, m')"
    and dn: "proc_done self a s2 = Some s'"
    by (auto simp: proc_round_def not_less split: bind_splits if_splits option.splits)
  let ?S = "\<lambda>p pc. S\<lparr>pool := p, workers := ws @ (self, pc) # vs\<rparr>"
  have "step S Tau (?S s1 (Took a))"
    using step.shift [OF w sh] by (simp add: next_pc_def)
  moreover have "step (?S s1 (Took a)) Tau (?S s2 (Ran a))"
  proof (cases "EIO_CANCELLED r")
    case True
    with step.skip_cancelled [of "?S s1 (Took a)" ws self a vs r] r ex show ?thesis by simp
  next
    case False
    with ex have ex: "run_request E self a s1 m = Some (s2, m')" by simp
    then obtain wk r' where wk: "wrks s1 self = Some wk"
      and q: "eio_execute E r (m\<lparr>m_dbuf := dbuf wk, m_dirp := dirp wk\<rparr>) = Some (r', m')"
      and s2: "s2 = s1\<lparr>reqs := (reqs s1)(a \<mapsto> r'), wrks := (wrks s1)(self \<mapsto> wk\<lparr>dbuf := m_dbuf m', dirp := m_dirp m'\<rparr>)\<rparr>"
      using r(1) by (auto simp: run_request_def split: bind_splits)
    from execute_frame [OF q custom [OF sh r(1)]] r(1) wk s2 have "exec_step self a s1 s2"
      unfolding exec_step_def by blast
    with step.execute [of "?S s1 (Took a)" ws self a vs r s2] r False show ?thesis by simp
  qed
  moreover have "room (res_queue s2)"
  proof -
    have "res_queue s1 = res_queue (pool S)"
      using sh by (auto simp: proc_shift_def shift_req_def Let_def split: bind_splits if_splits)
    moreover have "res_queue s2 = res_queue s1"
      using ex by (auto simp: run_request_def split: if_splits bind_splits)
    ultimately show ?thesis using room by simp
  qed
  then have "step (?S s2 (Ran a)) Tau (?S s' At_loop)"
    using step.hand_over [of "?S s2 (Ran a)" ws self a vs s'] dn by simp
  moreover have "?S s' At_loop = S\<lparr>pool := s'\<rparr>" using w by simp
  ultimately show ?thesis by (auto intro: runs.intros)
qed

section \<open>Submitting\<close>

lemma main_same: "main S = m \<Longrightarrow> S\<lparr>pool := p, main := m\<rparr> = S\<lparr>pool := p\<rparr>"
  by (rule sys.equality) simp_all

text \<open>\<open>etp_maybe_start_thread\<close>, from whichever function it was called.\<close>

abbreviation with_worker :: "addr \<Rightarrow> etp \<Rightarrow> (addr \<times> wpc) list \<Rightarrow> (addr \<times> wpc) list" where
  "with_worker wrk p ws \<equiv> (if wrks p wrk = None then [] else [(wrk, At_loop)]) @ ws"

lemma maybe_start_runs:
  assumes m: "main S = M_start c" and mem: "wrk \<noteq> wrk_first" "wrks (pool S) wrk = None"
    and start: "etp_maybe_start_thread (Some wrk) created (pool S) = Some s'"
  shows "\<exists>k. runs S (replicate k Tau) (S\<lparr>pool := s', main := return_to c, workers := with_worker wrk s' (workers S)\<rparr>)"
proof -
  from start obtain n where n: "start_decision (pool S) c = Some n"
    and st: "(if n = M_create c then etp_start_thread (Some wrk) created (pool S) else Some (pool S)) = Some s'"
    unfolding maybe_start_sections [of _ _ _ c] by (auto split: bind_splits)
  from runs_decision [OF m n] obtain k where k: "runs S (replicate k Tau) (S\<lparr>main := n\<rparr>)" by blast
  let ?S = "S\<lparr>pool := s', main := return_to c, workers := with_worker wrk s' (workers S)\<rparr>"
  show ?thesis
  proof (cases "n = M_create c")
    case True
    have "step (S\<lparr>main := n\<rparr>) Tau ((S\<lparr>main := n\<rparr>)\<lparr>pool := s', main := return_to c,
        workers := with_worker wrk s' (workers (S\<lparr>main := n\<rparr>))\<rparr>)"
      by (rule step.create) (use True st mem in simp_all)
    moreover have "(S\<lparr>main := n\<rparr>)\<lparr>pool := s', main := return_to c, workers := ws\<rparr> =
        S\<lparr>pool := s', main := return_to c, workers := ws\<rparr>" for ws
      by (rule sys.equality) simp_all
    ultimately have "step (S\<lparr>main := n\<rparr>) Tau ?S" by simp
    from runs_append [OF k runs_one [OF this]] show ?thesis
      by (intro exI [of _ "Suc k"]) (simp add: replicate_append_same)
  next
    case False
    then have "n = return_to c" using n
      by (auto simp: start_decision_def int_chk_def split: bind_splits if_splits)
    moreover have "s' = pool S" using False st by simp
    ultimately have "S\<lparr>main := n\<rparr> = ?S" using mem(2) by (intro sys.equality) simp_all
    with k show ?thesis by auto
  qed
qed

lemma submit_runs:
  assumes m: "main S = M_client" and fresh: "req \<notin> owned S" "reqs (pool S) req = Some r" and ty: "0 \<le> req_type r"
    and room: "room (req_queue (pool S))" "room (res_queue (pool S))"
    and mem: "wrk \<noteq> wrk_first" "wrks (pool S) wrk = None"
    and sub: "etp_submit (Some wrk) created req (pool S) = Some s'"
  shows "\<exists>k. runs S (Submit req # replicate k Tau) (S\<lparr>pool := s', workers := with_worker wrk s' (workers S)\<rparr>)"
proof -
  let ?p = "(pool S)\<lparr>reqs := (reqs (pool S))(req \<mapsto> r\<lparr>pri := submit_pri (pri r)\<rparr>)\<rparr>"
  have out: "(if req_type r = type_code EIO_GROUP then put_result req (?p\<lparr>nreqs := nreqs (pool S) + 1\<rparr>)
      else do { s \<leftarrow> put_request req ?p; etp_maybe_start_thread (Some wrk) created s }) = Some s'"
    using sub fresh(2) by (simp add: etp_submit_def upd_Some Let_def split: if_splits)
  show ?thesis
  proof (cases "req_type r = type_code EIO_GROUP")
    case True
    with out have put: "put_result req (?p\<lparr>nreqs := nreqs (pool S) + 1\<rparr>) = Some s'" by simp
    then have "wrks s' = wrks (pool S)"
      by (auto simp: put_result_def push_res_def trace_if_def split: bind_splits)
    with mem(2) have s': "S\<lparr>pool := s', workers := with_worker wrk s' (workers S)\<rparr> =
        S\<lparr>pool := s'\<rparr>" by simp
    let ?S = "S\<lparr>pool := ?p\<lparr>nreqs := nreqs (pool S) + 1\<rparr>, main := M_group req\<rparr>"
    have "step S (Submit req) ?S" using step.submit_group [OF m fresh True] by simp
    moreover have "step ?S Tau (S\<lparr>pool := s'\<rparr>)"
      using step.group_result [of ?S req s'] put room(2) by (simp add: main_same [OF m])
    ultimately show ?thesis unfolding s' by (intro exI [of _ 1]) (auto intro: runs.intros)
  next
    case False
    with out obtain s1 where s1: "put_request req ?p = Some s1" "etp_maybe_start_thread (Some wrk) created s1 = Some s'"
      by (auto split: bind_splits)
    have wr: "wrks s1 = wrks (pool S)"
      using s1(1) by (auto simp: put_request_def push_req_def trace_if_def split: bind_splits)
    let ?S = "S\<lparr>pool := s1, main := M_start In_submit\<rparr>"
    have enter: "step S (Submit req) ?S" by (rule step.submit [OF m fresh ty False room(1) s1(1)])
    from maybe_start_runs [of ?S In_submit wrk created s'] s1(2) wr mem obtain k where
      k: "runs ?S (replicate k Tau) (?S\<lparr>pool := s', main := return_to In_submit, workers := with_worker wrk s' (workers ?S)\<rparr>)"
      by auto
    have "?S\<lparr>pool := s', main := return_to In_submit, workers := ws\<rparr> = S\<lparr>pool := s', workers := ws\<rparr>" for ws
      by (rule sys.equality) (simp_all add: m)
    with k enter show ?thesis by (intro exI [of _ k]) (auto intro: runs.intros)
  qed
qed

text \<open>C10: What \<open>etp_submit\<close> does as one function, starting a thread if need be, and after it what a round
  of the loop of \<open>etp_proc\<close> does, executing a request, is a run of the interleaving relation from the
  same state to the same state: the submission, and then steps inside the pool.\<close>

theorem sequential_code_runs:
  assumes "main S = M_client" and "workers S = ws @ (self, At_loop) # vs"
    and "req \<notin> owned S" and "reqs (pool S) req = Some r" and "0 \<le> req_type r"
    and "room (req_queue (pool S))" and "room (res_queue (pool S))"
    and "wrk \<noteq> wrk_first" and "wrks (pool S) wrk = None"
    and sub: "etp_submit (Some wrk) created req (pool S) = Some p"
    and round: "proc_round E self p m = Some (q, m')" and "room (res_queue p)"
    and custom: "\<And>a r. reqs p a = Some r \<Longrightarrow> req_type r \<noteq> type_code EIO_CUSTOM"
  shows "\<exists>k. runs S (Submit req # replicate k Tau) (S\<lparr>pool := q, workers := with_worker wrk p (workers S)\<rparr>)"
proof -
  let ?S = "\<lambda>p'. S\<lparr>pool := p', workers := with_worker wrk p (workers S)\<rparr>"
  from submit_runs [OF assms(1,3-10)] obtain k where k: "runs S (Submit req # replicate k Tau) (?S p)" by blast
  have "reqs t = reqs p" if "proc_shift self p = Some (a, t)" for a t
    using that by (auto simp: proc_shift_def shift_req_def Let_def split: bind_splits if_splits)
  then have custom': "req_type r \<noteq> type_code EIO_CUSTOM"
    if "proc_shift self p = Some (Some a, t)" "reqs t a = Some r" for a t r using that custom by metis
  have "workers (?S p) = ((if wrks p wrk = None then [] else [(wrk, At_loop)]) @ ws) @ (self, At_loop) # vs"
    using assms(2) by simp
  from round_runs [OF this, of E m q m'] custom' round assms(12)
  have "runs (?S p) [Tau, Tau, Tau] (?S p\<lparr>pool := q\<rparr>)" by simp
  moreover have "?S p\<lparr>pool := q\<rparr> = ?S q" by (rule sys.equality) simp_all
  ultimately have "runs (?S p) [Tau, Tau, Tau] (?S q)" by simp
  moreover have "[Tau, Tau, Tau] = replicate 3 Tau" by (simp add: numeral_eq_Suc)
  ultimately have "runs S (Submit req # replicate (k + 3) Tau) (?S q)"
    using runs_append [OF k] by (simp add: replicate_add)
  then show ?thesis by blast
qed

text \<open>The closed descriptor once more, with one worker at the head of its loop.\<close>

definition seq_req :: eio_req where
  "seq_req = (REQ EIO_CLOSE 0 (Some 5) 7)\<lparr>int1 := 3\<rparr>"

definition seq_pool :: etp where
  "seq_pool = ready_pool\<lparr>wrks := [16 \<mapsto> zero_worker], reqs := [64 \<mapsto> seq_req]\<rparr>"

definition seq_start :: sys where
  "seq_start = \<lparr>pool = seq_pool, workers = [(16, At_loop)], main = M_client, ended = 0\<rparr>"

theorem sequential_code_runs_witness:
  "\<exists>p q k. etp_submit (Some 48) True 64 seq_pool = Some p \<and>
    proc_round some_exec 16 p slow_start = Some (q, slow_start\<lparr>m_errno := ENOSYS\<rparr>) \<and>
    runs seq_start (Submit 64 # replicate k Tau) (seq_start\<lparr>pool := q, workers :=
      (if wrks p 48 = None then [] else [(48, At_loop)]) @ [(16, At_loop)]\<rparr>)"
proof -
  let ?s = "ready_pool\<lparr>wrks := [16 \<mapsto> zero_worker]\<rparr>" and ?r = "seq_req\<lparr>pri := submit_pri (pri seq_req), next_req := None\<rparr>"
  let ?env = "some_api\<lparr>ae_wrk := Some 48, ae_created := True\<rparr>"
  let ?p = "?s\<lparr>reqs := (reqs ?s)(64 \<mapsto> ?r), nreqs := nreqs ?s + 1, nready := nready ?s + 1,
    req_queue := only 4 64, trace := Cond_signal # trace ?s\<rparr>"
  have k: "pri_index (seq_req\<lparr>pri := submit_pri (pri seq_req)\<rparr>) = Some 4" "pri_index ?r = Some 4"
    by (simp_all add: seq_req_def REQ_def pri_index_def submit_pri_def eio_pri_defs Let_def sint_to_schar to_schar_def)
  have facts: "quiet ?s" "ae_req ?env = Some 64" "wanted ?s \<le> started ?s" "req_type seq_req \<noteq> type_code EIO_GROUP"
    "reqs ?s = Map.empty" "wrks ?s 16 = Some zero_worker" "0 \<le> req_type seq_req" "req_type seq_req \<noteq> type_code EIO_CUSTOM"
    "\<not> EIO_CANCELLED ?r"
    by (simp_all add: ready_pool_def etp_start_def quiet_def some_api_def seq_req_def REQ_def type_code_def eio_types_def
        EIO_CANCELLED_def zero_req_def)
  from submit_only [OF facts(1,2,4,3) k(1)] have sub: "etp_submit (Some 48) True 64 seq_pool = Some ?p"
    using facts(5) by (simp add: request_def SEND_def eio_submit_def seq_pool_def some_api_def split: bind_splits)
  have m: "slow_start\<lparr>m_dbuf := dbuf zero_worker, m_dirp := dirp zero_worker\<rparr> = slow_start"
    by (simp add: slow_start_def zero_worker_def)
  have "\<exists>q. next_req q = next_req ?r \<and> pri q = pri ?r \<and>
      eio_execute some_exec ?r slow_start = Some (q, slow_start\<lparr>m_errno := ENOSYS\<rparr>)"
    by (simp add: exec_simps seq_req_def some_exec_def slow_libc_def slow_kernel_def no_such_call_def)
  then obtain q where "next_req q = next_req ?r" "pri q = pri ?r"
    "eio_execute some_exec ?r slow_start = Some (q, slow_start\<lparr>m_errno := ENOSYS\<rparr>)" by blast
  from round_only [of ?p 4 64 16 zero_worker ?r some_exec slow_start q, unfolded m, OF _ _ _ _ _ _ _ _ _ this(3,1,2)]
    facts k(2) obtain t where round: "proc_round some_exec 16 ?p slow_start = Some (t, slow_start\<lparr>m_errno := ENOSYS\<rparr>)"
    by (auto simp: quiet_def)
  have own: "owned seq_start = {}"
    using facts(1) queue_members_eq [OF reqq_rep_empty]
    by (simp add: owned_def seq_start_def seq_pool_def quiet_def)
  have "\<exists>k. runs seq_start (Submit 64 # replicate k Tau) (seq_start\<lparr>pool := t, workers :=
      (if wrks ?p 48 = None then [] else [(48, At_loop)]) @ workers seq_start\<rparr>)"
    by (rule sequential_code_runs [where ws = "[]" and vs = "[]" and self = 16 and r = seq_req and p = ?p and created = True
        and E = some_exec and m = slow_start])
      (use own facts sub round in \<open>auto simp: seq_start_def seq_pool_def quiet_def room_def reqq_empty_def
        INT_MAX_def wrk_first_def split: if_splits\<close>)
  with sub round show ?thesis by (auto simp: seq_start_def)
qed

end
