(* ===== verification/Etp_Poll_Run.thy ===== *)
theory Etp_Poll_Run
  imports Etp_Seq
begin

text \<open>
  \<open>etp_poll\<close> of \<open>src/libeio/eio.c\<close>, the loop of the polling thread with the callbacks it calls, is a
  run of the interleaving model of \<open>Etp_Proc\<close>: the sections that may start a thread, the one that
  takes a result, the one that counts it, and the callback as a step of the client.
\<close>

section \<open>Starting a thread\<close>

lemma wupd_domain: "wupd a f m = Some m' \<Longrightarrow> m' b = None \<longleftrightarrow> m b = None"
  by (auto simp: wupd_def upd_def split: bind_splits if_splits option.splits)

lemma maybe_start_frame:
  assumes "etp_maybe_start_thread (Some wrk) created s = Some s'"
  shows "reqs s' = reqs s" and "res_queue s' = res_queue s"
    and "b \<noteq> wrk \<Longrightarrow> b \<noteq> wrk_first \<Longrightarrow> wrks s b = None \<Longrightarrow> wrks s' b = None"
proof -
  from assms have "s' = s \<or> etp_start_thread (Some wrk) created s = Some s'"
    by (auto simp: etp_maybe_start_thread_def split: if_splits bind_splits)
  then show "reqs s' = reqs s" "res_queue s' = res_queue s"
    "b \<noteq> wrk \<Longrightarrow> b \<noteq> wrk_first \<Longrightarrow> wrks s b = None \<Longrightarrow> wrks s' b = None"
    by (auto simp: etp_start_thread_def etp_worker_link_def Let_def wupd_domain
        split: if_splits bind_splits)
qed

section \<open>One request\<close>

text \<open>A request counted as delivered is the client's own.\<close>

lemma delivered_not_owned:
  assumes inv: "sys_inv S W" and m: "main S = M_took a"
  shows "a \<notin> owned (S\<lparr>pool := (pool S)\<lparr>nreqs := nreqs (pool S) - 1\<rparr>, main := M_client\<rparr>)" (is "_ \<notin> owned ?S")
proof -
  from inv obtain rq rs where s: "struct_inv S rq rs" by (rule sys_invE)
  have mm: "members S rq rs = add_mset a (members ?S rq rs)" using m by (simp add: members_def holds_def)
  have "insert a (owned ?S) = owned S" using m by (auto simp: owned_def)
  moreover from struct_invD(5) [OF s, of a] have "a \<notin># members ?S rq rs"
    unfolding mm by (simp add: not_in_iff)
  moreover have "owned ?S = set_mset (members ?S rq rs)"
    by (auto simp: owned_def members_def holds_def queue_members_eq [OF struct_invD(1) [OF s]]
        queue_members_eq [OF struct_invD(2) [OF s]])
  ultimately show ?thesis by simp
qed

text \<open>The callback of such a request is a step of the client.\<close>

lemma finish_is_client:
  assumes "a \<notin> owned S" and "\<forall>b \<in> owned S. queued (reqs (pool S)) b" and "quiet_ext (trace (pool S)) tr"
  shows "client_step (owned S) (pool S) ((pool S)\<lparr>reqs := (reqs (pool S))(a := None), trace := tr\<rparr>)"
proof -
  have "\<exists>r r'. reqs (pool S) b = Some r \<and> ((reqs (pool S))(a := None)) b = Some r' \<and> same_req r r'"
    if b: "b \<in> owned S" for b
  proof -
    have "b \<noteq> a" using assms(1) b by blast
    moreover from assms(2) b obtain r where "reqs (pool S) b = Some r" by (auto simp: queued_def)
    ultimately show ?thesis by (simp add: same_req_def)
  qed
  with assms(3) show ?thesis
    unfolding client_step_def
    by (intro exI [of _ "(reqs (pool S))(a := None)"] exI [of _ "wanted (pool S)"] exI [of _ "max_idle (pool S)"]
        exI [of _ "idle_timeout (pool S)"] exI [of _ "max_poll_reqs (pool S)"] exI [of _ "max_poll_time (pool S)"]
        exI [of _ tr]) simp
qed

text \<open>From the taken request to the end of its callback.\<close>

lemma finish_runs:
  assumes inv: "sys_inv S W" and m: "main S = M_took a" and fin: "finishes cb (reqs (pool S)) a"
  shows "\<exists>tr. eio_finish cb a ((pool S)\<lparr>nreqs := nreqs (pool S) - 1\<rparr>) =
      Some (0, (pool S)\<lparr>nreqs := nreqs (pool S) - 1, reqs := (reqs (pool S))(a := None), trace := tr\<rparr>) \<and>
    runs S [Deliver a, Tau] (S\<lparr>pool := (pool S)\<lparr>nreqs := nreqs (pool S) - 1,
      reqs := (reqs (pool S))(a := None), trace := tr\<rparr>, main := M_client\<rparr>)"
proof -
  let ?p = "(pool S)\<lparr>nreqs := nreqs (pool S) - 1\<rparr>"
  let ?S = "S\<lparr>pool := ?p, main := M_client\<rparr>"
  have "finishes cb (reqs ?p) a" using fin by simp
  then obtain tr where f: "eio_finish cb a ?p = Some (0, ?p\<lparr>reqs := (reqs ?p)(a := None), trace := tr\<rparr>)"
    "quiet_ext (trace ?p) tr" by (rule finishesE)
  have del: "step S (Deliver a) ?S" by (rule step.poll_deliver [OF m])
  from deliver_inv [OF inv m] obtain W' where "sys_inv ?S W'" by blast
  then obtain rq rs where s: "struct_inv ?S rq rs" by (rule sys_invE)
  have "client_step (owned ?S) (pool ?S) ((pool ?S)\<lparr>reqs := (reqs (pool ?S))(a := None), trace := tr\<rparr>)"
    by (rule finish_is_client [OF delivered_not_owned [OF inv m]])
      (use struct_invD(6) [OF s] struct_inv_owned [OF s] f(2) in auto)
  then have "step ?S Tau (?S\<lparr>pool := (pool ?S)\<lparr>reqs := (reqs (pool ?S))(a := None), trace := tr\<rparr>\<rparr>)"
    by (rule step.client) simp
  moreover have "?S\<lparr>pool := p\<rparr> = S\<lparr>pool := p, main := M_client\<rparr>" for p by (rule sys.equality) simp_all
  ultimately have "runs S [Deliver a, Tau] (S\<lparr>pool := ?p\<lparr>reqs := (reqs ?p)(a := None), trace := tr\<rparr>, main := M_client\<rparr>)"
    using del by (auto intro: runs.intros)
  with f(1) show ?thesis by (intro exI [of _ tr]) simp
qed

section \<open>The loop\<close>

text \<open>Memory for the threads the rounds from \<open>n\<close> to \<open>N\<close> may start.\<close>

definition fresh_mem :: "nat \<Rightarrow> nat \<Rightarrow> poll_env \<Rightarrow> etp \<Rightarrow> bool" where
  "fresh_mem n N env s \<longleftrightarrow> distinct (map (po_mem env) [n..<N]) \<and>
     (\<forall>mem \<in> set (map (po_mem env) [n..<N]).
        (case mem of None \<Rightarrow> False | Some wrk \<Rightarrow> wrk \<noteq> wrk_first \<and> wrks s wrk = None))"

lemma sys_put:
  "S\<lparr>pool := p, main := m, workers := ws\<rparr>\<lparr>pool := p', main := m'\<rparr> = S\<lparr>pool := p', main := m', workers := ws\<rparr>"
  "S\<lparr>pool := p, main := m, workers := ws\<rparr>\<lparr>main := m'\<rparr> = S\<lparr>pool := p, main := m', workers := ws\<rparr>"
  "S\<lparr>pool := p, main := m, workers := ws\<rparr>\<lparr>pool := p', main := m', workers := ws'\<rparr> =
    S\<lparr>pool := p', main := m', workers := ws'\<rparr>"
  "workers (S\<lparr>pool := p, main := m, workers := ws\<rparr>) = ws"
  by (rule sys.equality, simp_all)+

lemma fresh_memE:
  assumes "fresh_mem n N env s" and "n < N"
  obtains wrk where "po_mem env n = Some wrk" "wrk \<noteq> wrk_first" "wrks s wrk = None"
  using assms by (auto simp: fresh_mem_def upt_conv_Cons split: option.splits)

text \<open>What a round finds: the state after the threads and after the result.\<close>

lemma poll_loop_begin:
  assumes "poll_loop env cb maxreqs maxtime n s = Some (out, t)"
  obtains s1 req s2 where "etp_maybe_start_thread (po_mem env n) (po_created env n) s = Some s1"
    "take_result s1 = Some (req, s2)" "req = None \<Longrightarrow> out = (0, None) \<and> t = s2"
proof -
  have "\<exists>s1 req s2. etp_maybe_start_thread (po_mem env n) (po_created env n) s = Some s1 \<and>
      take_result s1 = Some (req, s2) \<and> (req = None \<longrightarrow> out = (0, None) \<and> t = s2)"
    using assms by (subst (asm) poll_loop.simps) (auto split: bind_splits option.splits)
  then show thesis using that by blast
qed

lemma poll_begins_runs:
  assumes m: "main S = M_start In_poll" and wrk: "wrk \<noteq> wrk_first" "wrks (pool S) wrk = None"
    and s1: "etp_maybe_start_thread (Some wrk) created (pool S) = Some s1" and tk: "take_result s1 = Some (req, s2)"
  shows "\<exists>k. runs S (replicate k Tau) (S\<lparr>pool := s2, main := (case req of None \<Rightarrow> M_client | Some a \<Rightarrow> M_took a),
    workers := with_worker wrk s1 (workers S)\<rparr>)"
proof -
  let ?m = "case req of None \<Rightarrow> M_client | Some a \<Rightarrow> M_took a"
  from maybe_start_runs [OF m wrk s1] obtain k where
    k: "runs S (replicate k Tau) (S\<lparr>pool := s1, main := M_poll, workers := with_worker wrk s1 (workers S)\<rparr>)" by auto
  have "step (S\<lparr>pool := s1, main := M_poll, workers := ws\<rparr>) Tau (S\<lparr>pool := s2, main := ?m, workers := ws\<rparr>)" for ws
    by (rule step.poll_take [where S = "S\<lparr>pool := s1, main := M_poll, workers := ws\<rparr>", unfolded sys_put])
      (use tk in simp_all)
  from runs_append [OF k runs_one [OF this]] show ?thesis
    by (intro exI [of _ "Suc k"]) (simp add: replicate_append_same)
qed

text \<open>How a round with a result goes on, once the callback has answered 0.\<close>

lemma poll_loop_finishes:
  assumes loop: "poll_loop env cb maxreqs maxtime n s = Some (out, t)"
    and s1: "etp_maybe_start_thread (po_mem env n) (po_created env n) s = Some s1"
    and tk: "take_result s1 = Some (Some a, s2)" and fin: "finishes cb (reqs s2) a"
    and f: "eio_finish cb a (s2\<lparr>nreqs := nreqs s2 - 1\<rparr>) = Some (0, s3)"
  obtains "out = (- 1, Some EAGAIN)" "t = s3"
    | maxreqs' where "poll_loop env cb maxreqs' maxtime (Suc n) s3 = Some (out, t)"
proof -
  from fin obtain r where r: "reqs s2 a = Some r" "\<not> (req_type r = type_code EIO_GROUP \<and> req_size r \<noteq> 0)"
    by (rule finishesE)
  from loop have "(if maxreqs \<noteq> 0 \<and> maxreqs - 1 = 0 then Some ((- 1, Some EAGAIN), s3)
      else if maxtime \<noteq> 0 \<and> tvdiff (po_clock env 0) (po_clock env (Suc n)) \<ge> maxtime then Some ((- 1, Some EAGAIN), s3)
      else poll_loop env cb (if maxreqs \<noteq> 0 then maxreqs - 1 else maxreqs) maxtime (Suc n) s3) = Some (out, t)"
    using r by (subst (asm) poll_loop.simps) (simp add: s1 tk f Let_def if_not_P)
  with that show thesis by (metis Pair_inject option.inject)
qed

lemma fresh_mem_start:
  assumes "fresh_mem n N env s" and "n < N" and "po_mem env n = Some wrk"
    and "etp_maybe_start_thread (Some wrk) created s = Some s1" and "wrks s2 = wrks s1"
  shows "fresh_mem (Suc n) N env s2"
proof -
  have mem: "map (po_mem env) [n..<N] = Some wrk # map (po_mem env) [Suc n..<N]"
    using assms(2,3) by (simp add: upt_conv_Cons)
  from assms(1) have d: "distinct (map (po_mem env) [Suc n..<N])" "Some wrk \<notin> set (map (po_mem env) [Suc n..<N])"
    unfolding fresh_mem_def mem by simp_all
  moreover have "case m of None \<Rightarrow> False | Some b \<Rightarrow> b \<noteq> wrk_first \<and> wrks s2 b = None"
    if m: "m \<in> set (map (po_mem env) [Suc n..<N])" for m
  proof -
    from assms(1) m have "case m of None \<Rightarrow> False | Some b \<Rightarrow> b \<noteq> wrk_first \<and> wrks s b = None"
      unfolding fresh_mem_def mem by auto
    then obtain b where b: "m = Some b" "b \<noteq> wrk_first" "wrks s b = None" by (auto split: option.splits)
    moreover have "b \<noteq> wrk" using b(1) m d(2) by metis
    ultimately show ?thesis using maybe_start_frame(3) [OF assms(4)] assms(5) by simp
  qed
  ultimately show ?thesis unfolding fresh_mem_def by blast
qed

text \<open>A round that takes a result and finishes it.\<close>

lemma poll_round_runs:
  assumes reach: "reachable wp dp S" and m: "main S = M_start In_poll"
    and rep: "reqq_rep (reqs (pool S)) (res_queue (pool S)) rs" "concat (rev rs) = a # as"
    and fin: "\<forall>b \<in> set (a # as). finishes cb (reqs (pool S)) b"
    and mem: "fresh_mem n N env (pool S)" "n < N"
    and loop: "poll_loop env cb maxreqs maxtime n (pool S) = Some (out, t)"
  obtains k ws s3 rs' where "runs S (replicate k Tau @ [Deliver a, Tau]) (S\<lparr>pool := s3, main := M_client, workers := ws @ workers S\<rparr>)"
    "reqq_rep (reqs s3) (res_queue s3) rs'" "concat (rev rs') = as" "\<forall>b \<in> set as. finishes cb (reqs s3) b"
    "fresh_mem (Suc n) N env s3"
    "out = (- 1, Some EAGAIN) \<and> t = s3 \<or> (\<exists>maxreqs'. poll_loop env cb maxreqs' maxtime (Suc n) s3 = Some (out, t))"
proof -
  from mem obtain wrk where wrk: "po_mem env n = Some wrk" "wrk \<noteq> wrk_first" "wrks (pool S) wrk = None"
    by (rule fresh_memE)
  from loop obtain s1 req s2 where
    s1: "etp_maybe_start_thread (Some wrk) (po_created env n) (pool S) = Some s1"
    and tk: "take_result s1 = Some (req, s2)"
    by (rule poll_loop_begin) (simp add: wrk(1))
  note fr = maybe_start_frame [OF s1]
  have rep1: "reqq_rep (reqs s1) (res_queue s1) rs" using rep(1) fr(1,2) by simp
  let ?S = "\<lambda>p m. S\<lparr>pool := p, main := m, workers := with_worker wrk s1 (workers S)\<rparr>"
  from reach obtain W where "sys_inv S W" by (rule reachable_inv)
  then obtain rq rs0 where "struct_inv S rq rs0" by (rule sys_invE)
  from struct_invD(4) [OF this] fr(2) have room: "qsize (res_queue s1) \<le> INT_MAX" by simp
  from take_result_queue [OF rep1 room rep(2)] tk obtain q rs' tr where
    s2: "req = Some a" "s2 = s1\<lparr>res_queue := q, npending := npending s1 - 1, trace := tr\<rparr>"
    and rep': "reqq_rep (reqs s1) q rs'" "concat (rev rs') = as" by auto
  from poll_begins_runs [OF m wrk(2,3) s1 tk] s2(1) obtain k where
    k: "runs S (replicate k Tau) (?S s2 (M_took a))" by auto
  from runs_reachable [OF k reach] obtain W' where inv: "sys_inv (?S s2 (M_took a)) W'" by (rule reachable_inv)
  have fin2: "finishes cb (reqs s2) a" using fin s2(2) fr(1) by simp
  from finish_runs [OF inv, of a cb, unfolded sys_put] fin2 obtain tr' s3 where
    f: "eio_finish cb a (s2\<lparr>nreqs := nreqs s2 - 1\<rparr>) = Some (0, s3)"
    and s3: "s3 = s2\<lparr>nreqs := nreqs s2 - 1, reqs := (reqs s2)(a := None), trace := tr'\<rparr>"
    and run: "runs (?S s2 (M_took a)) [Deliver a, Tau] (?S s3 M_client)" by auto
  have h: "reqs s3 = (reqs (pool S))(a := None)" "res_queue s3 = q" "wrks s3 = wrks s1"
    using fr(1) by (simp_all add: s3 s2(2))
  have dist: "distinct (a # as)" using queue_order_distinct [OF rep(1)] rep(2) by simp
  have "set (concat rs') = set as" using arg_cong [OF rep'(2), of set] by simp
  then have "a \<notin> set (concat rs')" using dist by simp
  from reqq_rep_frame [OF rep'(1) same_links_upd_other [OF this]] have rep3: "reqq_rep (reqs s3) (res_queue s3) rs'"
    using h(1,2) fr(1) by simp
  have fin3: "\<forall>b \<in> set as. finishes cb (reqs s3) b" unfolding h(1) by (rule finishes_rest [OF dist fin])
  have next_round: "out = (- 1, Some EAGAIN) \<and> t = s3 \<or> (\<exists>maxreqs'. poll_loop env cb maxreqs' maxtime (Suc n) s3 = Some (out, t))"
    by (rule poll_loop_finishes [OF loop s1 [folded wrk(1)] tk [unfolded s2(1)] fin2 f]) blast+
  show thesis
    by (rule that [of k "with_worker wrk s1 []" s3 rs'])
      (use runs_append [OF k run] rep3 rep'(2) fin3 fresh_mem_start [OF mem wrk(1) s1 h(3)] next_round in simp_all)
qed

lemma poll_loop_runs:
  assumes "reachable wp dp S" and "main S = M_start In_poll"
    and "reqq_rep (reqs (pool S)) (res_queue (pool S)) rs" and "concat (rev rs) = xs"
    and "\<forall>a \<in> set xs. finishes cb (reqs (pool S)) a"
    and "fresh_mem n N env (pool S)" and "n + length xs < N"
    and "poll_loop env cb maxreqs maxtime n (pool S) = Some (out, t)"
  shows "\<exists>ls ws m. runs S ls (S\<lparr>pool := t, main := M_client, workers := ws @ workers S\<rparr>) \<and> \<not> submits ls \<and>
    delivered ls = take m xs \<and> (fst out = 0 \<longrightarrow> delivered ls = xs)"
  using assms
proof (induction xs arbitrary: S rs maxreqs n)
  case (Nil S rs maxreqs n)
  from Nil.prems(7) have "n < N" by simp
  with Nil.prems(6) obtain wrk where wrk: "po_mem env n = Some wrk" "wrk \<noteq> wrk_first" "wrks (pool S) wrk = None"
    by (rule fresh_memE)
  from Nil.prems(8) obtain s1 req s2 where
    s1: "etp_maybe_start_thread (Some wrk) (po_created env n) (pool S) = Some s1"
    and tk: "take_result s1 = Some (req, s2)" and out: "req = None \<Longrightarrow> out = (0, None) \<and> t = s2"
    by (rule poll_loop_begin) (simp add: wrk(1))
  have rep: "reqq_rep (reqs s1) (res_queue s1) rs" using Nil.prems(3) maybe_start_frame(1,2) [OF s1] by simp
  have "concat rs = []" using Nil.prems(4) by (metis concat_eq_Nil_conv set_rev)
  with reqq_shift_empty [OF rep] tk have req: "req = None"
    by (simp add: take_result_def shift_res_def)
  from poll_begins_runs [OF Nil.prems(2) wrk(2,3) s1 tk] out [OF req] req obtain k where
    "runs S (replicate k Tau) (S\<lparr>pool := t, main := M_client, workers := with_worker wrk s1 (workers S)\<rparr>)" by auto
  then show ?case
    by (intro exI [of _ "replicate k Tau"] exI [of _ "with_worker wrk s1 []"] exI [of _ 0]) simp
next
  case (Cons a as S rs maxreqs n)
  have "n < N" using Cons.prems(7) by simp
  from poll_round_runs [OF Cons.prems(1-6) this Cons.prems(8)] obtain k ws s3 rs' where
    run: "runs S (replicate k Tau @ [Deliver a, Tau]) (S\<lparr>pool := s3, main := M_client, workers := ws @ workers S\<rparr>)"
    and s3: "reqq_rep (reqs s3) (res_queue s3) rs'" "concat (rev rs') = as" "\<forall>b \<in> set as. finishes cb (reqs s3) b"
      "fresh_mem (Suc n) N env s3"
    and next_round: "out = (- 1, Some EAGAIN) \<and> t = s3 \<or> (\<exists>maxreqs'. poll_loop env cb maxreqs' maxtime (Suc n) s3 = Some (out, t))"
    by blast
  let ?S = "\<lambda>p m. S\<lparr>pool := p, main := m, workers := ws @ workers S\<rparr>"
  from next_round show ?case
  proof (elim disjE exE conjE)
    assume "out = (- 1, Some EAGAIN)" "t = s3"
    with run show ?case
      by (intro exI [of _ "replicate k Tau @ [Deliver a, Tau]"] exI [of _ ws] exI [of _ 1]) simp
  next
    fix maxreqs' assume loop: "poll_loop env cb maxreqs' maxtime (Suc n) s3 = Some (out, t)"
    have "step (?S s3 M_client) Tau (?S s3 (M_start In_poll))"
      by (rule step.poll [where S = "?S s3 M_client", unfolded sys_put]) simp
    from runs_append [OF run runs_one [OF this]] have
      go: "runs S (replicate k Tau @ [Deliver a, Tau, Tau]) (?S s3 (M_start In_poll))" by simp
    have "\<exists>ls ws' m. runs (?S s3 (M_start In_poll)) ls (?S s3 (M_start In_poll)\<lparr>pool := t, main := M_client,
        workers := ws' @ workers (?S s3 (M_start In_poll))\<rparr>) \<and> \<not> submits ls \<and>
      delivered ls = take m as \<and> (fst out = 0 \<longrightarrow> delivered ls = as)"
      by (rule Cons.IH [of _ rs' "Suc n" maxreqs'])
        (use runs_reachable [OF go Cons.prems(1)] s3 Cons.prems(7) loop in simp_all)
    then obtain ls ws' m where
      ls: "runs (?S s3 (M_start In_poll)) ls (S\<lparr>pool := t, main := M_client, workers := ws' @ ws @ workers S\<rparr>)"
        "\<not> submits ls" "delivered ls = take m as" "fst out = 0 \<longrightarrow> delivered ls = as"
      unfolding sys_put(3,4) append_assoc by blast
    from runs_append [OF go ls(1)] ls(2-4) show ?case
      by (intro exI [of _ "(replicate k Tau @ [Deliver a, Tau, Tau]) @ ls"] exI [of _ "ws' @ ws"] exI [of _ "Suc m"]) simp
  qed
qed


text \<open>The group that waits is polled, after the client has set the number of threads to 0.\<close>

definition group_env :: poll_env where
  "group_env = \<lparr>po_mem = (\<lambda>n. Some (if n = 0 then 64 else 128)), po_created = (\<lambda>n. True), po_clock = (\<lambda>n. (0, 0))\<rparr>"

definition group_ready_pool :: etp where
  "group_ready_pool = group_waits\<lparr>wanted := 0\<rparr>"

definition group_polling :: sys where
  "group_polling = \<lparr>pool = group_ready_pool, workers = [], main = M_client, ended = 0\<rparr>"

lemma group_pool:
  "reqs group_waits = [32 \<mapsto> zero_req\<lparr>req_type := type_code EIO_GROUP, pri := submit_pri 0, destroy := Some 4\<rparr>]"
    (is "_ = [32 \<mapsto> ?r]")
  "res_queue group_waits = only 4 32" "wrks group_waits = wrks_init" "started group_waits = 0"
  "max_poll_reqs group_waits = 0" "max_poll_time group_waits = 0" "wanted group_waits = 4"
proof -
  have "reqq_push reqq_empty 32 [32 \<mapsto> ?r] = Some (0, only 4 32, [32 \<mapsto> ?r])"
    using push_only [of "[32 \<mapsto> ?r]" 32 ?r 4]
    by (simp add: zero_req_def submit_pri_def pri_index_def eio_pri_defs sint_to_schar Let_def)
  with group_steps(1) have w: "group_waits = group_entered\<lparr>npending := 1, res_queue := only 4 32, trace := [Want_poll]\<rparr>"
    by (auto simp: put_result_def push_res_def group_entered_def sys_start_def etp_init_def etp_start_def trace_if_def
        dest!: sym [of _ group_waits])
  show "reqs group_waits = [32 \<mapsto> ?r]" "res_queue group_waits = only 4 32" "wrks group_waits = wrks_init"
    "started group_waits = 0" "max_poll_reqs group_waits = 0" "max_poll_time group_waits = 0" "wanted group_waits = 4"
    unfolding w by (simp_all add: group_entered_def sys_start_def etp_init_def etp_start_def)
qed

lemma group_rep:
  "reqq_rep (reqs group_ready_pool) (res_queue group_ready_pool) ((replicate 9 [])[4 := [32]])"
  "concat (rev ((replicate 9 [])[4 := [32 :: addr]])) = [32]"
proof -
  have "\<forall>p < 9. level_rep (reqs group_waits) (res_queue group_waits) p (((replicate 9 [])[4 := [32]]) ! p)"
    by (simp add: less_9 level_rep_def group_pool only_def nexts_def pri_index_def zero_req_def last_ptr_def
        submit_pri_def eio_pri_defs sint_to_schar Let_def)
  moreover have "distinct (concat ((replicate 9 [])[4 := [32 :: addr]]))"
    "length (concat ((replicate 9 [])[4 := [32 :: addr]])) = 1" by code_simp+
  ultimately show "reqq_rep (reqs group_ready_pool) (res_queue group_ready_pool) ((replicate 9 [])[4 := [32]])"
    by (simp add: reqq_rep_def group_ready_pool_def) (simp add: group_pool only_def)
  show "concat (rev ((replicate 9 [])[4 := [32 :: addr]])) = [32]" by code_simp
qed

lemma group_polling_reach: "reachable (Some 1) (Some 2) group_polling"
proof -
  let ?S = "\<lparr>pool = group_waits, workers = [], main = M_client, ended = 0\<rparr>"
  from group_reach obtain W where "sys_inv ?S W" by (rule reachable_inv)
  then obtain rq rs where s: "struct_inv ?S rq rs" by (rule sys_invE)
  have old: "\<exists>r r'. reqs group_waits a = Some r \<and> reqs group_waits a = Some r' \<and> same_req r r'" if a: "a \<in> owned ?S" for a
  proof -
    from a struct_invD(6) [OF s, of a] obtain r where "reqs group_waits a = Some r"
      unfolding struct_inv_owned [OF s] queued_def by auto
    then show ?thesis by (simp add: same_req_def)
  qed
  have "group_ready_pool = group_waits\<lparr>reqs := reqs group_waits, wanted := 0, max_idle := max_idle group_waits,
      idle_timeout := idle_timeout group_waits, max_poll_reqs := max_poll_reqs group_waits,
      max_poll_time := max_poll_time group_waits, trace := trace group_waits\<rparr>"
    by (rule etp.equality) (simp_all add: group_ready_pool_def)
  then have "client_step (owned ?S) (pool ?S) group_ready_pool"
    unfolding client_step_def sys.select_convs using old quiet_ext_refl by blast
  from reach_step [OF group_reach step.client [OF this]] show ?thesis by (simp add: group_polling_def)
qed


end
