(* ===== verification/Eio_Fork.thy ===== *)
theory Eio_Fork
  imports Etp_Poll
begin

text \<open>
  The fork handler of \<open>src/libeio/eio.c\<close>: \<open>etp_atfork_child\<close> runs in the child, which has the
  memory of the parent but only the forking thread. It destroys every request in the two queues
  and in the hands of a worker, removes all workers and resets the counters. The handlers around
  the fork (\<open>etp_atfork_prepare\<close>, \<open>etp_atfork_parent\<close>) and \<open>etp_thread_init\<close> only take, release and
  create the locks; the state they protect is what is modelled.
\<close>

section \<open>The handler\<close>

text \<open>\<open>while ((prv = reqq_shift (&queue))) ETP_DESTROY (prv)\<close>, for either queue.\<close>

partial_function (option) drop_queue ::
  "(etp \<Rightarrow> (ptr \<times> etp) option) \<Rightarrow> callbacks \<Rightarrow> etp \<Rightarrow> etp option" where
  "drop_queue shift cb s = do {
     (prv, s) \<leftarrow> shift s;
     (case prv of
        None \<Rightarrow> Some s
      | Some a \<Rightarrow> do { s \<leftarrow> eio_destroy cb a s; drop_queue shift cb s }) }"

text \<open>\<open>etp_worker_clear\<close> and \<open>etp_worker_free\<close> on the state.\<close>

definition drop_worker :: "addr \<Rightarrow> etp \<Rightarrow> etp option" where
  "drop_worker wrk s = do {
     (bufs, dirs, w) \<leftarrow> etp_worker_clear wrk (wrks s);
     w \<leftarrow> etp_worker_free wrk w;
     Some (s\<lparr>wrks := w, trace := map Close_dir dirs @ map Free_buf bufs @ trace s\<rparr>) }"

partial_function (option) drop_workers :: "callbacks \<Rightarrow> etp \<Rightarrow> etp option" where
  "drop_workers cb s = do {
     first \<leftarrow> wrks s wrk_first;
     (if wrk_next first \<noteq> wrk_first then do {
        wrk \<leftarrow> wrks s (wrk_next first);
        s \<leftarrow> (case wrk_req wrk of None \<Rightarrow> Some s | Some a \<Rightarrow> eio_destroy cb a s);
        s \<leftarrow> drop_worker (wrk_next first) s;
        drop_workers cb s }
      else Some s) }"

definition etp_atfork_child :: "callbacks \<Rightarrow> etp \<Rightarrow> etp option" where
  "etp_atfork_child cb s = do {
     s \<leftarrow> drop_queue shift_req cb s;
     s \<leftarrow> drop_queue shift_res cb s;
     s \<leftarrow> drop_workers cb s;
     Some (s\<lparr>started := 0, idle := 0, nreqs := 0, nready := 0, npending := 0\<rparr>) }"

section \<open>Destroying one request\<close>

text \<open>A request is freed when it has a \<open>destroy\<close> callback; a terminator has none.\<close>

definition freed :: "heap \<Rightarrow> addr \<Rightarrow> bool" where
  "freed h a \<longleftrightarrow> (\<exists>r. h a = Some r \<and> destroy r \<noteq> None)"

definition drop_all :: "addr set \<Rightarrow> heap \<Rightarrow> heap" where
  "drop_all A h a = (if a \<in> A \<and> freed h a then None else h a)"

lemma drop_all_empty [simp]: "drop_all {} h = h"
  by (simp add: drop_all_def fun_eq_iff)

lemma drop_all_drop_all [simp]: "drop_all A (drop_all B h) = drop_all (A \<union> B) h"
  by (auto simp: drop_all_def freed_def fun_eq_iff)

lemma freed_drop_all: "freed (drop_all A h) a \<longleftrightarrow> a \<notin> A \<and> freed h a"
  by (auto simp: freed_def drop_all_def)

definition frees :: "heap \<Rightarrow> addr list \<Rightarrow> event list" where
  "frees h xs = rev (map Free_req (filter (freed h) xs))"

lemma frees_simps [simp]:
  "frees h [] = []" "frees h (a # xs) = frees h xs @ (if freed h a then [Free_req a] else [])"
  "frees h (xs @ ys) = frees h ys @ frees h xs"
  by (simp_all add: frees_def)

lemma frees_drop_all [simp]: "A \<inter> set xs = {} \<Longrightarrow> frees (drop_all A h) xs = frees h xs"
  by (induction xs) (auto simp: freed_drop_all)

lemma destroy_drops:
  assumes "onlooker res cb" and "reqs s a \<noteq> None"
  shows "\<exists>tr. eio_destroy cb a s = Some (s\<lparr>reqs := drop_all {a} (reqs s), trace := tr\<rparr>) \<and>
    filter is_free tr = frees (reqs s) [a] @ filter is_free (trace s)"
proof -
  from assms(2) obtain r where r: "reqs s a = Some r" by blast
  let ?t = "\<lambda>s. (if flags r AND EIO_FLAG_PTR1_FREE \<noteq> 0 then free_buf (ptr1 r) s else s)"
  let ?u = "\<lambda>s. (if flags r AND EIO_FLAG_PTR2_FREE \<noteq> 0 then free_buf (ptr2 r) s else s)"
  define tr where "tr = trace (?u (?t s))"
  have s: "?u (?t s) = s\<lparr>trace := tr\<rparr>" and tr: "filter is_free tr = filter is_free (trace s)"
    by (simp_all add: tr_def free_buf_def trace_if_def is_free_def)
  have e: "eio_destroy cb a s = EIO_DESTROY cb a (s\<lparr>trace := tr\<rparr>)"
    using r s by (simp add: eio_destroy_def Let_def)
  show ?thesis
  proof (cases "destroy r")
    case None
    have "drop_all {a} (reqs s) = reqs s"
      using r None by (auto simp: drop_all_def freed_def fun_eq_iff)
    with None r e tr show ?thesis
      by (intro exI [of _ tr]) (simp add: EIO_DESTROY_def freed_def)
  next
    case (Some f)
    have "drop_all {a} (reqs s) = (reqs s)(a := None)"
      using r Some by (auto simp: drop_all_def freed_def fun_eq_iff)
    with Some r e tr assms(1) show ?thesis
      by (intro exI [of _ "Free_req a # tr"])
        (simp add: EIO_DESTROY_def freed_def onlooker_def eio_api_destroy_def is_free_def)
  qed
qed

section \<open>Emptying a queue\<close>

text \<open>What the two queues of the state have in common, and the loop over either.\<close>

locale queue_field =
  fixes get :: "etp \<Rightarrow> etp_reqq" and put :: "etp_reqq \<Rightarrow> etp \<Rightarrow> etp"
    and shift :: "etp \<Rightarrow> (ptr \<times> etp) option"
  assumes shift: "shift s = do { (req, q) \<leftarrow> reqq_shift (get s) (reqs s); Some (req, put q s) }"
    and get_put: "get (put q s) = q" and put_get: "put (get s) s = s"
    and put_put: "put q' (put q s) = put q' s"
    and reqs_put: "reqs (put q s) = reqs s" and trace_put: "trace (put q s) = trace s"
    and put_other: "put q (s\<lparr>reqs := h, trace := tr\<rparr>) = (put q s)\<lparr>reqs := h, trace := tr\<rparr>"
    and get_other: "get (s\<lparr>reqs := h, trace := tr\<rparr>) = get s"
begin

lemma drop_queue_ok:
  assumes "onlooker res cb" and "reqq_rep (reqs s) (get s) rs" and "qsize (get s) \<le> INT_MAX"
    and "concat (rev rs) = xs"
  shows "\<exists>q tr. drop_queue shift cb s = Some ((put q s)\<lparr>reqs := drop_all (set xs) (reqs s), trace := tr\<rparr>) \<and>
    qsize q = 0 \<and> filter is_free tr = frees (reqs s) xs @ filter is_free (trace s)"
  using assms(2-4)
proof (induction xs arbitrary: s rs)
  case Nil
  have "concat rs = []" using Nil.prems(3) by (metis concat_eq_Nil_conv set_rev)
  then have "shift s = Some (None, s)" "qsize (get s) = 0"
    using reqq_shift_empty [OF Nil.prems(1)] reqq_repD(6) [OF Nil.prems(1)] by (simp_all add: shift put_get)
  then show ?case
    by (intro exI [of _ "get s"] exI [of _ "trace s"]) (subst drop_queue.simps, simp add: put_get)
next
  case (Cons a as)
  obtain q rs' where q: "reqq_shift (get s) (reqs s) = Some (Some a, q)" "reqq_rep (reqs s) q rs'"
    "concat (rev rs') = as" "qsize q = qsize (get s) - 1"
    using shift_in_order [OF Cons.prems] by blast
  have mem: "a \<in> set (concat rs)" using arg_cong [OF Cons.prems(3), of set] by auto
  then have "reqs s a \<noteq> None" using reqq_rep_member [OF Cons.prems(1)] by blast
  then obtain tr where tr: "eio_destroy cb a (put q s) =
      Some ((put q s)\<lparr>reqs := drop_all {a} (reqs s), trace := tr\<rparr>)"
    "filter is_free tr = frees (reqs s) [a] @ filter is_free (trace s)"
    using destroy_drops [OF assms(1), of "put q s" a] by (auto simp: reqs_put trace_put)
  let ?t = "(put q s)\<lparr>reqs := drop_all {a} (reqs s), trace := tr\<rparr>"
  have a: "a \<notin> set as" using queue_order_distinct [OF Cons.prems(1)] Cons.prems(3) by simp
  have "same_links (set (concat rs')) (reqs s) (drop_all {a} (reqs s))"
    using a arg_cong [OF q(3), of set] by (auto simp: same_links_def drop_all_def)
  then have "reqq_rep (reqs ?t) (get ?t) rs'"
    using reqq_rep_frame [OF q(2)] by (simp add: get_other get_put)
  moreover have "qsize (get ?t) \<le> INT_MAX" using Cons.prems(2) q(4) by (simp add: get_other get_put)
  ultimately obtain q' tr' where ih: "drop_queue shift cb ?t =
      Some ((put q' ?t)\<lparr>reqs := drop_all (set as) (reqs ?t), trace := tr'\<rparr>)" "qsize q' = 0"
    "filter is_free tr' = frees (reqs ?t) as @ filter is_free tr"
    using Cons.IH [OF _ _ q(3), of ?t] by auto
  have "drop_queue shift cb s = drop_queue shift cb ?t"
    using q(1) tr(1) by (subst drop_queue.simps) (simp add: shift)
  with ih a tr(2) show ?case
    by (intro exI [of _ q'] exI [of _ tr']) (simp add: put_other put_put Un_commute insert_is_Un [symmetric])
qed

end

interpretation req_field: queue_field req_queue "\<lambda>q. req_queue_update (\<lambda>_. q)" shift_req
  by unfold_locales (simp_all add: shift_req_def)

interpretation res_field: queue_field res_queue "\<lambda>q. res_queue_update (\<lambda>_. q)" shift_res
  by unfold_locales (simp_all add: shift_res_def)

section \<open>Removing the workers\<close>

text \<open>The requests in the hands of the workers, in the order of the ring.\<close>

definition work_reqs :: "wheap \<Rightarrow> addr list \<Rightarrow> addr list" where
  "work_reqs w ws = concat (map (\<lambda>x. case Option.bind (w x) wrk_req of None \<Rightarrow> [] | Some a \<Rightarrow> [a]) ws)"

lemma work_reqs_cong:
  assumes "\<And>x. x \<in> set ws \<Longrightarrow> map_option wrk_req (w' x) = map_option wrk_req (w x)"
  shows "work_reqs w' ws = work_reqs w ws"
proof -
  have "Option.bind (w' x) wrk_req = Option.bind (w x) wrk_req" if "x \<in> set ws" for x
    using assms [OF that] by (cases "w' x"; cases "w x") auto
  then show ?thesis unfolding work_reqs_def by (intro arg_cong [where f = concat] map_cong) simp_all
qed

lemma drop_worker_ok:
  assumes "ring (wrks s) (x # xs)"
  shows "\<exists>w tr. drop_worker x s = Some (s\<lparr>wrks := w, trace := tr\<rparr>) \<and> ring w xs \<and>
    work_reqs w xs = work_reqs (wrks s) xs \<and> filter is_free tr = filter is_free (trace s)"
proof -
  obtain r where r: "wrks s x = Some r" using ring_alloc [OF assms, of x] by auto
  let ?w = "(wrks s)(x \<mapsto> r\<lparr>dbuf := 0, dirp := 0\<rparr>)"
  have "ring ?w (x # xs) = ring (wrks s) (x # xs)"
    using r by (intro ring_frame) auto
  with assms have "ring ?w (x # xs)" by simp
  from worker_free_ring [OF this, of x] obtain w where
    w: "etp_worker_free x ?w = Some w" "ring w xs"
      "\<And>a. a \<noteq> x \<Longrightarrow> map_option wrk_req (w a) = map_option wrk_req (?w a)" by auto
  have "x \<notin> set xs" using assms by (simp add: ring_def)
  then have "work_reqs w xs = work_reqs (wrks s) xs"
    using w(3) by (intro work_reqs_cong) (metis fun_upd_other)
  with r w(1,2) show ?thesis
    by (intro exI [of _ w] exI [of _ "map Close_dir (if dirp r \<noteq> 0 then [dirp r] else []) @
          map Free_buf (if dbuf r \<noteq> 0 then [dbuf r] else []) @ trace s"])
      (simp add: drop_worker_def etp_worker_clear_def is_free_def)
qed

lemma drop_workers_ok:
  assumes "onlooker res cb" and "ring (wrks s) ws" and "distinct (work_reqs (wrks s) ws)"
    and "\<forall>a \<in> set (work_reqs (wrks s) ws). reqs s a \<noteq> None"
  shows "\<exists>w tr. drop_workers cb s =
      Some (s\<lparr>wrks := w, reqs := drop_all (set (work_reqs (wrks s) ws)) (reqs s), trace := tr\<rparr>) \<and>
    ring w [] \<and> filter is_free tr = frees (reqs s) (work_reqs (wrks s) ws) @ filter is_free (trace s)"
  using assms(2-4)
proof (induction ws arbitrary: s)
  case Nil
  then show ?case
    by (subst drop_workers.simps) (auto simp: ring_def linked_def work_reqs_def intro!: exI [of _ "wrks s"] exI [of _ "trace s"])
next
  case (Cons x ws)
  obtain f r where f: "wrks s wrk_first = Some f" "wrk_next f = x" "x \<noteq> wrk_first" "wrks s x = Some r"
    using Cons.prems(1) ring_alloc [OF Cons.prems(1), of x] by (auto simp: ring_def linked_def)
  let ?A = "case wrk_req r of None \<Rightarrow> [] | Some a \<Rightarrow> [a]"
  have A: "work_reqs (wrks s) (x # ws) = ?A @ work_reqs (wrks s) ws"
    using f(4) by (simp add: work_reqs_def)
  have "\<exists>tr. (case wrk_req r of None \<Rightarrow> Some s | Some a \<Rightarrow> eio_destroy cb a s) =
      Some (s\<lparr>reqs := drop_all (set ?A) (reqs s), trace := tr\<rparr>) \<and>
    filter is_free tr = frees (reqs s) ?A @ filter is_free (trace s)"
  proof (cases "wrk_req r")
    case None
    then show ?thesis by (intro exI [of _ "trace s"]) simp
  next
    case (Some a)
    with Cons.prems(3) A have "reqs s a \<noteq> None" by simp
    from destroy_drops [OF assms(1) this] Some show ?thesis by simp
  qed
  then obtain tr where tr: "(case wrk_req r of None \<Rightarrow> Some s | Some a \<Rightarrow> eio_destroy cb a s) =
      Some (s\<lparr>reqs := drop_all (set ?A) (reqs s), trace := tr\<rparr>)"
    "filter is_free tr = frees (reqs s) ?A @ filter is_free (trace s)" by blast
  let ?s = "s\<lparr>reqs := drop_all (set ?A) (reqs s), trace := tr\<rparr>"
  from drop_worker_ok [of ?s x ws] Cons.prems(1) obtain w tr' where
    w: "drop_worker x ?s = Some (?s\<lparr>wrks := w, trace := tr'\<rparr>)" "ring w ws"
      "work_reqs w ws = work_reqs (wrks s) ws" "filter is_free tr' = filter is_free tr" by auto
  let ?t = "?s\<lparr>wrks := w, trace := tr'\<rparr>"
  have disj: "set ?A \<inter> set (work_reqs (wrks s) ws) = {}" using Cons.prems(2) A by simp
  have "ring (wrks ?t) ws" "distinct (work_reqs (wrks ?t) ws)"
    "\<forall>a \<in> set (work_reqs (wrks ?t) ws). reqs ?t a \<noteq> None"
    using w(2,3) Cons.prems(2,3) A disj by (auto simp: drop_all_def)
  from Cons.IH [OF this] obtain w' tr'' where ih: "drop_workers cb ?t =
      Some (?t\<lparr>wrks := w', reqs := drop_all (set (work_reqs w ws)) (reqs ?t), trace := tr''\<rparr>)"
    "ring w' []" "filter is_free tr'' = frees (reqs ?t) (work_reqs w ws) @ filter is_free tr'" by auto
  have "drop_workers cb s = drop_workers cb ?t"
    using f tr(1) w(1) by (subst drop_workers.simps) simp
  with ih disj tr(2) w(3,4) show ?case
    unfolding A by (intro exI [of _ w'] exI [of _ tr'']) (simp add: Un_commute)
qed

section \<open>Property\<close>

text \<open>C38: in the child \<open>etp_atfork_child\<close> returns with both queues empty, no worker and all counters
  zero. Every request that waited, had a result or was in the hands of a worker is freed exactly
  once, in that order, and no other request is touched.\<close>

theorem fork_child_drops_all:
  assumes "onlooker res cb"
    and "reqq_rep (reqs s) (req_queue s) rq" and "qsize (req_queue s) \<le> INT_MAX"
    and "reqq_rep (reqs s) (res_queue s) rs" and "qsize (res_queue s) \<le> INT_MAX"
    and "ring (wrks s) ws" and "\<forall>a \<in> set (work_reqs (wrks s) ws). reqs s a \<noteq> None"
    and "xs = concat (rev rq) @ concat (rev rs) @ work_reqs (wrks s) ws" and "distinct xs"
  shows "\<exists>s'. etp_atfork_child cb s = Some s' \<and>
    qsize (req_queue s') = 0 \<and> qsize (res_queue s') = 0 \<and> ring (wrks s') [] \<and>
    started s' = 0 \<and> idle s' = 0 \<and> nreqs s' = 0 \<and> nready s' = 0 \<and> npending s' = 0 \<and>
    reqs s' = drop_all (set xs) (reqs s) \<and>
    filter is_free (trace s') = frees (reqs s) xs @ filter is_free (trace s)"
proof -
  from req_field.drop_queue_ok [OF assms(1-3) refl] obtain q tr where
    1: "drop_queue shift_req cb s =
        Some (s\<lparr>req_queue := q, reqs := drop_all (set (concat (rev rq))) (reqs s), trace := tr\<rparr>)"
      "qsize q = 0" "filter is_free tr = frees (reqs s) (concat (rev rq)) @ filter is_free (trace s)"
    by blast
  let ?s = "s\<lparr>req_queue := q, reqs := drop_all (set (concat (rev rq))) (reqs s), trace := tr\<rparr>"
  have "same_links (set (concat rs)) (reqs s) (reqs ?s)"
    using assms(8,9) by (auto simp: same_links_def drop_all_def)
  from reqq_rep_frame [OF assms(4) this] have "reqq_rep (reqs ?s) (res_queue ?s) rs" by simp
  from res_field.drop_queue_ok [OF assms(1) this _ refl] assms(5) obtain q' tr' where
    2: "drop_queue shift_res cb ?s =
        Some (?s\<lparr>res_queue := q', reqs := drop_all (set (concat (rev rs))) (reqs ?s), trace := tr'\<rparr>)"
      "qsize q' = 0" "filter is_free tr' = frees (reqs ?s) (concat (rev rs)) @ filter is_free tr"
    by auto
  let ?t = "?s\<lparr>res_queue := q', reqs := drop_all (set (concat (rev rs))) (reqs ?s), trace := tr'\<rparr>"
  have "ring (wrks ?t) ws" "distinct (work_reqs (wrks ?t) ws)"
    "\<forall>a \<in> set (work_reqs (wrks ?t) ws). reqs ?t a \<noteq> None"
    using assms(6-9) by (auto simp: drop_all_def freed_def)
  from drop_workers_ok [OF assms(1) this] obtain w tr'' where
    3: "drop_workers cb ?t = Some (?t\<lparr>wrks := w,
        reqs := drop_all (set (work_reqs (wrks s) ws)) (reqs ?t), trace := tr''\<rparr>)" "ring w []"
      "filter is_free tr'' = frees (reqs ?t) (work_reqs (wrks s) ws) @ filter is_free tr'" by auto
  have "set (concat (rev rq)) \<inter> set (concat (rev rs)) = {}"
    "(set (concat (rev rs)) \<union> set (concat (rev rq))) \<inter> set (work_reqs (wrks s) ws) = {}"
    using assms(8,9) by auto
  with 1 2 3 show ?thesis
    by (simp add: etp_atfork_child_def assms(8) Un_ac)
qed

text \<open>Two results wait and a worker executes the request at 48.\<close>

definition fork_start :: etp where
  "fork_start = poll_start\<lparr>reqs := (reqs poll_start)(48 \<mapsto> zero_req\<lparr>destroy := Some 1\<rparr>),
     wrks := [wrk_first \<mapsto> zero_worker\<lparr>wrk_prev := 16, wrk_next := 16\<rparr>,
              16 \<mapsto> zero_worker\<lparr>wrk_prev := wrk_first, wrk_next := wrk_first, wrk_req := Some 48\<rparr>]\<rparr>"

theorem fork_child_drops_all_witness:
  "\<exists>s. etp_atfork_child pair_cb fork_start = Some s \<and> qsize (res_queue s) = 0 \<and> ring (wrks s) [] \<and>
    nreqs s = 0 \<and> reqs s 48 = None \<and>
    filter is_free (trace s) = [Free_req 48, Free_req 16, Free_req 32]"
proof -
  have order: "concat (rev ((replicate 9 [])[4 := [16], 8 := [32 :: addr]])) = [32, 16]"
    "concat (rev (replicate 9 [])) = ([] :: addr list)"
    by code_simp+
  have "same_links (set (concat ((replicate 9 [])[4 := [16], 8 := [32]]))) (reqs poll_start) (reqs fork_start)"
    using arg_cong [OF order(1), of set] by (auto simp: same_links_def fork_start_def)
  from reqq_rep_frame [OF poll_start_rep this]
  have rep: "reqq_rep (reqs fork_start) (res_queue fork_start) ((replicate 9 [])[4 := [16], 8 := [32]])"
    by (simp add: fork_start_def)
  have rep0: "reqq_rep (reqs fork_start) (req_queue fork_start) (replicate 9 [])"
    using reqq_rep_empty by (simp add: fork_start_def poll_start_def etp_start_def)
  have ring: "ring (wrks fork_start) [16]" and work: "work_reqs (wrks fork_start) [16] = [48]"
    by (simp_all add: ring_def linked_def fork_start_def wrk_first_def work_reqs_def)
  have free: "frees (reqs fork_start) [32, 16, 48] = [Free_req 48, Free_req 16, Free_req 32]"
    by (simp add: freed_def fork_start_def poll_start_def etp_start_def)
  have side: "qsize (req_queue fork_start) \<le> INT_MAX" "qsize (res_queue fork_start) \<le> INT_MAX"
    "\<forall>a \<in> set [48]. reqs fork_start a \<noteq> None" "trace fork_start = []" "freed (reqs fork_start) 48"
    by (simp_all add: fork_start_def poll_start_def etp_start_def reqq_empty_def INT_MAX_def freed_def)
  from fork_child_drops_all [OF pair_facts(2) rep0 side(1) rep side(2) ring, unfolded order work,
      OF side(3) refl] obtain s' where
    s': "etp_atfork_child pair_cb fork_start = Some s'" "qsize (res_queue s') = 0" "ring (wrks s') []"
      "nreqs s' = 0" "reqs s' = drop_all (set ([] @ [32, 16] @ [48])) (reqs fork_start)"
      "filter is_free (trace s') = frees (reqs fork_start) ([] @ [32, 16] @ [48]) @ filter is_free (trace fork_start)"
    by auto
  then show ?thesis
    using free side(4,5) by (intro exI [of _ s']) (simp add: drop_all_def)
qed

end
