(* ===== verification/Eio_Threads.thy ===== *)
theory Eio_Threads
  imports Eio_Emul Eio_Fork
begin

text \<open>
  Locks and threads: \<open>thread_create\<close> of \<open>src/libeio/xthread.h\<close> on POSIX systems, and the functions
  of \<open>src/libeio/eio.c\<close> that create the locks and hold them over a fork. A mutex is the thread that
  holds it; \<^term>\<open>None\<close> as the result of an operation is a wait that does not end.
\<close>

section \<open>Creating a thread\<close>

text \<open>A signal mask is a word, one bit for each signal.\<close>

record thread =
  th_proc :: "64 word"
  th_arg :: "64 word"
  th_mask :: "64 word"
  th_detached :: bool
  th_stack :: int

record posix =
  cur_mask :: "64 word"      \<comment> \<open>the signal mask of the calling thread\<close>
  threads :: "thread list"   \<comment> \<open>created, the newest first\<close>

definition X_STACKSIZE :: int where "X_STACKSIZE = 8 * 4096"

text \<open>\<open>pthread_sigmask (SIG_SETMASK, set, old)\<close>.\<close>

definition set_mask :: "64 word \<Rightarrow> posix \<Rightarrow> 64 word \<times> posix" where
  "set_mask m P = (cur_mask P, P\<lparr>cur_mask := m\<rparr>)"

text \<open>\<open>pthread_create\<close> with the error code \<open>rc\<close>: a new thread inherits the mask.\<close>

definition pthread_create :: "int \<Rightarrow> bool \<Rightarrow> int \<Rightarrow> 64 word \<Rightarrow> 64 word \<Rightarrow> posix \<Rightarrow> int \<times> posix" where
  "pthread_create rc detached stack proc arg P =
     (rc, if rc = 0
          then P\<lparr>threads := \<lparr>th_proc = proc, th_arg = arg, th_mask = cur_mask P, th_detached = detached,
                             th_stack = stack\<rparr> # threads P\<rparr>
          else P)"

definition thread_create :: "int \<Rightarrow> int \<Rightarrow> 64 word \<Rightarrow> 64 word \<Rightarrow> posix \<Rightarrow> int \<times> posix" where
  "thread_create stack_min rc proc arg P =
     (let stack = (if stack_min < X_STACKSIZE then X_STACKSIZE else stack_min);
          fullsigset = - 1;
          (oldsigset, P) = set_mask fullsigset P;
          (res, P) = pthread_create rc True stack proc arg P;
          (_, P) = set_mask oldsigset P
      in (if res = 0 then 1 else 0, P))"

text \<open>The same on Windows: no signals to block, and the default stack.\<close>

definition thread_create_win32 :: "int \<Rightarrow> int \<Rightarrow> 64 word \<Rightarrow> 64 word \<Rightarrow> posix \<Rightarrow> int \<times> posix" where
  "thread_create_win32 stack rc proc arg P =
     (case pthread_create rc True stack proc arg P of (res, P) \<Rightarrow> (if res = 0 then 1 else 0, P))"

section \<open>The locks\<close>

type_synonym xmutex = "nat option"

record locks =
  wrklock :: xmutex
  reslock :: xmutex
  reqlock :: xmutex
  preadwritelock :: xmutex   \<comment> \<open>without \<open>pread\<close> and \<open>pwrite\<close> only\<close>

definition X_LOCK :: "nat \<Rightarrow> xmutex \<Rightarrow> xmutex option" where
  "X_LOCK self l = (if l = None then Some (Some self) else None)"

definition X_UNLOCK :: "xmutex \<Rightarrow> xmutex" where "X_UNLOCK l = None"
definition X_MUTEX_CREATE :: xmutex where "X_MUTEX_CREATE = None"

definition etp_thread_init :: "locks \<Rightarrow> locks" where
  "etp_thread_init L =
     L\<lparr>wrklock := X_MUTEX_CREATE, reslock := X_MUTEX_CREATE, reqlock := X_MUTEX_CREATE\<rparr>"

definition etp_atfork_prepare :: "platform \<Rightarrow> nat \<Rightarrow> locks \<Rightarrow> locks option" where
  "etp_atfork_prepare p self L = do {
     l \<leftarrow> X_LOCK self (wrklock L);
     (let L = L\<lparr>wrklock := l\<rparr> in do {
        l \<leftarrow> X_LOCK self (reqlock L);
        (let L = L\<lparr>reqlock := l\<rparr> in do {
           l \<leftarrow> X_LOCK self (reslock L);
           (let L = L\<lparr>reslock := l\<rparr>
            in if have_preadwrite p then Some L
               else do {
                 l \<leftarrow> X_LOCK self (preadwritelock L);
                 Some (L\<lparr>preadwritelock := l\<rparr>) }) }) }) }"

definition etp_atfork_parent :: "platform \<Rightarrow> locks \<Rightarrow> locks" where
  "etp_atfork_parent p L =
     (let L = (if have_preadwrite p then L else L\<lparr>preadwritelock := X_UNLOCK (preadwritelock L)\<rparr>);
          L = L\<lparr>reslock := X_UNLOCK (reslock L)\<rparr>;
          L = L\<lparr>reqlock := X_UNLOCK (reqlock L)\<rparr>
      in L\<lparr>wrklock := X_UNLOCK (wrklock L)\<rparr>)"

text \<open>The registered handlers: \<open>etp_once_init\<close> creates the locks and registers the three functions,
  and a fork runs the first before and the others after it.\<close>

definition fork_parent :: "platform \<Rightarrow> nat \<Rightarrow> locks \<Rightarrow> locks option" where
  "fork_parent p self L = map_option (etp_atfork_parent p) (etp_atfork_prepare p self L)"

definition fork_child :: "platform \<Rightarrow> nat \<Rightarrow> callbacks \<Rightarrow> locks \<times> etp \<Rightarrow> (locks \<times> etp) option" where
  "fork_child p self cb P = (case P of (L, s) \<Rightarrow> do {
     L \<leftarrow> etp_atfork_prepare p self L;
     s \<leftarrow> etp_atfork_child cb s;
     Some (etp_thread_init L, s) })"

section \<open>Properties\<close>

text \<open>\<open>thread_create\<close> creates a detached thread with every signal blocked and enough stack, or
  none, leaves the signal mask of its caller as it was, and returns 1 exactly if it created one.\<close>

theorem thread_create_blocks_signals:
  "\<exists>ts. thread_create stack_min rc proc arg P = (if rc = 0 then 1 else 0, P\<lparr>threads := ts @ threads P\<rparr>) \<and>
     (if rc = 0 then map th_mask ts = [- 1] \<and> map th_proc ts = [proc] \<and> map th_arg ts = [arg] \<and>
        map th_detached ts = [True] \<and> map th_stack ts = [max stack_min X_STACKSIZE]
      else ts = [])"
proof (cases "rc = 0")
  case True
  let ?t = "\<lparr>th_proc = proc, th_arg = arg, th_mask = - 1, th_detached = True,
    th_stack = max stack_min X_STACKSIZE\<rparr>"
  from True show ?thesis
    by (intro exI [of _ "[?t]"])
      (simp add: thread_create_def set_mask_def pthread_create_def Let_def max_def)
qed (simp add: thread_create_def set_mask_def pthread_create_def)


lemma idle_fork: "\<exists>s. etp_atfork_child cb (etp_start h) = Some s"
proof -
  have "shift_req (etp_start h) = Some (None, etp_start h)" "shift_res (etp_start h) = Some (None, etp_start h)"
    by (simp_all add: shift_req_def shift_res_def reqq_shift_def reqq_empty_def etp_start_def)
  then have "drop_queue shift_req cb (etp_start h) = Some (etp_start h)"
    "drop_queue shift_res cb (etp_start h) = Some (etp_start h)"
    by (subst drop_queue.simps; simp)+
  moreover have "drop_workers cb (etp_start h) = Some (etp_start h)"
    by (subst drop_workers.simps) (simp add: etp_start_def wrks_init_def)
  ultimately show ?thesis by (simp add: etp_atfork_child_def)
qed

text \<open>A platform without \<open>pread\<close>, and a fork of thread 1 with every lock free.\<close>

definition no_pread :: platform where
  "no_pread = \<lparr>have_preadwrite = False, have_readahead = False, have_sendfile = None,
     have_sync_file_range = False, have_utimes = False, have_futimes = False, have_fdatasync = False,
     posix_memlock = False, posix_memlock_range = False, posix_msync = False, page = 4096,
     mcl_current = 1, mcl_future = 2, ms_async = 1, ms_invalidate = 2, ms_sync = 4,
     sfr_wait_before = 1, sfr_write = 2, sfr_wait_after = 4, sizeof_stat = 144, sizeof_statvfs = 112,
     path_max = 4096\<rparr>"

definition free_locks :: locks where
  "free_locks = \<lparr>wrklock = None, reslock = None, reqlock = None, preadwritelock = None\<rparr>"


end
