(* ===== verification/Emul_Lock.thy ===== *)
theory Emul_Lock
  imports Eio_Threads
begin

text \<open>
  The emulated \<open>pread\<close> and \<open>pwrite\<close> of \<open>src/libeio/eio.c\<close> on several threads at once. They move the
  position of a file that all threads share, so they hold \<open>preadwritelock\<close> over their four system
  calls. Each call is one step here; threads outside the two functions do what changes their own
  \<open>errno\<close> and buffers only.
\<close>

section \<open>The steps of the two functions\<close>

datatype emu_call = Emu_read int "64 word" "64 word" int | Emu_write int "64 word" "64 word" int

fun emu_run :: "'w libc \<Rightarrow> emu_call \<Rightarrow> 'w mach \<Rightarrow> int \<times> 'w mach" where
  "emu_run L (Emu_read fd buf nbytes offset) = eio__pread L fd buf nbytes offset"
| "emu_run L (Emu_write fd buf nbytes offset) = eio__pwrite L fd buf nbytes offset"

fun emu_fd :: "emu_call \<Rightarrow> int" where
  "emu_fd (Emu_read fd buf nbytes offset) = fd"
| "emu_fd (Emu_write fd buf nbytes offset) = fd"

fun emu_offset :: "emu_call \<Rightarrow> int" where
  "emu_offset (Emu_read fd buf nbytes offset) = offset"
| "emu_offset (Emu_write fd buf nbytes offset) = offset"

fun emu_transfer :: "emu_call \<Rightarrow> syscall" where
  "emu_transfer (Emu_read fd buf nbytes offset) = Fd (K_read fd buf nbytes)"
| "emu_transfer (Emu_write fd buf nbytes offset) = Fd (K_write fd buf nbytes)"

text \<open>
  Where a thread is: outside; behind \<open>X_LOCK\<close>; behind the first \<open>lseek\<close> with \<open>ooffset\<close>; behind the
  second; behind the transfer with \<open>res\<close>; behind the last \<open>lseek\<close>.
\<close>

datatype epc =
  E_out
| E_locked emu_call
| E_saved emu_call int
| E_moved emu_call int
| E_moved_data emu_call int int
| E_restored emu_call int

fun emu_next :: "'w libc \<Rightarrow> epc \<Rightarrow> 'w mach \<Rightarrow> (epc \<times> 'w mach) option" where
  "emu_next L (E_locked c) m =
     (case kernel L (Fd (K_lseek_cur (emu_fd c) 0)) m of (ooffset, m) \<Rightarrow> Some (E_saved c ooffset, m))"
| "emu_next L (E_saved c ooffset) m =
     (case kernel L (Fd (K_lseek_set (emu_fd c) (emu_offset c))) m of (_, m) \<Rightarrow> Some (E_moved c ooffset, m))"
| "emu_next L (E_moved c ooffset) m =
     (case kernel L (emu_transfer c) m of (res, m) \<Rightarrow> Some (E_moved_data c ooffset res, m))"
| "emu_next L (E_moved_data c ooffset res) m =
     (case kernel L (Fd (K_lseek_set (emu_fd c) ooffset)) m of (_, m) \<Rightarrow> Some (E_restored c res, m))"
| "emu_next L _ m = None"

text \<open>What a thread has of its own, and the machine it sees.\<close>

type_synonym own = "int \<times> 64 word \<times> 64 word"

definition sees :: "own \<Rightarrow> 'w \<Rightarrow> 'w mach" where
  "sees t w = \<lparr>m_errno = fst t, m_dbuf = fst (snd t), m_dirp = snd (snd t), m_os = w\<rparr>"

definition own_of :: "'w mach \<Rightarrow> own" where
  "own_of m = (m_errno m, m_dbuf m, m_dirp m)"

lemma sees_own [simp]: "sees (own_of m) (m_os m) = m" "own_of (sees t w) = t" "m_os (sees t w) = w"
  by (simp_all add: sees_def own_of_def)

record 'w emu =
  emu_lock :: xmutex
  emu_os :: 'w
  emu_own :: "nat \<Rightarrow> own"
  emu_pc :: "nat \<Rightarrow> epc"

text \<open>What is seen of a run: a thread changes what is its own, or a call returns.\<close>

datatype emu_event = Own nat own | Return nat emu_call int

inductive emu_step :: "'w libc \<Rightarrow> 'w emu \<Rightarrow> emu_event option \<Rightarrow> 'w emu \<Rightarrow> bool" for L where
  emu_own: "emu_pc S i = E_out \<Longrightarrow>
    emu_step L S (Some (Own i t)) (S\<lparr>emu_own := (emu_own S)(i := t)\<rparr>)"
| emu_enter: "emu_pc S i = E_out \<Longrightarrow> X_LOCK i (emu_lock S) = Some l \<Longrightarrow>
    emu_step L S None (S\<lparr>emu_lock := l, emu_pc := (emu_pc S)(i := E_locked c)\<rparr>)"
| emu_call: "emu_next L (emu_pc S i) (sees (emu_own S i) (emu_os S)) = Some (q, m) \<Longrightarrow>
    emu_step L S None (S\<lparr>emu_os := m_os m, emu_own := (emu_own S)(i := own_of m), emu_pc := (emu_pc S)(i := q)\<rparr>)"
| emu_leave: "emu_pc S i = E_restored c res \<Longrightarrow>
    emu_step L S (Some (Return i c res)) (S\<lparr>emu_lock := X_UNLOCK (emu_lock S), emu_pc := (emu_pc S)(i := E_out)\<rparr>)"

inductive emu_runs :: "'w libc \<Rightarrow> 'w emu \<Rightarrow> emu_event list \<Rightarrow> 'w emu \<Rightarrow> bool" for L where
  emu_nil: "emu_runs L S [] S"
| emu_cons: "emu_runs L S evs S' \<Longrightarrow> emu_step L S' e S'' \<Longrightarrow>
    emu_runs L S (evs @ (case e of None \<Rightarrow> [] | Some e \<Rightarrow> [e])) S''"

definition emu_start :: "'w \<Rightarrow> (nat \<Rightarrow> own) \<Rightarrow> 'w emu" where
  "emu_start w t = \<lparr>emu_lock = X_MUTEX_CREATE, emu_os = w, emu_own = t, emu_pc = (\<lambda>i. E_out)\<rparr>"

section \<open>The same calls one after the other\<close>

fun serial :: "'w libc \<Rightarrow> emu_event list \<Rightarrow> 'w \<times> (nat \<Rightarrow> own) \<Rightarrow> ('w \<times> (nat \<Rightarrow> own)) option" where
  "serial L [] P = Some P"
| "serial L (Own i t # evs) (w, own) = serial L evs (w, own(i := t))"
| "serial L (Return i c res # evs) (w, own) =
     (case emu_run L c (sees (own i) w) of (r, m) \<Rightarrow>
        if r = res then serial L evs (m_os m, own(i := own_of m)) else None)"

lemma serial_append:
  "serial L (evs @ evs') P = Option.bind (serial L evs P) (serial L evs')"
  by (induction L evs P rule: serial.induct) (auto split: prod.splits)

text \<open>What is left of a call, from any point of it.\<close>

fun emu_rest :: "'w libc \<Rightarrow> epc \<Rightarrow> 'w mach \<Rightarrow> int \<times> 'w mach" where
  "emu_rest L (E_locked c) m = emu_run L c m"
| "emu_rest L (E_saved c ooffset) m =
     (let (_, m) = kernel L (Fd (K_lseek_set (emu_fd c) (emu_offset c))) m;
          (res, m) = kernel L (emu_transfer c) m;
          (_, m) = kernel L (Fd (K_lseek_set (emu_fd c) ooffset)) m in (res, m))"
| "emu_rest L (E_moved c ooffset) m =
     (let (res, m) = kernel L (emu_transfer c) m;
          (_, m) = kernel L (Fd (K_lseek_set (emu_fd c) ooffset)) m in (res, m))"
| "emu_rest L (E_moved_data c ooffset res) m =
     (let (_, m) = kernel L (Fd (K_lseek_set (emu_fd c) ooffset)) m in (res, m))"
| "emu_rest L (E_restored c res) m = (res, m)"
| "emu_rest L E_out m = (0, m)"

fun emu_of :: "epc \<Rightarrow> emu_call option" where
  "emu_of E_out = None"
| "emu_of (E_locked c) = Some c"
| "emu_of (E_saved c _) = Some c"
| "emu_of (E_moved c _) = Some c"
| "emu_of (E_moved_data c _ _) = Some c"
| "emu_of (E_restored c _) = Some c"

lemma emu_of_None: "emu_of q = None \<longleftrightarrow> q = E_out"
  by (cases q) simp_all

lemma emu_next_rest:
  "emu_next L q m = Some (q', m') \<Longrightarrow> emu_rest L q' m' = emu_rest L q m \<and> emu_of q' = emu_of q \<and> emu_of q \<noteq> None"
proof (cases q)
  case (E_locked c)
  then show "emu_next L q m = Some (q', m') \<Longrightarrow> ?thesis"
    by (cases c) (auto simp: eio__pread_def eio__pwrite_def split: prod.splits)
qed (auto split: prod.splits)

text \<open>
  The state against the serial one: alike while nobody holds the lock; otherwise the holder's
  call, once completed, does to the serial state what the function does.
\<close>

definition emu_rel :: "'w libc \<Rightarrow> 'w emu \<Rightarrow> 'w \<times> (nat \<Rightarrow> own) \<Rightarrow> bool" where
  "emu_rel L S P \<longleftrightarrow> (case P of (w, own) \<Rightarrow>
     case emu_lock S of
       None \<Rightarrow> emu_os S = w \<and> emu_own S = own \<and> (\<forall>j. emu_pc S j = E_out)
     | Some i \<Rightarrow> (\<forall>j. j \<noteq> i \<longrightarrow> emu_pc S j = E_out \<and> emu_own S j = own j) \<and>
         (\<exists>c. emu_of (emu_pc S i) = Some c \<and>
           emu_rest L (emu_pc S i) (sees (emu_own S i) (emu_os S)) = emu_run L c (sees (own i) w)))"

lemma emu_rel_held:
  assumes "emu_rel L S (w, own)" and "emu_pc S i \<noteq> E_out"
  shows "emu_lock S = Some i"
  using assms by (simp add: emu_rel_def split: option.splits) metis

lemma emu_step_serial:
  assumes "emu_step L S e S'" and "emu_rel L S P"
  shows "\<exists>P'. serial L (case e of None \<Rightarrow> [] | Some e \<Rightarrow> [e]) P = Some P' \<and> emu_rel L S' P'"
  using assms
proof (induction rule: emu_step.induct)
  case (emu_own S i t)
  obtain w own where P: "P = (w, own)" by (cases P)
  with emu_own have "emu_rel L (S\<lparr>emu_own := (emu_own S)(i := t)\<rparr>) (w, own(i := t))"
    by (cases "emu_lock S") (auto simp: emu_rel_def emu_of_None [symmetric])
  then show ?case by (simp add: P)
next
  case (emu_enter S i l c)
  obtain w own where P: "P = (w, own)" by (cases P)
  have "emu_lock S = None" "l = Some i" using emu_enter(2) by (auto simp: X_LOCK_def split: if_splits)
  with emu_enter(3) have "emu_rel L (S\<lparr>emu_lock := l, emu_pc := (emu_pc S)(i := E_locked c)\<rparr>) P"
    by (simp add: emu_rel_def P)
  then show ?case by simp
next
  case (emu_call S i q m)
  obtain w own where P: "P = (w, own)" by (cases P)
  note rest = emu_next_rest [OF emu_call(1)]
  then have "emu_lock S = Some i" using emu_rel_held emu_call(2) P by (metis emu_of.simps(1))
  with emu_call(2) rest have "emu_rel L
      (S\<lparr>emu_os := m_os m, emu_own := (emu_own S)(i := own_of m), emu_pc := (emu_pc S)(i := q)\<rparr>) P"
    by (auto simp: emu_rel_def P)
  then show ?case by simp
next
  case (emu_leave S i c res)
  obtain w own where P: "P = (w, own)" by (cases P)
  have lock: "emu_lock S = Some i" using emu_rel_held emu_leave P by (metis epc.distinct(9))
  with emu_leave P have run: "emu_run L c (sees (own i) w) = (res, sees (emu_own S i) (emu_os S))"
    and others: "\<forall>j. j \<noteq> i \<longrightarrow> emu_pc S j = E_out \<and> emu_own S j = own j"
    by (auto simp: emu_rel_def)
  have "emu_own S = own(i := emu_own S i)" using others by auto
  with others have "emu_rel L (S\<lparr>emu_lock := X_UNLOCK (emu_lock S), emu_pc := (emu_pc S)(i := E_out)\<rparr>)
      (emu_os S, own(i := emu_own S i))"
    by (simp add: emu_rel_def X_UNLOCK_def)
  with run show ?case by (simp add: P)
qed

lemma emu_runs_serial:
  "emu_runs L S evs S' \<Longrightarrow> emu_rel L S P \<Longrightarrow> \<exists>P'. serial L evs P = Some P' \<and> emu_rel L S' P'"
proof (induction arbitrary: P rule: emu_runs.induct)
  case (emu_cons S evs S' e S'')
  then obtain P' where P': "serial L evs P = Some P'" "emu_rel L S' P'" by blast
  with emu_step_serial [OF emu_cons(2) P'(2)] show ?case by (auto simp: serial_append)
qed auto

text \<open>The thread that holds the lock gets to the end of its call.\<close>

lemma emu_runs_step: "emu_step L S None S' \<Longrightarrow> emu_runs L S [] S'"
  using emu_cons [OF emu_nil, of L S None S'] by simp

lemma emu_runs_trans: "emu_runs L S' evs' S'' \<Longrightarrow> emu_runs L S evs S' \<Longrightarrow> emu_runs L S (evs @ evs') S''"
proof (induction rule: emu_runs.induct)
  case (emu_cons S' evs' S1 e S2)
  from emu_runs.emu_cons [OF emu_cons.IH [OF emu_cons.prems] emu_cons.hyps(2)] show ?case by simp
qed simp

fun calls_left :: "epc \<Rightarrow> nat" where
  "calls_left (E_locked _) = 4"
| "calls_left (E_saved _ _) = 3"
| "calls_left (E_moved _ _) = 2"
| "calls_left (E_moved_data _ _ _) = 1"
| "calls_left _ = 0"

lemma emu_finishes:
  assumes "emu_pc S i \<noteq> E_out"
  shows "\<exists>evs S'. emu_runs L S evs S' \<and> emu_lock S' = None"
  using assms
proof (induction "calls_left (emu_pc S i)" arbitrary: S rule: less_induct)
  case less
  show ?case
  proof (cases "emu_next L (emu_pc S i) (sees (emu_own S i) (emu_os S))")
    case None
    then obtain c res where pc: "emu_pc S i = E_restored c res"
      using less.prems by (cases "emu_pc S i") (auto split: prod.splits)
    from emu_runs.emu_cons [OF emu_nil emu_leave [OF pc], of L] show ?thesis
      by (intro exI conjI, assumption) (simp add: X_UNLOCK_def)
  next
    case (Some p)
    obtain q m where n: "emu_next L (emu_pc S i) (sees (emu_own S i) (emu_os S)) = Some (q, m)"
      using Some by (cases p) simp
    let ?S = "S\<lparr>emu_os := m_os m, emu_own := (emu_own S)(i := own_of m), emu_pc := (emu_pc S)(i := q)\<rparr>"
    have "calls_left q < calls_left (emu_pc S i)" "q \<noteq> E_out"
      using n by (cases "emu_pc S i"; auto split: prod.splits)+
    with less.hyps [of ?S] obtain evs S' where "emu_runs L ?S evs S'" "emu_lock S' = None" by auto
    with emu_runs_trans [OF _ emu_runs_step [OF emu_call [OF n]]] show ?thesis by blast
  qed
qed

text \<open>C37: However the threads' emulated \<open>pread\<close>s and \<open>pwrite\<close>s interleave, and whatever the system
  calls do, they return and leave behind what the same calls do one after the other, in the order
  in which they release the lock; and the lock can always become free again.\<close>

theorem emulation_serialises:
  assumes "emu_runs L (emu_start w own) evs S"
  shows "(\<exists>P. serial L evs (w, own) = Some P \<and> (emu_lock S = None \<longrightarrow> P = (emu_os S, emu_own S))) \<and>
    (\<exists>evs' S'. emu_runs L S evs' S' \<and> emu_lock S' = None)"
proof -
  have "emu_rel L (emu_start w own) (w, own)" by (simp add: emu_rel_def emu_start_def X_MUTEX_CREATE_def)
  from emu_runs_serial [OF assms this] obtain P where P: "serial L evs (w, own) = Some P" "emu_rel L S P" by blast
  then have "emu_lock S = None \<longrightarrow> P = (emu_os S, emu_own S)" by (cases P) (auto simp: emu_rel_def)
  with P(1) have "serial L evs (w, own) = Some P \<and> (emu_lock S = None \<longrightarrow> P = (emu_os S, emu_own S))"
    by (rule conjI)
  then have "\<exists>P. serial L evs (w, own) = Some P \<and> (emu_lock S = None \<longrightarrow> P = (emu_os S, emu_own S))"
    by (rule exI)
  moreover have "\<exists>evs' S'. emu_runs L S evs' S' \<and> emu_lock S' = None"
  proof (cases "emu_lock S")
    case None
    show ?thesis by (rule exI, rule exI, rule conjI, rule emu_nil, rule None)
  next
    case (Some i)
    with P(2) have "emu_pc S i \<noteq> E_out" by (cases P) (auto simp: emu_rel_def)
    then show ?thesis by (rule emu_finishes)
  qed
  ultimately show ?thesis by (rule conjI)
qed

section \<open>A run of two threads\<close>

text \<open>A kernel with one long file: the state is its position.\<close>

fun tape_kernel :: "syscall \<Rightarrow> int mach \<Rightarrow> int \<times> int mach" where
  "tape_kernel (Fd (K_lseek_cur fd off)) m = (m_os m, m)"
| "tape_kernel (Fd (K_lseek_set fd off)) m = (off, m\<lparr>m_os := off\<rparr>)"
| "tape_kernel (Fd (K_read fd buf nbytes)) m = (uint nbytes, m\<lparr>m_os := m_os m + uint nbytes\<rparr>)"
| "tape_kernel _ m = no_such_call m"

definition tape_libc :: "int libc" where
  "tape_libc = \<lparr>plat = no_pread, kernel = tape_kernel, malloc = (\<lambda>n m. (4096, m)), sent_bytes = (\<lambda>c m. 0)\<rparr>"

definition tape_at :: "xmutex \<Rightarrow> int \<Rightarrow> epc \<Rightarrow> (nat \<Rightarrow> own) \<Rightarrow> int emu" where
  "tape_at l p q own =
     \<lparr>emu_lock = l, emu_os = p, emu_own = own, emu_pc = (\<lambda>i. if i = 1 then q else E_out)\<rparr>"

lemma one_upd: "(\<lambda>i. if i = 1 then q else E_out)(1 := q') = (\<lambda>i. if i = (1 :: nat) then q' else E_out)"
  by auto

lemma tape_step:
  assumes "emu_runs tape_libc S evs (tape_at l p q own)"
    and "emu_next tape_libc q (sees (own 1) p) = Some (q', sees (own 1) p')"
  shows "emu_runs tape_libc S evs (tape_at l p' q' own)"
proof -
  have "emu_step tape_libc (tape_at l p q own) None (tape_at l p' q' own)"
    using emu_call [of tape_libc "tape_at l p q own" 1 q' "sees (own 1) p'"] assms(2)
    by (simp only: tape_at_def emu.simps sees_own one_upd fun_upd_triv simp_thms if_True)
  from emu_runs.emu_cons [OF assms(1) this] show ?thesis by simp
qed

definition tape_own :: "nat \<Rightarrow> own" where "tape_own = (\<lambda>i. (0, 0, 0))"
definition tape_call :: emu_call where "tape_call = Emu_read 3 4096 10 7"

lemma tape_run:
  "emu_runs tape_libc (emu_start 100 tape_own) [Own 2 (5, 0, 0), Return 1 tape_call 10]
    (tape_at None 100 E_out (tape_own(2 := (5, 0, 0))))"
proof -
  let ?S = "emu_start 100 tape_own" and ?own = "tape_own(2 := (5, 0, 0))" and ?c = tape_call
  note [simp] = tape_libc_def tape_call_def sees_def
  have "emu_step tape_libc ?S None (tape_at (Some 1) 100 (E_locked ?c) tape_own)"
    using emu_enter [of ?S 1 "Some 1" tape_libc ?c]
    by (simp add: emu_start_def X_MUTEX_CREATE_def X_LOCK_def tape_at_def fun_upd_def)
  from tape_step [OF emu_runs_step [OF this], of "E_saved ?c 100" 100]
  have at: "emu_runs tape_libc ?S [] (tape_at (Some 1) 100 (E_saved ?c 100) tape_own)" by simp
  have "emu_step tape_libc (tape_at (Some 1) 100 (E_saved ?c 100) tape_own) (Some (Own 2 (5, 0, 0)))
      (tape_at (Some 1) 100 (E_saved ?c 100) ?own)"
    using emu_own [of "tape_at (Some 1) 100 (E_saved ?c 100) tape_own" 2 tape_libc "(5, 0, 0)"]
    by (simp add: tape_at_def)
  from emu_runs.emu_cons [OF at this]
  have "emu_runs tape_libc ?S [Own 2 (5, 0, 0)] (tape_at (Some 1) 100 (E_saved ?c 100) ?own)" by simp
  from tape_step [OF this, of "E_moved ?c 100" 7]
  have "emu_runs tape_libc ?S [Own 2 (5, 0, 0)] (tape_at (Some 1) 7 (E_moved ?c 100) ?own)" by simp
  from tape_step [OF this, of "E_moved_data ?c 100 10" 17]
  have "emu_runs tape_libc ?S [Own 2 (5, 0, 0)] (tape_at (Some 1) 17 (E_moved_data ?c 100 10) ?own)" by simp
  from tape_step [OF this, of "E_restored ?c 10" 100]
  have at: "emu_runs tape_libc ?S [Own 2 (5, 0, 0)] (tape_at (Some 1) 100 (E_restored ?c 10) ?own)" by simp
  have "emu_step tape_libc (tape_at (Some 1) 100 (E_restored ?c 10) ?own) (Some (Return 1 ?c 10))
      (tape_at None 100 E_out ?own)"
    using emu_leave [of "tape_at (Some 1) 100 (E_restored ?c 10) ?own" 1 ?c 10 tape_libc]
    by (simp only: tape_at_def emu.simps one_upd X_UNLOCK_def simp_thms if_True if_cancel)
  from emu_runs.emu_cons [OF at this] show ?thesis by simp
qed

theorem emulation_serialises_witness:
  "serial tape_libc [Own 2 (5, 0, 0), Return 1 tape_call 10] (100, tape_own) =
    Some (100, tape_own(2 := (5, 0, 0)))"
proof -
  from emulation_serialises [OF tape_run] obtain P where
    "serial tape_libc [Own 2 (5, 0, 0), Return 1 tape_call 10] (100, tape_own) = Some P"
    "P = (100, tape_own(2 := (5, 0, 0)))" by (auto simp only: tape_at_def emu.simps)
  then show ?thesis by (simp only:)
qed

end
