(* ===== verification/Jni_Asyncio.thy ===== *)
theory Jni_Asyncio
  imports Api_Correct
begin

text \<open>
  \<open>src/src/main/c/asyncio.c\<close>: the native methods behind the Java classes \<open>AsyncIO\<close> and
  \<open>RequestWrapper\<close>. The Java virtual machine is a parameter: the references and objects it hands
  out for one call are the record \<open>jni_env\<close>, and of its state the model keeps the global references,
  the native pointer inside each wrapper object and the callbacks made. A \<open>jint\<close> is an \<^typ>\<open>int\<close>, a
  \<open>jlong\<close> standing for a pointer or an object reference is a 64-bit word; 0 is the null reference.
\<close>

section \<open>State\<close>

text \<open>\<open>struct java_data\<close>; the outer \<^term>\<open>None\<close> of \<open>jd_request\<close> is indeterminate memory.\<close>

record java_data =
  jd_callback :: ptr
  jd_request :: "ptr option"
  jd_complete :: int

record jni =
  lib :: etp
  datas :: "addr \<Rightarrow> java_data option"
  grefs :: "addr \<Rightarrow> 64 word option"        \<comment> \<open>global reference to object\<close>
  natives :: "64 word \<Rightarrow> ptr option"         \<comment> \<open>the \<open>ptr\<close> field of a \<open>RequestWrapper\<close>\<close>
  jcalls :: "(64 word \<times> 64 word) list"      \<comment> \<open>\<open>complete\<close> calls: callback, request; newest first\<close>

record jni_env =
  je_api :: api_env
  je_data :: ptr                  \<comment> \<open>\<open>malloc\<close> of the \<open>java_data\<close>\<close>
  je_cb_ref :: ptr                \<comment> \<open>\<open>NewGlobalRef\<close> of the callback\<close>
  je_wrapper :: "64 word"         \<comment> \<open>\<open>NewObject\<close>\<close>
  je_req_ref :: ptr               \<comment> \<open>\<open>NewGlobalRef\<close> of the wrapper\<close>
  je_chars :: "64 word \<Rightarrow> 64 word"  \<comment> \<open>\<open>GetStringUTFChars\<close>\<close>

text \<open>\<open>NewGlobalRef\<close> of a null reference is null; otherwise a new reference, or null without memory.\<close>

definition new_global_ref :: "ptr \<Rightarrow> 64 word \<Rightarrow> jni \<Rightarrow> ptr \<times> jni" where
  "new_global_ref ref obj J =
     (if obj = 0 then (None, J)
      else case ref of None \<Rightarrow> (None, J) | Some a \<Rightarrow> (Some a, J\<lparr>grefs := (grefs J)(a \<mapsto> obj)\<rparr>))"

definition delete_global_ref :: "ptr \<Rightarrow> jni \<Rightarrow> jni" where
  "delete_global_ref ref J = (case ref of None \<Rightarrow> J | Some a \<Rightarrow> J\<lparr>grefs := (grefs J)(a := None)\<rparr>)"

section \<open>The pipe\<close>

text \<open>The bytes in the pipe; reading from the empty pipe would block.\<close>

definition want_poll :: "nat \<Rightarrow> nat option" where "want_poll n = Some (n + 1)"
definition done_poll :: "nat \<Rightarrow> nat option" where "done_poll n = (if n = 0 then None else Some (n - 1))"

text \<open>\<open>block\<close> polls the read end without a timeout: it returns when there is a byte.\<close>

definition jni_block :: "nat \<Rightarrow> nat option" where "jni_block n = (if n = 0 then None else Some n)"

section \<open>Initialisation\<close>

record jni_globals =
  callback_jmethod :: ptr
  req_class :: ptr
  req_constructor :: ptr
  pipe_out :: int
  pipe_in :: int

record init_env =
  ie_callback_cls :: ptr       \<comment> \<open>\<open>FindClass\<close> of \<open>AioCallback\<close>\<close>
  ie_method :: ptr             \<comment> \<open>\<open>GetMethodID\<close> of \<open>complete\<close>\<close>
  ie_req_class :: ptr          \<comment> \<open>the global reference to \<open>RequestWrapper\<close>\<close>
  ie_constructor :: ptr
  ie_pipe :: "(int \<times> int) option"  \<comment> \<open>\<open>pipe\<close>: read and write end, or its failure\<close>

text \<open>The addresses of \<open>want_poll\<close> and \<open>done_poll\<close>.\<close>

definition want_poll_code :: code_ptr where "want_poll_code = Some 3"
definition done_poll_code :: code_ptr where "done_poll_code = Some 4"

text \<open>A failed assertion is \<^term>\<open>None\<close>.\<close>

definition jni_init :: "init_env \<Rightarrow> etp \<Rightarrow> (jni_globals \<times> etp) option" where
  "jni_init E s = do {
     callback_cls \<leftarrow> ie_callback_cls E;
     method \<leftarrow> ie_method E;
     cls \<leftarrow> ie_req_class E;
     constr \<leftarrow> ie_constructor E;
     (rd, wr) \<leftarrow> ie_pipe E;
     (case eio_init want_poll_code done_poll_code s of (res, s) \<Rightarrow>
        if res = 0
        then Some (\<lparr>callback_jmethod = Some method, req_class = Some cls, req_constructor = Some constr,
                    pipe_out = rd, pipe_in = wr\<rparr>, s)
        else None) }"

definition jni_wakeUpFileDescriptor :: "jni_globals \<Rightarrow> int" where
  "jni_wakeUpFileDescriptor G = pipe_out G"

section \<open>Requests and their completion\<close>

text \<open>\<open>bzero (data, sizeof (data))\<close> clears the first pointer only; a null \<open>data\<close> is written through.\<close>

definition alloc_java_data :: "jni_env \<Rightarrow> 64 word \<Rightarrow> jni \<Rightarrow> (addr \<times> jni) option" where
  "alloc_java_data E callback J = do {
     d \<leftarrow> je_data E;
     (case new_global_ref (je_cb_ref E) callback J of (cb, J) \<Rightarrow>
        Some (d, J\<lparr>datas := (datas J)(d \<mapsto> \<lparr>jd_callback = cb, jd_request = None, jd_complete = 0\<rparr>)\<rparr>)) }"

definition wrap_request :: "jni_env \<Rightarrow> addr \<Rightarrow> ptr \<Rightarrow> jni \<Rightarrow> (ptr \<times> jni) option" where
  "wrap_request E d req J =
     (case new_global_ref (je_req_ref E) (je_wrapper E) (J\<lparr>natives := (natives J)(je_wrapper E \<mapsto> req)\<rparr>) of
        (ref, J) \<Rightarrow> do {
          jd \<leftarrow> datas J d;
          Some (ref, J\<lparr>datas := (datas J)(d \<mapsto> jd\<lparr>jd_request := Some ref\<rparr>)\<rparr>) })"

text \<open>
  \<open>completion_callback\<close> flows off its end: \<open>junk\<close> is the indeterminate value \<open>eio_finish\<close> gets from
  it. The Java method called may be any code; its call is recorded.
\<close>

definition completion_callback :: "int \<Rightarrow> addr \<Rightarrow> jni \<Rightarrow> (int \<times> jni) option" where
  "completion_callback junk req J = do {
     r \<leftarrow> reqs (lib J) req;
     jd \<leftarrow> datas J (data r);
     (let J = J\<lparr>datas := (datas J)(data r \<mapsto> jd\<lparr>jd_complete := 1\<rparr>)\<rparr> in do {
        ref \<leftarrow> jd_request jd;
        J \<leftarrow> (case jd_callback jd of
                None \<Rightarrow> Some J
              | Some c \<Rightarrow> do {
                  cb \<leftarrow> grefs J c;
                  obj \<leftarrow> (case ref of None \<Rightarrow> Some 0 | Some a \<Rightarrow> grefs J a);
                  Some (J\<lparr>jcalls := (cb, obj) # jcalls J\<rparr>) });
        (let J = delete_global_ref ref (delete_global_ref (jd_callback jd) J)
         in Some (junk, J\<lparr>datas := (datas J)(data r := None)\<rparr>)) }) }"

text \<open>The address of the code of \<open>completion_callback\<close>.\<close>

definition completion_code :: code_ptr where "completion_code = Some 2"

text \<open>What every native method does around its \<open>eio_\<close> call \<open>f\<close>, which gets the \<open>data\<close>.\<close>

definition jni_request ::
  "jni_env \<Rightarrow> 64 word \<Rightarrow> (64 word \<Rightarrow> etp \<Rightarrow> (ptr \<times> etp) option) \<Rightarrow> jni \<Rightarrow> (ptr \<times> jni) option" where
  "jni_request E callback f J = do {
     (d, J) \<leftarrow> alloc_java_data E callback J;
     (req, s) \<leftarrow> f d (lib J);
     wrap_request E d req (J\<lparr>lib := s\<rparr>) }"

text \<open>A \<open>jint\<close> as \<open>size_t\<close>, as \<open>mode_t\<close>, \<open>uid_t\<close>, \<open>gid_t\<close> or \<open>unsigned\<close>, and as \<open>dev_t\<close>.\<close>

definition j_size :: "int \<Rightarrow> 64 word" where "j_size i = word_of_int i"
definition j_uint :: "int \<Rightarrow> 32 word" where "j_uint i = word_of_int i"

section \<open>The native methods of AsyncIO\<close>

definition jni_poll :: "poll_env \<Rightarrow> callbacks \<Rightarrow> etp \<Rightarrow> ((int \<times> int option) \<times> etp) option" where
  "jni_poll env cb = etp_poll env cb"

text \<open>The counters are returned as \<open>jint\<close>.\<close>

definition jni_numRequests :: "jni \<Rightarrow> int" where "jni_numRequests J = sint (eio_nreqs (lib J))"
definition jni_numReady :: "jni \<Rightarrow> int" where "jni_numReady J = sint (eio_nready (lib J))"
definition jni_numPending :: "jni \<Rightarrow> int" where "jni_numPending J = sint (eio_npending (lib J))"
definition jni_numThreads :: "jni \<Rightarrow> int" where "jni_numThreads J = sint (eio_nthreads (lib J))"

definition jni_nop ::
  "jni_env \<Rightarrow> int \<Rightarrow> 64 word \<Rightarrow> jni \<Rightarrow> (ptr \<times> jni) option" where
  "jni_nop E priority callback = jni_request E callback
     (\<lambda>d. eio_nop (je_api E) priority completion_code d)"

definition jni_busy ::
  "jni_env \<Rightarrow> int \<Rightarrow> int \<Rightarrow> 64 word \<Rightarrow> jni \<Rightarrow> (ptr \<times> jni) option" where
  "jni_busy E delay priority callback = jni_request E callback
     (\<lambda>d. eio_busy (je_api E) (dbl_of_int delay) priority completion_code d)"

definition jni_sync ::
  "jni_env \<Rightarrow> int \<Rightarrow> 64 word \<Rightarrow> jni \<Rightarrow> (ptr \<times> jni) option" where
  "jni_sync E priority callback = jni_request E callback
     (\<lambda>d. eio_sync (je_api E) priority completion_code d)"

definition jni_fsync ::
  "jni_env \<Rightarrow> int \<Rightarrow> int \<Rightarrow> 64 word \<Rightarrow> jni \<Rightarrow> (ptr \<times> jni) option" where
  "jni_fsync E fd priority callback = jni_request E callback
     (\<lambda>d. eio_fsync (je_api E) fd priority completion_code d)"

definition jni_fdatasync ::
  "jni_env \<Rightarrow> int \<Rightarrow> int \<Rightarrow> 64 word \<Rightarrow> jni \<Rightarrow> (ptr \<times> jni) option" where
  "jni_fdatasync E fd priority callback = jni_request E callback
     (\<lambda>d. eio_fdatasync (je_api E) fd priority completion_code d)"

definition jni_msync ::
  "jni_env \<Rightarrow> 64 word \<Rightarrow> int \<Rightarrow> int \<Rightarrow> int \<Rightarrow> 64 word \<Rightarrow> jni \<Rightarrow> (ptr \<times> jni) option" where
  "jni_msync E address len fl priority callback = jni_request E callback
     (\<lambda>d. eio_msync (je_api E) address (j_size len) fl priority completion_code d)"

definition jni_mtouch ::
  "jni_env \<Rightarrow> 64 word \<Rightarrow> int \<Rightarrow> int \<Rightarrow> int \<Rightarrow> 64 word \<Rightarrow> jni \<Rightarrow> (ptr \<times> jni) option" where
  "jni_mtouch E address len fl priority callback = jni_request E callback
     (\<lambda>d. eio_mtouch (je_api E) address (j_size len) fl priority completion_code d)"

definition jni_mlock ::
  "jni_env \<Rightarrow> 64 word \<Rightarrow> int \<Rightarrow> int \<Rightarrow> 64 word \<Rightarrow> jni \<Rightarrow> (ptr \<times> jni) option" where
  "jni_mlock E address len priority callback = jni_request E callback
     (\<lambda>d. eio_mlock (je_api E) address (j_size len) priority completion_code d)"

definition jni_mlockall ::
  "jni_env \<Rightarrow> int \<Rightarrow> int \<Rightarrow> 64 word \<Rightarrow> jni \<Rightarrow> (ptr \<times> jni) option" where
  "jni_mlockall E fl priority callback = jni_request E callback
     (\<lambda>d. eio_mlockall (je_api E) fl priority completion_code d)"

text \<open>The flags are passed for the descriptor as well.\<close>

definition jni_sync_file_range ::
  "jni_env \<Rightarrow> int \<Rightarrow> int \<Rightarrow> int \<Rightarrow> int \<Rightarrow> 64 word \<Rightarrow> jni \<Rightarrow> (ptr \<times> jni) option" where
  "jni_sync_file_range E offset nbytes fl priority callback = jni_request E callback
     (\<lambda>d. eio_sync_file_range (je_api E) fl offset (j_size nbytes) (j_uint fl) priority completion_code d)"

definition jni_close ::
  "jni_env \<Rightarrow> int \<Rightarrow> int \<Rightarrow> 64 word \<Rightarrow> jni \<Rightarrow> (ptr \<times> jni) option" where
  "jni_close E fd priority callback = jni_request E callback
     (\<lambda>d. eio_close (je_api E) fd priority completion_code d)"

definition jni_readahead ::
  "jni_env \<Rightarrow> int \<Rightarrow> int \<Rightarrow> int \<Rightarrow> int \<Rightarrow> 64 word \<Rightarrow> jni \<Rightarrow> (ptr \<times> jni) option" where
  "jni_readahead E fd offset len priority callback = jni_request E callback
     (\<lambda>d. eio_readahead (je_api E) fd offset (j_size len) priority completion_code d)"

definition jni_read ::
  "jni_env \<Rightarrow> int \<Rightarrow> 64 word \<Rightarrow> int \<Rightarrow> int \<Rightarrow> int \<Rightarrow> 64 word \<Rightarrow> jni \<Rightarrow> (ptr \<times> jni) option" where
  "jni_read E fd buffer len offset priority callback = jni_request E callback
     (\<lambda>d. eio_read (je_api E) fd buffer (j_size len) offset priority completion_code d)"

definition jni_write ::
  "jni_env \<Rightarrow> int \<Rightarrow> 64 word \<Rightarrow> int \<Rightarrow> int \<Rightarrow> int \<Rightarrow> 64 word \<Rightarrow> jni \<Rightarrow> (ptr \<times> jni) option" where
  "jni_write E fd buffer len offset priority callback = jni_request E callback
     (\<lambda>d. eio_write (je_api E) fd buffer (j_size len) offset priority completion_code d)"

definition jni_fstat ::
  "jni_env \<Rightarrow> int \<Rightarrow> int \<Rightarrow> 64 word \<Rightarrow> jni \<Rightarrow> (ptr \<times> jni) option" where
  "jni_fstat E fd priority callback = jni_request E callback
     (\<lambda>d. eio_fstat (je_api E) fd priority completion_code d)"

definition jni_fstatvfs ::
  "jni_env \<Rightarrow> int \<Rightarrow> int \<Rightarrow> 64 word \<Rightarrow> jni \<Rightarrow> (ptr \<times> jni) option" where
  "jni_fstatvfs E fd priority callback = jni_request E callback
     (\<lambda>d. eio_fstatvfs (je_api E) fd priority completion_code d)"

definition jni_futime ::
  "jni_env \<Rightarrow> int \<Rightarrow> int \<Rightarrow> int \<Rightarrow> int \<Rightarrow> 64 word \<Rightarrow> jni \<Rightarrow> (ptr \<times> jni) option" where
  "jni_futime E fd atime mtime priority callback = jni_request E callback
     (\<lambda>d. eio_futime (je_api E) fd (dbl_of_int atime) (dbl_of_int mtime) priority completion_code d)"

definition jni_ftruncate ::
  "jni_env \<Rightarrow> int \<Rightarrow> int \<Rightarrow> int \<Rightarrow> 64 word \<Rightarrow> jni \<Rightarrow> (ptr \<times> jni) option" where
  "jni_ftruncate E fd offset priority callback = jni_request E callback
     (\<lambda>d. eio_ftruncate (je_api E) fd offset priority completion_code d)"

definition jni_fchmod ::
  "jni_env \<Rightarrow> int \<Rightarrow> int \<Rightarrow> int \<Rightarrow> 64 word \<Rightarrow> jni \<Rightarrow> (ptr \<times> jni) option" where
  "jni_fchmod E fd mode priority callback = jni_request E callback
     (\<lambda>d. eio_fchmod (je_api E) fd (j_uint mode) priority completion_code d)"

definition jni_fchown ::
  "jni_env \<Rightarrow> int \<Rightarrow> int \<Rightarrow> int \<Rightarrow> int \<Rightarrow> 64 word \<Rightarrow> jni \<Rightarrow> (ptr \<times> jni) option" where
  "jni_fchown E fd uid gid priority callback = jni_request E callback
     (\<lambda>d. eio_fchown (je_api E) fd (j_uint uid) (j_uint gid) priority completion_code d)"

definition jni_dup2 ::
  "jni_env \<Rightarrow> int \<Rightarrow> int \<Rightarrow> int \<Rightarrow> 64 word \<Rightarrow> jni \<Rightarrow> (ptr \<times> jni) option" where
  "jni_dup2 E fd fd2 priority callback = jni_request E callback
     (\<lambda>d. eio_dup2 (je_api E) fd fd2 priority completion_code d)"

definition jni_sendfile ::
  "jni_env \<Rightarrow> int \<Rightarrow> int \<Rightarrow> int \<Rightarrow> int \<Rightarrow> int \<Rightarrow> 64 word \<Rightarrow> jni \<Rightarrow> (ptr \<times> jni) option" where
  "jni_sendfile E out_fd in_fd offset len priority callback = jni_request E callback
     (\<lambda>d. eio_sendfile (je_api E) out_fd in_fd offset (j_size len) priority completion_code d)"

text \<open>The characters of a path string are valid until they are released, after the call.\<close>

definition jni_open ::
  "jni_env \<Rightarrow> 64 word \<Rightarrow> int \<Rightarrow> int \<Rightarrow> int \<Rightarrow> 64 word \<Rightarrow> jni \<Rightarrow> (ptr \<times> jni) option" where
  "jni_open E path fl mode priority callback = jni_request E callback
     (\<lambda>d. eio_open (je_api E) (je_chars E path) fl (j_uint mode) priority completion_code d)"

definition jni_utime ::
  "jni_env \<Rightarrow> 64 word \<Rightarrow> int \<Rightarrow> int \<Rightarrow> int \<Rightarrow> 64 word \<Rightarrow> jni \<Rightarrow> (ptr \<times> jni) option" where
  "jni_utime E path atime mtime priority callback = jni_request E callback
     (\<lambda>d. eio_utime (je_api E) (je_chars E path) (dbl_of_int atime) (dbl_of_int mtime) priority completion_code d)"

definition jni_truncate ::
  "jni_env \<Rightarrow> 64 word \<Rightarrow> int \<Rightarrow> int \<Rightarrow> 64 word \<Rightarrow> jni \<Rightarrow> (ptr \<times> jni) option" where
  "jni_truncate E path offset priority callback = jni_request E callback
     (\<lambda>d. eio_truncate (je_api E) (je_chars E path) offset priority completion_code d)"

definition jni_chown ::
  "jni_env \<Rightarrow> 64 word \<Rightarrow> int \<Rightarrow> int \<Rightarrow> int \<Rightarrow> 64 word \<Rightarrow> jni \<Rightarrow> (ptr \<times> jni) option" where
  "jni_chown E path uid gid priority callback = jni_request E callback
     (\<lambda>d. eio_chown (je_api E) (je_chars E path) (j_uint uid) (j_uint gid) priority completion_code d)"

definition jni_chmod ::
  "jni_env \<Rightarrow> 64 word \<Rightarrow> int \<Rightarrow> int \<Rightarrow> 64 word \<Rightarrow> jni \<Rightarrow> (ptr \<times> jni) option" where
  "jni_chmod E path mode priority callback = jni_request E callback
     (\<lambda>d. eio_chmod (je_api E) (je_chars E path) (j_uint mode) priority completion_code d)"

definition jni_mkdir ::
  "jni_env \<Rightarrow> 64 word \<Rightarrow> int \<Rightarrow> int \<Rightarrow> 64 word \<Rightarrow> jni \<Rightarrow> (ptr \<times> jni) option" where
  "jni_mkdir E path mode priority callback = jni_request E callback
     (\<lambda>d. eio_mkdir (je_api E) (je_chars E path) (j_uint mode) priority completion_code d)"

definition jni_readdir ::
  "jni_env \<Rightarrow> 64 word \<Rightarrow> int \<Rightarrow> int \<Rightarrow> 64 word \<Rightarrow> jni \<Rightarrow> (ptr \<times> jni) option" where
  "jni_readdir E path fl priority callback = jni_request E callback
     (\<lambda>d. eio_readdir (je_api E) (je_chars E path) fl priority completion_code d)"

definition jni_rmdir ::
  "jni_env \<Rightarrow> 64 word \<Rightarrow> int \<Rightarrow> 64 word \<Rightarrow> jni \<Rightarrow> (ptr \<times> jni) option" where
  "jni_rmdir E path priority callback = jni_request E callback
     (\<lambda>d. eio_rmdir (je_api E) (je_chars E path) priority completion_code d)"

definition jni_unlink ::
  "jni_env \<Rightarrow> 64 word \<Rightarrow> int \<Rightarrow> 64 word \<Rightarrow> jni \<Rightarrow> (ptr \<times> jni) option" where
  "jni_unlink E path priority callback = jni_request E callback
     (\<lambda>d. eio_unlink (je_api E) (je_chars E path) priority completion_code d)"

definition jni_readlink ::
  "jni_env \<Rightarrow> 64 word \<Rightarrow> int \<Rightarrow> 64 word \<Rightarrow> jni \<Rightarrow> (ptr \<times> jni) option" where
  "jni_readlink E path priority callback = jni_request E callback
     (\<lambda>d. eio_readlink (je_api E) (je_chars E path) priority completion_code d)"

definition jni_stat ::
  "jni_env \<Rightarrow> 64 word \<Rightarrow> int \<Rightarrow> 64 word \<Rightarrow> jni \<Rightarrow> (ptr \<times> jni) option" where
  "jni_stat E path priority callback = jni_request E callback
     (\<lambda>d. eio_stat (je_api E) (je_chars E path) priority completion_code d)"

definition jni_lstat ::
  "jni_env \<Rightarrow> 64 word \<Rightarrow> int \<Rightarrow> 64 word \<Rightarrow> jni \<Rightarrow> (ptr \<times> jni) option" where
  "jni_lstat E path priority callback = jni_request E callback
     (\<lambda>d. eio_lstat (je_api E) (je_chars E path) priority completion_code d)"

definition jni_statvfs ::
  "jni_env \<Rightarrow> 64 word \<Rightarrow> int \<Rightarrow> 64 word \<Rightarrow> jni \<Rightarrow> (ptr \<times> jni) option" where
  "jni_statvfs E path priority callback = jni_request E callback
     (\<lambda>d. eio_statvfs (je_api E) (je_chars E path) priority completion_code d)"

definition jni_mknod ::
  "jni_env \<Rightarrow> 64 word \<Rightarrow> int \<Rightarrow> int \<Rightarrow> int \<Rightarrow> 64 word \<Rightarrow> jni \<Rightarrow> (ptr \<times> jni) option" where
  "jni_mknod E path mode dev priority callback = jni_request E callback
     (\<lambda>d. eio_mknod (je_api E) (je_chars E path) (j_uint mode) (j_size dev) priority completion_code d)"

text \<open>The characters of the new path are taken from \<open>path\<close>.\<close>

definition jni_link ::
  "jni_env \<Rightarrow> 64 word \<Rightarrow> 64 word \<Rightarrow> int \<Rightarrow> 64 word \<Rightarrow> jni \<Rightarrow> (ptr \<times> jni) option" where
  "jni_link E path new_path priority callback = jni_request E callback
     (\<lambda>d. eio_link (je_api E) (je_chars E path) (je_chars E path) priority completion_code d)"

definition jni_symlink ::
  "jni_env \<Rightarrow> 64 word \<Rightarrow> 64 word \<Rightarrow> int \<Rightarrow> 64 word \<Rightarrow> jni \<Rightarrow> (ptr \<times> jni) option" where
  "jni_symlink E path new_path priority callback = jni_request E callback
     (\<lambda>d. eio_symlink (je_api E) (je_chars E path) (je_chars E path) priority completion_code d)"

definition jni_rename ::
  "jni_env \<Rightarrow> 64 word \<Rightarrow> 64 word \<Rightarrow> int \<Rightarrow> 64 word \<Rightarrow> jni \<Rightarrow> (ptr \<times> jni) option" where
  "jni_rename E path new_path priority callback = jni_request E callback
     (\<lambda>d. eio_rename (je_api E) (je_chars E path) (je_chars E path) priority completion_code d)"

section \<open>The native methods of RequestWrapper\<close>

text \<open>Each reads a member through the pointer it is given; \<open>jint\<close> results are truncated.\<close>

definition jni_complete :: "addr \<Rightarrow> jni \<Rightarrow> bool option" where
  "jni_complete p J = do { r \<leftarrow> reqs (lib J) p; jd \<leftarrow> datas J (data r); Some (jd_complete jd = 1) }"

definition jni_result :: "addr \<Rightarrow> jni \<Rightarrow> int option" where
  "jni_result p J = map_option (\<lambda>r. as_int (result r)) (reqs (lib J) p)"

definition jni_offs :: "addr \<Rightarrow> jni \<Rightarrow> int option" where
  "jni_offs p J = map_option (\<lambda>r. as_int (offs r)) (reqs (lib J) p)"

definition jni_size :: "addr \<Rightarrow> jni \<Rightarrow> int option" where
  "jni_size p J = map_option (\<lambda>r. sint (ucast (req_size r) :: 32 word)) (reqs (lib J) p)"

definition jni_ptr1 :: "addr \<Rightarrow> jni \<Rightarrow> 64 word option" where
  "jni_ptr1 p J = map_option (\<lambda>r. ptr1 r) (reqs (lib J) p)"

definition jni_ptr2 :: "addr \<Rightarrow> jni \<Rightarrow> 64 word option" where
  "jni_ptr2 p J = map_option (\<lambda>r. ptr2 r) (reqs (lib J) p)"

definition jni_nv1 :: "addr \<Rightarrow> jni \<Rightarrow> int option" where
  "jni_nv1 p J = do { r \<leftarrow> reqs (lib J) p; dbl_to_long (nv1 r) }"

definition jni_nv2 :: "addr \<Rightarrow> jni \<Rightarrow> int option" where
  "jni_nv2 p J = do { r \<leftarrow> reqs (lib J) p; dbl_to_long (nv2 r) }"

definition jni_type :: "addr \<Rightarrow> jni \<Rightarrow> int option" where
  "jni_type p J = map_option (\<lambda>r. req_type r) (reqs (lib J) p)"

definition jni_int1 :: "addr \<Rightarrow> jni \<Rightarrow> int option" where
  "jni_int1 p J = map_option (\<lambda>r. int1 r) (reqs (lib J) p)"

definition jni_int2 :: "addr \<Rightarrow> jni \<Rightarrow> int option" where
  "jni_int2 p J = map_option (\<lambda>r. int2 r) (reqs (lib J) p)"

definition jni_int3 :: "addr \<Rightarrow> jni \<Rightarrow> int option" where
  "jni_int3 p J = map_option (\<lambda>r. int3 r) (reqs (lib J) p)"

definition jni_errorno :: "addr \<Rightarrow> jni \<Rightarrow> int option" where
  "jni_errorno p J = map_option (\<lambda>r. errorno r) (reqs (lib J) p)"

end
