(* ===== verification/Jni_Props.thy ===== *)
theory Jni_Props
  imports Jni_Asyncio Etp_Race
begin

text \<open>
  The properties of the native methods of \<open>src/src/main/c/asyncio.c\<close>: the pipe that wakes an event
  loop follows the result queue of the thread pool, the requests the methods submit, the life of
  the references and of the \<open>java_data\<close> of one request, and times passed to Java and back.
\<close>

section \<open>The wake-up pipe\<close>

text \<open>The bytes in the pipe after the calls of a trace (newest first); \<^term>\<open>None\<close> is a read that blocks.\<close>

fun pipe_bytes :: "event list \<Rightarrow> nat option" where
  "pipe_bytes [] = Some 0"
| "pipe_bytes (Want_poll # tr) = Option.bind (pipe_bytes tr) want_poll"
| "pipe_bytes (Done_poll # tr) = Option.bind (pipe_bytes tr) done_poll"
| "pipe_bytes (_ # tr) = pipe_bytes tr"

lemma pipe_alternates: "alternates tr b \<Longrightarrow> pipe_bytes tr = Some (if b then 1 else 0)"
  by (induction tr b rule: alternates.induct) (auto simp: want_poll_def done_poll_def)

section \<open>Submitted requests\<close>

lemma wrap_request_keeps:
  assumes "wrap_request E d req J = Some (ref, J')"
  shows "lib J' = lib J" "natives J' = (natives J)(je_wrapper E \<mapsto> req)"
  using assms by (auto simp: wrap_request_def new_global_ref_def split: prod.splits bind_splits option.splits if_splits)

lemma alloc_java_data_keeps: "alloc_java_data E callback J = Some (d, J') \<Longrightarrow> lib J' = lib J"
  by (auto simp: alloc_java_data_def new_global_ref_def split: prod.splits bind_splits option.splits if_splits)

lemma jni_request_runs:
  assumes "jni_request E callback f J = Some (ref, J')" and "natives J' (je_wrapper E) = Some req"
  shows "\<exists>d. f d (lib J) = Some (req, lib J')"
  using assms
  by (auto simp: jni_request_def wrap_request_keeps alloc_java_data_keeps split: bind_splits) blast

text \<open>Executing the request behind the wrapper that was returned makes the call \<open>c\<close>.\<close>

definition jni_performs :: "'w exec_env \<Rightarrow> jni_env \<Rightarrow> (ptr \<times> jni) option \<Rightarrow> syscall \<Rightarrow> bool" where
  "jni_performs X E out c \<longleftrightarrow>
     (\<forall>ref J a r m. out = Some (ref, J) \<longrightarrow> natives J (je_wrapper E) = Some (Some a) \<longrightarrow>
        reqs (lib J) a = Some r \<longrightarrow> executed X r m = called X c m)"

lemma jni_request_performs:
  assumes "\<And>d s. performs X (f d s) c"
  shows "jni_performs X E (jni_request E callback f J) c"
  using assms jni_request_runs unfolding jni_performs_def performs_def by metis

section \<open>One request from start to completion\<close>

lemma SEND_keeps: "SEND env a s = Some (req, s') \<Longrightarrow> req = Some a"
  by (auto simp: SEND_def split: bind_splits)

lemma request_result:
  assumes "request env r s = Some (Some a, s')"
  shows "\<exists>p nx. reqs s' a = Some (r\<lparr>pri := p, next_req := nx\<rparr>)"
proof -
  have "ae_req env = Some a" using assms by (auto simp: request_def split: option.splits dest: SEND_keeps)
  with assms SEND_stored [of env a "s\<lparr>reqs := (reqs s)(a \<mapsto> r)\<rparr>" a s' r] show ?thesis
    by (auto simp: request_def)
qed


section \<open>Properties\<close>

text \<open>C24: the byte protocol between the pool and a Java event loop: with both callbacks installed, in
  every reachable state the pipe holds one byte when results wait to be polled and none
  otherwise, so the descriptor is readable exactly then, and \<open>done_poll\<close> never reads from an empty
  pipe.\<close>

theorem wakeup_pipe_follows_results:
  assumes "reachable wp dp S" and "want_poll_cb (pool S) \<noteq> None" and "done_poll_cb (pool S) \<noteq> None"
  shows "pipe_bytes (trace (pool S)) = Some (if 0 < qsize (res_queue (pool S)) then 1 else 0)"
proof -
  from assms(1) obtain W where "sys_inv S W" by (rule reachable_inv)
  then have "edge_inv (pool S)" by (rule sys_invE)
  with assms(2,3) show ?thesis by (intro pipe_alternates) (simp add: edge_inv_def)
qed


text \<open>Times go to C as doubles and come back as \<open>long\<close>: below \<open>2^53\<close> in absolute value they come back
  unchanged.\<close>

theorem jni_times_roundtrip:
  assumes "jni_futime E fd atime mtime pr cb J = Some (ref, J')" and "natives J' (je_wrapper E) = Some (Some a)"
    and "\<bar>atime\<bar> < 2 ^ 53" and "\<bar>mtime\<bar> < 2 ^ 53"
  shows "jni_nv1 a J' = Some atime \<and> jni_nv2 a J' = Some mtime"
proof -
  from jni_request_runs [OF assms(1) [unfolded jni_futime_def] assms(2)] obtain d where
    "eio_futime (je_api E) fd (dbl_of_int atime) (dbl_of_int mtime) pr completion_code d (lib J) = Some (Some a, lib J')"
    by blast
  from request_result [OF this [unfolded eio_futime_def]] assms(3,4) show ?thesis
    by (auto simp: jni_nv1_def jni_nv2_def dbl_of_int_exact)
qed

text \<open>C25: the life of one request of any native method, whatever the pool does in between: it is not
  complete before its completion callback runs; the callback calls \<open>complete\<close> of the Java object
  once, with the wrapper, hands on an indeterminate value, and gives back both global references
  and the \<open>java_data\<close>. Asking the wrapper afterwards whether it is complete reads freed memory.\<close>

theorem jni_request_completes:
  assumes "jni_request E callback f J = Some (ref, J1)" and "callback \<noteq> 0" and "je_wrapper E \<noteq> 0"
    and "je_data E = Some d" and "je_cb_ref E = Some c" and "je_req_ref E = Some q" and "c \<noteq> q"
    and "grefs J c = None" and "grefs J q = None" and "datas J d = None"
    and "reqs L a = Some r" and "data r = d"
  shows "\<exists>J2. jni_complete a (J1\<lparr>lib := L\<rparr>) = Some False \<and>
    completion_callback junk a (J1\<lparr>lib := L\<rparr>) = Some (junk, J2) \<and>
    jcalls J2 = (callback, je_wrapper E) # jcalls J \<and> grefs J2 = grefs J \<and> datas J2 = datas J \<and>
    jni_complete a J2 = None"
proof -
  from assms(1-6) obtain s req where J1: "J1 = J\<lparr>lib := s, natives := (natives J)(je_wrapper E \<mapsto> req),
      grefs := (grefs J)(c \<mapsto> callback, q \<mapsto> je_wrapper E),
      datas := (datas J)(d \<mapsto> \<lparr>jd_callback = Some c, jd_request = Some (Some q), jd_complete = 0\<rparr>)\<rparr>"
    by (auto simp: jni_request_def alloc_java_data_def wrap_request_def new_global_ref_def split: bind_splits)
  have "(grefs J)(c := None, q := None) = grefs J" "(datas J)(d := None) = datas J"
    using assms(7-10) by (auto simp: fun_eq_iff)
  then show ?thesis
    using assms(7,10,11,12)
    by (auto simp: J1 jni_complete_def completion_callback_def delete_global_ref_def Let_def fun_upd_twist)
qed

section \<open>Witnesses\<close>

definition some_jni :: jni where
  "some_jni = \<lparr>lib = ready_pool, datas = Map.empty, grefs = Map.empty, natives = Map.empty, jcalls = []\<rparr>"

definition some_jni_env :: jni_env where
  "some_jni_env = \<lparr>je_api = some_api, je_data = Some 512, je_cb_ref = Some 1024, je_wrapper = 77,
     je_req_ref = Some 2048, je_chars = (\<lambda>p. p + 8)\<rparr>"

lemma some_jni_request:
  assumes "\<And>d. f d = request some_api (R d)" and "\<And>d. req_type (R d) \<noteq> type_code EIO_GROUP"
    and "\<And>d. pri (R d) = 0"
  shows "\<exists>J. jni_request some_jni_env 99 f some_jni = Some (Some 2048, J) \<and> natives J 77 = Some (Some 64)"
proof -
  from some_submitted [OF assms(2,3), of 512] obtain s r where
    "request some_api (R 512) ready_pool = Some (Some 64, s)" by blast
  then show ?thesis
    by (simp add: jni_request_def alloc_java_data_def wrap_request_def new_global_ref_def some_jni_def
        some_jni_env_def assms(1))
qed

theorem jni_times_roundtrip_witness:
  "\<exists>J. jni_futime some_jni_env 3 (- 12345) 1400000000 0 99 some_jni = Some (Some 2048, J) \<and>
    jni_nv1 64 J = Some (- 12345) \<and> jni_nv2 64 J = Some 1400000000"
proof -
  have "\<exists>J. jni_futime some_jni_env 3 (- 12345) 1400000000 0 99 some_jni = Some (Some 2048, J) \<and>
      natives J 77 = Some (Some 64)"
    unfolding jni_futime_def eio_futime_def
    by (rule some_jni_request) (auto simp: some_jni_env_def REQ_def to_schar_def)
  then obtain J where J: "jni_futime some_jni_env 3 (- 12345) 1400000000 0 99 some_jni = Some (Some 2048, J)"
    "natives J (je_wrapper some_jni_env) = Some (Some 64)" by (auto simp: some_jni_env_def)
  with jni_times_roundtrip [OF J] show ?thesis by auto
qed

theorem jni_request_completes_witness:
  "\<exists>J1 J2. jni_nop some_jni_env 0 99 some_jni = Some (Some 2048, J1) \<and>
    completion_callback 5 64 (J1\<lparr>lib := etp_start [64 \<mapsto> zero_req\<lparr>data := 512\<rparr>]\<rparr>) = Some (5, J2) \<and>
    jcalls J2 = [(99, 77)] \<and> grefs J2 = Map.empty \<and> jni_complete 64 J2 = None"
proof -
  have "\<exists>J. jni_nop some_jni_env 0 99 some_jni = Some (Some 2048, J) \<and> natives J 77 = Some (Some 64)"
    unfolding jni_nop_def eio_nop_def
    by (rule some_jni_request) (auto simp: some_jni_env_def REQ_def to_schar_def)
  then obtain J1 where J1: "jni_nop some_jni_env 0 99 some_jni = Some (Some 2048, J1)" by blast
  from jni_request_completes [where L = "etp_start [64 \<mapsto> zero_req\<lparr>data := 512\<rparr>]" and a = 64
      and r = "zero_req\<lparr>data := 512\<rparr>" and junk = 5 and d = 512 and c = 1024 and q = 2048,
      OF J1 [unfolded jni_nop_def]] J1
  show ?thesis by (auto simp: some_jni_def some_jni_env_def etp_start_def)
qed

theorem wakeup_pipe_follows_results_witness: "pipe_bytes [Want_poll] = Some 1"
  using wakeup_pipe_follows_results [OF group_reach] group_steps by (auto simp: Option.is_none_def)

end
