(* ===== verification/Native_Functions.thy ===== *)
theory Native_Functions
  imports Eio_Prelude
begin

text \<open>
  \<open>src/src/main/c/jni-native-functions.c\<close>: the native methods of the Java class
  \<open>NativeFunctions\<close>, which give Java code the C heap, C strings and single characters.

  The heap is byte-addressed: outside every block \<^term>\<open>None\<close>, inside a block the byte or, before it
  was written, \<^term>\<open>Some None\<close>. What \<open>malloc\<close> returns and what the Java virtual machine makes of a
  string are parameters. \<open>char\<close> is signed, as on the x86 targets of the build.
\<close>

section \<open>The C heap\<close>

record nmem =
  cells :: "addr \<Rightarrow> 8 word option option"
  blocks :: "addr \<Rightarrow> nat option"     \<comment> \<open>the size \<open>malloc\<close> was asked for\<close>

definition load :: "addr \<Rightarrow> nmem \<Rightarrow> 8 word option" where
  "load p m = Option.bind (cells m p) (\<lambda>c. c)"

definition store_cell :: "addr \<Rightarrow> 8 word option \<Rightarrow> nmem \<Rightarrow> nmem option" where
  "store_cell p c m = (if cells m p = None then None else Some (m\<lparr>cells := (cells m)(p \<mapsto> c)\<rparr>))"

fun store_bytes :: "addr \<Rightarrow> 8 word list \<Rightarrow> nmem \<Rightarrow> nmem option" where
  "store_bytes p [] m = Some m"
| "store_bytes p (b # bs) m = do { m \<leftarrow> store_cell p (Some b) m; store_bytes (p + 1) bs m }"

text \<open>A \<open>jint\<close> or \<open>int\<close> as \<open>size_t\<close>.\<close>

definition c_size :: "int \<Rightarrow> nat" where "c_size i = unat (word_of_int i :: 64 word)"

definition in_block :: "addr \<Rightarrow> nat \<Rightarrow> addr \<Rightarrow> bool" where
  "in_block a n p \<longleftrightarrow> unat (p - a) < n"

definition c_malloc :: "ptr \<Rightarrow> nat \<Rightarrow> nmem \<Rightarrow> ptr \<times> nmem" where
  "c_malloc mem n m = (case mem of
     None \<Rightarrow> (None, m)
   | Some a \<Rightarrow> (Some a, m\<lparr>cells := (\<lambda>p. if in_block a n p then Some None else cells m p),
                          blocks := (blocks m)(a \<mapsto> n)\<rparr>))"

definition c_free :: "ptr \<Rightarrow> nmem \<Rightarrow> nmem option" where
  "c_free p m = (case p of
     None \<Rightarrow> Some m
   | Some a \<Rightarrow> do {
       n \<leftarrow> blocks m a;
       Some (m\<lparr>cells := (\<lambda>p. if in_block a n p then None else cells m p),
               blocks := (blocks m)(a := None)\<rparr>) })"

section \<open>C strings\<close>

text \<open>The loops of \<open>strlen\<close> and of the functions that read a string: the bytes before the first 0.\<close>

partial_function (option) c_string :: "addr \<Rightarrow> nmem \<Rightarrow> 8 word list option" where
  "c_string p m = do {
     b \<leftarrow> load p m;
     (if b = 0 then Some [] else do { bs \<leftarrow> c_string (p + 1) m; Some (b # bs) }) }"

text \<open>\<open>strcmp\<close> and \<open>strncmp\<close>; the value for two different characters is the library's, \<open>diff\<close>.\<close>

partial_function (option) c_strcmp ::
  "(8 word \<Rightarrow> 8 word \<Rightarrow> int) \<Rightarrow> addr \<Rightarrow> addr \<Rightarrow> nmem \<Rightarrow> int option" where
  "c_strcmp diff p q m = do {
     a \<leftarrow> load p m;
     b \<leftarrow> load q m;
     (if a \<noteq> b then Some (diff a b) else if a = 0 then Some 0 else c_strcmp diff (p + 1) (q + 1) m) }"

fun c_strncmp :: "(8 word \<Rightarrow> 8 word \<Rightarrow> int) \<Rightarrow> addr \<Rightarrow> addr \<Rightarrow> nat \<Rightarrow> nmem \<Rightarrow> int option" where
  "c_strncmp diff p q 0 m = Some 0"
| "c_strncmp diff p q (Suc n) m = do {
     a \<leftarrow> load p m;
     b \<leftarrow> load q m;
     (if a \<noteq> b then Some (diff a b) else if a = 0 then Some 0 else c_strncmp diff (p + 1) (q + 1) n m) }"

text \<open>\<open>strncpy\<close>: up to the first 0 of the source, then zeros, \<open>n\<close> bytes in all.\<close>

fun c_strncpy :: "addr \<Rightarrow> addr \<Rightarrow> nat \<Rightarrow> nmem \<Rightarrow> nmem option" where
  "c_strncpy dest src 0 m = Some m"
| "c_strncpy dest src (Suc n) m = do {
     b \<leftarrow> load src m;
     m \<leftarrow> store_cell dest (Some b) m;
     c_strncpy (dest + 1) (if b = 0 then src else src + 1) n m }"

fun c_memcpy :: "addr \<Rightarrow> addr \<Rightarrow> nat \<Rightarrow> nmem \<Rightarrow> nmem option" where
  "c_memcpy dest src 0 m = Some m"
| "c_memcpy dest src (Suc n) m = do {
     c \<leftarrow> cells m src;
     m \<leftarrow> store_cell dest c m;
     c_memcpy (dest + 1) (src + 1) n m }"

section \<open>The native methods\<close>

definition native_malloc :: "ptr \<Rightarrow> int \<Rightarrow> nmem \<Rightarrow> ptr \<times> nmem" where
  "native_malloc mem len m = c_malloc mem (c_size len) m"

definition native_free :: "ptr \<Rightarrow> nmem \<Rightarrow> nmem option" where
  "native_free p m = c_free p m"

text \<open>Overlapping blocks are undefined for \<open>memcpy\<close>.\<close>

definition native_memcpy :: "addr \<Rightarrow> addr \<Rightarrow> int \<Rightarrow> nmem \<Rightarrow> nmem option" where
  "native_memcpy dest src len m =
     (if in_block src (c_size len) dest \<or> in_block dest (c_size len) src then None
      else c_memcpy dest src (c_size len) m)"

definition native_bzero :: "addr \<Rightarrow> int \<Rightarrow> nmem \<Rightarrow> nmem option" where
  "native_bzero p len m = store_bytes p (replicate (c_size len) 0) m"

definition native_strlen :: "addr \<Rightarrow> nmem \<Rightarrow> int option" where
  "native_strlen p m = map_option (\<lambda>bs. sint (word_of_nat (length bs) :: 32 word)) (c_string p m)"

definition native_strcmp :: "(8 word \<Rightarrow> 8 word \<Rightarrow> int) \<Rightarrow> addr \<Rightarrow> addr \<Rightarrow> nmem \<Rightarrow> int option" where
  "native_strcmp diff p q m = c_strcmp diff p q m"

definition native_strncmp ::
  "(8 word \<Rightarrow> 8 word \<Rightarrow> int) \<Rightarrow> addr \<Rightarrow> addr \<Rightarrow> int \<Rightarrow> nmem \<Rightarrow> int option" where
  "native_strncmp diff p q len m = c_strncmp diff p q (c_size len) m"

text \<open>The virtual machine: \<open>NewStringUTF\<close> makes an object from the bytes of a C string;
  \<open>GetStringLength\<close> counts the UTF-16 units of a string object and \<open>GetStringUTFRegion\<close> writes a
  string of bytes for them.\<close>

record 's jvm =
  new_string :: "8 word list \<Rightarrow> 's"
  string_units :: "'s \<Rightarrow> int"
  string_bytes :: "'s \<Rightarrow> 8 word list"

definition javaString :: "'s jvm \<Rightarrow> addr \<Rightarrow> nmem \<Rightarrow> 's option" where
  "javaString V p m = map_option (new_string V) (c_string p m)"

text \<open>\<open>mem\<close> answers the \<open>malloc\<close>; writing to a null pointer is undefined.\<close>

definition javaStringN :: "'s jvm \<Rightarrow> ptr \<Rightarrow> addr \<Rightarrow> int \<Rightarrow> nmem \<Rightarrow> ('s \<times> nmem) option" where
  "javaStringN V mem p len m = do {
     n \<leftarrow> int_chk (len + 1);
     (case c_malloc mem (c_size n) m of (truncated, m) \<Rightarrow> do {
        t \<leftarrow> truncated;
        m \<leftarrow> c_strncpy t p (c_size len) m;
        m \<leftarrow> store_cell (t + word_of_int len) (Some 0) m;
        bs \<leftarrow> c_string t m;
        m \<leftarrow> c_free truncated m;
        Some (new_string V bs, m) }) }"

definition nativeString :: "'s jvm \<Rightarrow> ptr \<Rightarrow> 's \<Rightarrow> nmem \<Rightarrow> (ptr \<times> nmem) option" where
  "nativeString V mem str m =
     (case c_malloc mem (c_size (string_units V str)) m of (chars, m) \<Rightarrow>
        if string_bytes V str = [] then Some (chars, m)
        else do {
          a \<leftarrow> chars;
          m \<leftarrow> store_bytes a (string_bytes V str) m;
          Some (chars, m) })"

definition readByte :: "addr \<Rightarrow> nmem \<Rightarrow> 8 word option" where "readByte p m = load p m"

definition writeByte :: "addr \<Rightarrow> 8 word \<Rightarrow> nmem \<Rightarrow> nmem option" where
  "writeByte p b m = store_cell p (Some b) m"

text \<open>A \<open>jchar\<close> has 16 bits; one byte is read, as a signed \<open>char\<close>, or written.\<close>

definition readChar :: "addr \<Rightarrow> nmem \<Rightarrow> 16 word option" where
  "readChar p m = map_option scast (load p m)"

definition writeChar :: "addr \<Rightarrow> 16 word \<Rightarrow> nmem \<Rightarrow> nmem option" where
  "writeChar p c m = store_cell p (Some (ucast c)) m"

end
