(* ===== verification/Native_Correct.thy ===== *)
theory Native_Correct
  imports Native_Functions
begin

text \<open>
  The strings and characters of \<open>src/src/main/c/jni-native-functions.c\<close>: what Java writes to the
  C heap and reads back.
\<close>

section \<open>Blocks\<close>

lemma unat_step: "q \<noteq> p \<Longrightarrow> unat (q - p) = Suc (unat (q - (p + 1)))" for p q :: addr
proof -
  assume "q \<noteq> p"
  then have "q - p \<noteq> 0" by simp
  then show ?thesis using unat_minus_one [of "q - p"] unat_gt_0 [of "q - p"] by (simp add: diff_diff_eq)
qed

lemma in_block_0 [simp]: "\<not> in_block p 0 q"
  by (simp add: in_block_def)

lemma in_block_Suc: "in_block p (Suc n) q \<longleftrightarrow> q = p \<or> in_block (p + 1) n q"
  by (cases "q = p") (auto simp: in_block_def unat_step)

lemma not_in_next: "n < 2 ^ 64 \<Longrightarrow> \<not> in_block (p + 1) n p"
  by (simp add: in_block_def unsigned_minus_1_eq_mask mask_eq_exp_minus_1)

lemma block_end: "n < 2 ^ 64 \<Longrightarrow> unat (of_nat n :: 64 word) = n"
  by (simp add: unsigned_of_nat take_bit_nat_eq_self)

lemma c_size_nat: "n < 2 ^ 64 \<Longrightarrow> c_size (int n) = n"
  by (simp add: c_size_def block_end)

text \<open>The bytes \<open>bs\<close> stand from \<open>p\<close> on.\<close>

fun holds :: "addr \<Rightarrow> 8 word list \<Rightarrow> nmem \<Rightarrow> bool" where
  "holds p [] m \<longleftrightarrow> True"
| "holds p (b # bs) m \<longleftrightarrow> cells m p = Some (Some b) \<and> holds (p + 1) bs m"

lemma holds_cong:
  "(\<And>q. in_block p (length bs) q \<Longrightarrow> cells m' q = cells m q) \<Longrightarrow> holds p bs m' = holds p bs m"
  by (induction bs arbitrary: p) (auto simp: in_block_Suc)

lemma holds_append: "holds p (xs @ ys) m \<longleftrightarrow> holds p xs m \<and> holds (p + of_nat (length xs)) ys m"
  by (induction xs arbitrary: p) (auto simp: algebra_simps)

lemma store_bytes_writes:
  assumes "store_bytes p bs m = Some m'" and "length bs < 2 ^ 64"
  shows "holds p bs m' \<and> blocks m' = blocks m \<and>
    (\<forall>q. if in_block p (length bs) q then cells m q \<noteq> None \<and> cells m' q \<noteq> None else cells m' q = cells m q)"
  using assms
proof (induction bs arbitrary: p m)
  case (Cons b bs)
  then obtain m1 where m1: "m1 = m\<lparr>cells := (cells m)(p \<mapsto> Some b)\<rparr>" "cells m p \<noteq> None"
    "store_bytes (p + 1) bs m1 = Some m'"
    by (auto simp: store_cell_def split: if_splits bind_splits)
  moreover have "\<not> in_block (p + 1) (length bs) p" using Cons.prems(2) by (intro not_in_next) simp
  ultimately show ?case
    using Cons.IH [OF m1(3)] Cons.prems(2) by (auto simp: in_block_Suc split: if_splits)
qed simp

lemma store_bytes_append:
  "store_bytes p (xs @ ys) m = do { m \<leftarrow> store_bytes p xs m; store_bytes (p + of_nat (length xs)) ys m }"
  by (induction xs arbitrary: p m) (auto simp: store_cell_def algebra_simps)

lemma store_bytes_ok:
  assumes "\<And>q. in_block p (length bs) q \<Longrightarrow> cells m q \<noteq> None"
  shows "\<exists>m'. store_bytes p bs m = Some m'"
  using assms by (induction bs arbitrary: p m) (auto simp: store_cell_def in_block_Suc)

section \<open>Strings in memory\<close>

lemma c_string_holds: "holds p (bs @ [0]) m \<Longrightarrow> 0 \<notin> set bs \<Longrightarrow> c_string p m = Some bs"
  by (induction bs arbitrary: p; subst c_string.simps) (auto simp: load_def)

lemma c_string_runs_out:
  "holds p bs m \<Longrightarrow> 0 \<notin> set bs \<Longrightarrow> cells m (p + of_nat (length bs)) = None \<Longrightarrow> c_string p m = None"
  by (induction bs arbitrary: p; subst c_string.simps) (auto simp: load_def algebra_simps)

lemma strncpy_stores:
  assumes "holds p bs m" and "0 \<notin> set bs" and "\<And>q. in_block p (length bs) q \<Longrightarrow> \<not> in_block t (length bs) q"
  shows "c_strncpy t p (length bs) m = store_bytes t bs m"
  using assms
proof (induction bs arbitrary: p t m)
  case (Cons b bs)
  have "holds (p + 1) bs (m\<lparr>cells := (cells m)(t \<mapsto> Some b)\<rparr>) = holds (p + 1) bs m"
    by (rule holds_cong) (use Cons.prems(3) in \<open>auto simp: in_block_Suc\<close>)
  with Cons show ?case by (auto simp: load_def store_cell_def in_block_Suc)
qed simp

section \<open>Properties\<close>

text \<open>C27: a Java string of characters of one byte each, written with \<open>nativeString\<close> and read with
  \<open>javaStringN\<close> and its length, comes back, and the second call leaves the heap as it was; \<open>a\<close> and \<open>b\<close>
  are the two blocks \<open>malloc\<close> gives.\<close>

theorem native_string_roundtrip:
  assumes units: "string_units V str = int (length (string_bytes V str))" "int (length (string_bytes V str)) < INT_MAX"
    and no_zero: "0 \<notin> set (string_bytes V str)"
    and fresh: "a \<noteq> b" "blocks m b = None"
    "\<And>q. in_block b (Suc (length (string_bytes V str))) q \<Longrightarrow>
       cells m q = None \<and> \<not> in_block a (length (string_bytes V str)) q"
  shows "\<exists>m'. nativeString V (Some a) str m = Some (Some a, m') \<and>
    javaStringN V (Some b) a (string_units V str) m' = Some (new_string V (string_bytes V str), m')"
proof -
  define bs where "bs = string_bytes V str"
  define n where "n = length bs"
  have n: "int n < INT_MAX" "n < 2 ^ 64" "Suc n < 2 ^ 64" using units(2) by (simp_all add: bs_def n_def INT_MAX_def)
  let ?m0 = "snd (c_malloc (Some a) n m)"
  obtain m1 where m1: "store_bytes a bs ?m0 = Some m1"
    using store_bytes_ok [of a bs ?m0] by (auto simp: c_malloc_def n_def)
  then have w1: "holds a bs m1" "blocks m1 = (blocks m)(a \<mapsto> n)" "\<And>q. \<not> in_block a n q \<Longrightarrow> cells m1 q = cells m q"
    using store_bytes_writes [OF m1] n(2) by (auto simp: c_malloc_def n_def split: if_splits)
  have native: "nativeString V (Some a) str m = Some (Some a, m1)"
    using m1 units(1) c_size_nat [OF n(2)] by (auto simp: nativeString_def c_malloc_def bs_def n_def)
  let ?m2 = "snd (c_malloc (Some b) (Suc n) m1)"
  have sep: "in_block b (Suc n) q \<Longrightarrow> cells m1 q = None \<and> \<not> in_block a n q" for q
    using fresh(3) w1(3) by (simp add: bs_def n_def)
  have "holds a bs ?m2"
    using w1(1) sep by (subst holds_cong [of _ _ _ m1]) (auto simp: c_malloc_def n_def)
  have inb: "in_block b n q \<Longrightarrow> in_block b (Suc n) q" for q by (simp add: in_block_def)
  have strncpy: "c_strncpy b a n ?m2 = store_bytes b bs ?m2"
    unfolding n_def using \<open>holds a bs ?m2\<close> no_zero sep inb
    by (intro strncpy_stores) (auto simp: bs_def n_def)
  have "store_bytes b (bs @ [0]) ?m2 \<noteq> None"
    using store_bytes_ok [of b "bs @ [0]" ?m2] by (auto simp: c_malloc_def n_def)
  then obtain m3 where m3: "store_bytes b (bs @ [0]) ?m2 = Some m3" by blast
  have w3: "c_string b m3 = Some bs" "blocks m3 b = Some (Suc n)" "blocks m3 = (blocks m1)(b \<mapsto> Suc n)"
    "\<And>q. \<not> in_block b (Suc n) q \<Longrightarrow> cells m3 q = cells m1 q"
    using store_bytes_writes [OF m3] n(3) no_zero c_string_holds [of b bs m3]
    by (auto simp: c_malloc_def n_def bs_def split: if_splits)
  have "c_free (Some b) m3 = Some m1"
    using w3 sep w1(2) fresh(1,2) by (auto simp: c_free_def fun_eq_iff intro!: nmem.equality)
  then have "javaStringN V (Some b) a (int n) m1 = Some (new_string V bs, m1)"
    using n m3 w3(1) strncpy c_size_nat [of n] c_size_nat [of "Suc n"]
    by (auto simp: javaStringN_def c_malloc_def store_bytes_append n_def INT_MIN_def add.commute
        split: bind_splits)
  with native show ?thesis using units(1) by (auto simp: bs_def n_def)
qed

text \<open>The memory \<open>nativeString\<close> returns does not hold a C string: the buffer is as long as the
  string and has no room for the terminating 0. When every UTF-16 unit gives at least one byte and
  no memory is allocated right behind the buffer, \<open>strlen\<close> and \<open>javaString\<close> of the result run out of it,
  whether or not the virtual machine writes a 0 behind the bytes \<open>bs\<close> of the string.\<close>

theorem native_string_unterminated:
  assumes "nativeString V (Some a) str m = Some (Some a, m')"
    and "string_bytes V str = bs @ zero" and "0 \<notin> set bs" and "length bs < 2 ^ 63" and "length zero \<le> 1"
    and "0 \<le> string_units V str" and "string_units V str \<le> int (length bs)" and "bs \<noteq> []"
    and "cells m (a + word_of_int (string_units V str)) = None"
  shows "native_strlen a m' = None \<and> javaString V a m' = None"
proof -
  define n where "n = nat (string_units V str)"
  have n: "string_units V str = int n" "n \<le> length bs" "n < 2 ^ 64"
    using assms(4,6,7) by (auto simp: n_def)
  have l: "length (bs @ zero) < 2 ^ 64" using assms(4,5) by simp
  let ?m0 = "snd (c_malloc (Some a) n m)"
  have end_cell: "cells ?m0 (a + of_nat n) = None"
    using assms(9) n by (simp add: c_malloc_def in_block_def block_end)
  have store: "store_bytes a (bs @ zero) ?m0 = Some m'"
    using assms(1,2,8) n by (auto simp: nativeString_def c_size_nat c_malloc_def split: bind_splits)
  have "cells ?m0 q \<noteq> None" if "in_block a (length (bs @ zero)) q" for q
    using store_bytes_writes [OF store l] that by (auto split: if_splits)
  with end_cell have "\<not> in_block a (length (bs @ zero)) (a + of_nat n)" by blast
  then have "length (bs @ zero) \<le> n" using n(3) by (simp add: in_block_def block_end)
  with n(2) have "length bs = n" "length zero = 0" unfolding length_append by linarith+
  with store_bytes_writes [OF store l] end_cell have "holds a bs m'" "cells m' (a + of_nat (length bs)) = None"
    using n(3) by (auto simp: in_block_def block_end split: if_splits)
  with assms(3) have "c_string a m' = None" by (rule_tac c_string_runs_out)
  then show ?thesis by (simp add: native_strlen_def javaString_def)
qed

text \<open>\<open>writeChar\<close> stores the low byte of a Java character and \<open>readChar\<close> extends its sign: the
  characters below 128 (and, read as signed, not below -128) come back, no other.\<close>

theorem char_roundtrip:
  assumes "writeChar p c m = Some m'"
  shows "readChar p m' = Some c \<longleftrightarrow> - 128 \<le> sint c \<and> sint c < 128"
proof -
  have "load p m' = Some (ucast c)"
    using assms by (auto simp: writeChar_def store_cell_def load_def split: if_splits)
  moreover have "scast (ucast c :: 8 word) = c \<longleftrightarrow> signed_take_bit 7 (sint c) = sint c"
  proof -
    have "sint (scast w :: 16 word) = sint w" for w :: "8 word"
      by (rule sint_up_scast) (simp add: is_up)
    moreover have "sint (ucast c :: 8 word) = signed_take_bit 7 (sint c)"
      by (simp add: sint_uint unsigned_ucast_eq signed_take_bit_take_bit signed_take_bit_signed_take_bit)
    ultimately have "sint (scast (ucast c :: 8 word) :: 16 word) = signed_take_bit 7 (sint c)" by metis
    then show ?thesis by (metis signed_word_eqI)
  qed
  ultimately show ?thesis by (simp add: readChar_def signed_take_bit_int_eq_self_iff)
qed

section \<open>Witnesses\<close>

text \<open>A virtual machine whose strings are their bytes, and the string "hi".\<close>

definition byte_vm :: "8 word list jvm" where
  "byte_vm = \<lparr>new_string = (\<lambda>bs. bs), string_units = (\<lambda>s. int (length s)), string_bytes = (\<lambda>s. s)\<rparr>"

definition empty_mem :: nmem where "empty_mem = \<lparr>cells = Map.empty, blocks = Map.empty\<rparr>"

lemma native_string_write:
  "\<exists>m. nativeString byte_vm (Some 16) [104, 105] empty_mem = Some (Some 16, m)"
  by (simp add: nativeString_def byte_vm_def empty_mem_def c_malloc_def c_size_def in_block_def store_cell_def)

theorem native_string_roundtrip_witness:
  "\<exists>m. nativeString byte_vm (Some 16) [104, 105] empty_mem = Some (Some 16, m) \<and>
    javaStringN byte_vm (Some 64) 16 2 m = Some ([104, 105], m)"
proof -
  have sep: "\<not> in_block 16 (Suc (Suc 0)) q" if "in_block 64 (Suc (Suc (Suc 0))) q" for q :: addr
  proof -
    from that have "q = 64 \<or> q = 65 \<or> q = 66" by (simp add: in_block_Suc)
    then show ?thesis by (auto simp: in_block_def)
  qed
  show ?thesis
    using native_string_roundtrip [of byte_vm "[104, 105]" 16 64 empty_mem] sep
    by (simp add: byte_vm_def empty_mem_def INT_MAX_def)
qed

theorem native_string_unterminated_witness:
  "\<exists>m. nativeString byte_vm (Some 16) [104, 105] empty_mem = Some (Some 16, m) \<and> native_strlen 16 m = None"
proof -
  obtain m where m: "nativeString byte_vm (Some 16) [104, 105] empty_mem = Some (Some 16, m)"
    using native_string_write by blast
  from native_string_unterminated [OF m, of "[104, 105]" "[]"] m show ?thesis
    by (auto simp: byte_vm_def empty_mem_def)
qed

theorem char_roundtrip_witness:
  "readChar 16 \<lparr>cells = [16 \<mapsto> Some 200], blocks = Map.empty\<rparr> \<noteq> Some 200"
  using char_roundtrip [of 16 200 "\<lparr>cells = [16 \<mapsto> None], blocks = Map.empty\<rparr>"
      "\<lparr>cells = [16 \<mapsto> Some 200], blocks = Map.empty\<rparr>"]
  by (simp add: writeChar_def store_cell_def)

end
