(* ===== verification/Spec2Isabelle.thy ===== *)
theory Spec2Isabelle
  imports Scandir_Correct Dent_Props Etp_Live Etp_Spec Etp_Cond Etp_Sections Eio_Demo Etp_Poll_Run Emul_Lock Jni_Props Native_Correct
begin

text \<open>
  A model of \<open>libeio\<close> (\<open>src/libeio\<close>), an asynchronous input and output library on a thread pool,
  and of the Java binding built on it (\<open>src/src/main/c\<close>).

  \<^bold>\<open>The program.\<close> A client thread builds a request (\<open>struct eio_req\<close>) with one of the \<open>eio_\<close>
  wrappers and submits it. The request waits in a priority queue until a worker thread takes it,
  makes its system call and puts it into a second priority queue of results. \<open>want_poll\<close> tells the
  client that results wait; \<open>eio_poll\<close> takes them out, calls their callbacks and frees them. A
  request can be a group of others and is finished after its last member. Java code reaches the
  library through native methods, and its event loop is woken through a pipe.

  \<^bold>\<open>Conventions.\<close> An operation that can reach a point with no defined successor in C (a null or
  dangling pointer, an index outside its array, signed overflow, a failed assertion) returns an
  \<open>option\<close> and is \<^term>\<open>None\<close> there, also where its loop does not end. Errors the code reports are
  values. The allocator, the operating system, thread creation, the clock, \<open>configure\<close> and the
  Java virtual machine are arguments: \<open>calloc\<close> and \<open>malloc\<close> by the pointer they return, the kernel
  by a function from calls and machine states to results. The ABI is LP64 with signed \<open>char\<close>.

  \<^bold>\<open>The theories, and the code they model.\<close>

  \<^item> \<open>Eio_Prelude\<close>: checked C integers, pointers, chains of cells, and lemmas on words, lists and
    \<open>option\<close> shared by all.
  \<^item> \<open>Eio_Req\<close>: \<open>struct eio_req\<close>, the request types, flags and priorities of \<open>eio.h\<close>.
  \<^item> \<open>Req_Queue\<close>: \<open>etp_reqq\<close>, \<open>reqq_push\<close> and \<open>reqq_shift\<close> on the heap of requests. \<open>reqq_rep\<close> relates
    a queue to nine lists; the locale \<open>prio_fifo\<close> is the contract of a queue by priority and
    arrival, interpreted on the code's queue.
  \<^item> \<open>Etp_Worker\<close>: the ring of worker records. \<open>Etp_Pool\<close>: the static variables of the pool, the
    operations of the client thread (\<open>etp_submit\<close>, \<open>etp_start_thread\<close>, \<open>etp_end_thread\<close>, the
    setters). \<open>Etp_Proc\<close>: the critical sections of the thread procedure \<open>etp_proc\<close> and the step
    relation that interleaves them with the sections of the client thread.
  \<^item> \<open>Etp_Inv\<close>: the invariant of that relation: the queues represent lists, every request is in
    one place, the ring of workers matches the threads, the counters count. \<open>Etp_Props\<close>: what
    follows in every reachable state. \<open>Etp_Live\<close>: a run that delivers every request. \<open>Etp_Race\<close>: a
    run after which a counter is wrong. \<open>Etp_Spec\<close>: the pool without threads, pointers and counters,
    as two lists of requests per priority and the requests in work, and the simulation of the step
    relation by it. \<open>Etp_Cond\<close>: the condition variable \<open>reqwait\<close> with the guarantees of POSIX; when
    no request is left to sleeping threads, and a run in which one is. \<open>Etp_Sections\<close>: what the
    section of a worker reads and changes; sections of two workers that need no common lock commute.
  \<^item> \<open>Eio_Group\<close>: \<open>eio_finish\<close>, \<open>grp_dec\<close>, the feeder loop, \<open>eio_destroy\<close>, \<open>eio_cancel\<close>, the group
    functions. \<open>Group_Correct\<close>: the list of members, cancelling, the end of a group.
  \<^item> \<open>Etp_Poll\<close>: \<open>etp_poll\<close> and the order in which it finishes results.
  \<^item> \<open>Eio_Fork\<close>: \<open>etp_atfork_child\<close>; the locale \<open>queue_field\<close> states once what holds of the loop
    that empties either queue. \<open>Eio_Threads\<close>: \<open>thread_create\<close> of \<open>xthread.h\<close> and the signal mask, the
    locks and the handlers that hold them over a fork.
  \<^item> \<open>Dent_Radix\<close>, \<open>Dent_Sort\<close>: \<open>eio_dent_radix_sort\<close> with its explicit stack,
    \<open>eio_dent_insertion_sort\<close>, \<open>eio_dent_sort\<close>. \<open>Dent_Radix_Correct\<close>, \<open>Dent_Key\<close>, \<open>Dent_Props\<close>: the
    stack computes the recursive radix sort, every entry ends near its place, the result is a
    sorted permutation. The locales \<open>key_order\<close> and \<open>bit_tests\<close> are what the sorts need of
    comparisons and bit tests.
  \<^item> \<open>Dent_Scandir\<close>: \<open>eio__scandir\<close>. \<open>Scandir_Correct\<close>: names, array, order and errors of a scan.
  \<^item> \<open>Eio_Time\<close>: the arithmetic on \<open>double\<close> times, on IEEE 754 representations. \<open>Eio_Emul\<close>: the
    emulated system calls, page arithmetic and flag translations; \<open>Emul_Correct\<close>: their properties.
    \<open>Emul_Lock\<close>: any number of threads in the emulated \<open>pread\<close> and \<open>pwrite\<close>, step by step under their
    lock, against the same calls one after the other.
  \<^item> \<open>Eio_Execute\<close>: \<open>eio_execute\<close>, every case of its switch. \<open>Eio_Api\<close>: the public wrappers and
    setters. \<open>Api_Correct\<close>: submitting with a wrapper and executing the request makes the system
    call of the wrapper's name with its arguments; \<open>eio_execute\<close> is an instance of the execution
    step of \<open>Etp_Proc\<close>; memory failures. \<open>Eio_Life\<close>: one request from its wrapper through a round of
    a worker to the poll that calls its callback and frees it. \<open>Etp_Seq\<close>: the functions of the two
    sequential models, \<open>etp_submit\<close> and a round of \<open>etp_proc\<close>, are runs of the step relation, and
    so is, in \<open>Etp_Poll_Run\<close>, \<open>etp_poll\<close> with its callbacks and the threads it starts.
  \<^item> \<open>Eio_Demo\<close>: the demonstration program \<open>demo.c\<close>, its callbacks, its script and that its event loop
    ends.
  \<^item> \<open>Jni_Asyncio\<close>: the native methods of \<open>asyncio.c\<close>, the references and data of a request.
    \<open>Jni_Props\<close>: the pipe follows the result queue, the life of a native request.
  \<^item> \<open>Native_Functions\<close>, \<open>Native_Correct\<close>: the native heap and string methods of
    \<open>jni-native-functions.c\<close>.

  \<^bold>\<open>Loops and bounds.\<close> Loops with a bound in the data are total functions with a termination proof
  (the two sorts, the scan over its entries, the bytes of \<open>memcpy\<close>). Loops that end only for
  well-formed states are partial functions into \<open>option\<close>; that they return is part of what is proved:
  cancelling nested groups, finishing a chain of groups, draining the results, ending the threads,
  emptying queues and workers after a fork, the emulated \<open>sendfile\<close>, reading a C string. Counters
  wrap at 32 bits, and their properties are equations modulo \<open>2^32\<close>. A queue holds up to
  \<open>INT_MAX\<close> requests: pushing on a full one is undefined, and a step that pushes asks for room.

  \<^bold>\<open>Not modelled.\<close> Mutexes inside the pool: sections between \<open>X_LOCK\<close> and \<open>X_UNLOCK\<close>
  are atomic steps. \<open>Etp_Sections\<close> shows that the order of two workers' sections under different
  locks does not matter, but says nothing of the sections of the submitting thread. Outside
  \<open>Etp_Cond\<close> a wait is a program point that any wake-up can leave. Apart from \<open>thread_create\<close> the
  Windows halves of \<open>xthread.h\<close> and \<open>eio.c\<close>, with their \<open>sendfile\<close>. The Java sources and the
  build scripts. The steps of a worker inside a system call are one step.
\<close>

end
